(* ===== verification/Prelude.thy ===== *)
theory Prelude
  imports
    Main
    "HOL-Library.List_Lexorder"
    "HOL-Library.Char_ord"
    "HOL-Library.Product_Lexorder"
    "HOL-Library.Multiset"
begin

text \<open>
  Shared vocabulary of the development: the pieces of Rust's standard library that the modelled
  components use, and the lemmas about them that the component theories rely on.

  \<^item> \<open>ordering\<close>, \<open>cmp_of\<close>, \<open>then_with\<close>, \<open>sort_by\<close>, \<open>dedup_by\<close>: \<^verbatim>\<open>std::cmp::Ordering\<close>,
    \<^verbatim>\<open>Ord::cmp\<close>, \<^verbatim>\<open>Ordering::then_with\<close>, the stable \<^verbatim>\<open>slice::sort_by\<close> and \<^verbatim>\<open>Vec::dedup_by\<close>.
  \<^item> \<open>split_once\<close>, \<open>strip_prefix\<close>, \<open>strip_suffix\<close>, \<open>parse_i64\<close>, \<open>show_int\<close>: the string
    routines. A Rust \<^verbatim>\<open>String\<close> is its UTF-8 byte sequence, so it is a HOL \<open>string\<close> (a list of
    8-bit characters) and \<^verbatim>\<open>Ord\<close> on it is the lexicographic order of \<open>List_Lexorder\<close>.
  \<^item> \<open>al_get\<close>, \<open>al_put\<close>, \<open>al_del\<close>: dictionaries that are also iterated over, as association
    lists in iteration order; the locale \<open>dictionary\<close> states what clients rely on.
  \<^item> \<open>io\<close>: fallible code with effects. A Rust function that returns \<^verbatim>\<open>Result\<close> and changes
    state keeps the effects made before an early return, so the state is returned on both paths.
  \<^item> \<open>wrap64\<close>, \<open>sat64\<close>: \<^verbatim>\<open>i64\<close> arithmetic of a release build, written out over \<open>int\<close>.
\<close>

named_theorems io_inv_intros \<open>rules that push an invariant through effectful code\<close>
named_theorems io_simps \<open>equations of the effect combinators\<close>

section \<open>Orderings, sorting and deduplication\<close>

datatype ordering = Less | Equal | Greater

definition cmp_of :: "'k::linorder \<Rightarrow> 'k \<Rightarrow> ordering" where
  "cmp_of a b = (if a < b then Less else if a = b then Equal else Greater)"

definition then_with :: "ordering \<Rightarrow> ordering \<Rightarrow> ordering" where
  "then_with a b = (case a of Equal \<Rightarrow> b | _ \<Rightarrow> a)"

lemma cmp_of_simps [simp]:
  "cmp_of a b = Less \<longleftrightarrow> a < b"
  "cmp_of a b = Equal \<longleftrightarrow> a = b"
  "cmp_of a b = Greater \<longleftrightarrow> b < a"
  by (auto simp: cmp_of_def)

lemma cmp_of_pair:
  "cmp_of (a, b) (c, d) = then_with (cmp_of a c) (cmp_of b d)"
  by (auto simp: cmp_of_def then_with_def)

text \<open>\<^verbatim>\<open>slice::sort_by\<close> is a stable sort: an element goes before the first one that it is not
  greater than.\<close>

fun insort_by :: "('a \<Rightarrow> 'a \<Rightarrow> ordering) \<Rightarrow> 'a \<Rightarrow> 'a list \<Rightarrow> 'a list" where
  "insort_by cmp x [] = [x]"
| "insort_by cmp x (y # ys) =
     (if cmp x y = Greater then y # insort_by cmp x ys else x # y # ys)"

definition sort_by :: "('a \<Rightarrow> 'a \<Rightarrow> ordering) \<Rightarrow> 'a list \<Rightarrow> 'a list" where
  "sort_by cmp xs = foldr (insort_by cmp) xs []"

text \<open>\<^verbatim>\<open>Vec::dedup_by\<close> drops an element that equals the last one kept.\<close>

fun dedup_from :: "('a \<Rightarrow> 'a \<Rightarrow> bool) \<Rightarrow> 'a \<Rightarrow> 'a list \<Rightarrow> 'a list" where
  "dedup_from same x [] = [x]"
| "dedup_from same x (y # ys) =
     (if same y x then dedup_from same x ys else x # dedup_from same y ys)"

definition dedup_by :: "('a \<Rightarrow> 'a \<Rightarrow> bool) \<Rightarrow> 'a list \<Rightarrow> 'a list" where
  "dedup_by same xs = (case xs of [] \<Rightarrow> [] | x # ys \<Rightarrow> dedup_from same x ys)"

lemma mset_insort_by [simp]: "mset (insort_by cmp x xs) = add_mset x (mset xs)"
  by (induction xs) auto

lemma mset_sort_by [simp]: "mset (sort_by cmp xs) = mset xs"
  by (induction xs) (simp_all add: sort_by_def)

lemma set_sort_by [simp]: "set (sort_by cmp xs) = set xs"
  by (metis mset_sort_by set_mset_mset)

lemma length_sort_by [simp]: "length (sort_by cmp xs) = length xs"
  by (metis mset_sort_by size_mset)

lemma sort_by_simps [simp]:
  "sort_by cmp [] = []"
  "sort_by cmp (x # xs) = insort_by cmp x (sort_by cmp xs)"
  by (simp_all add: sort_by_def)

lemma set_dedup_from_subset: "set (dedup_from same x xs) \<subseteq> insert x (set xs)"
  by (induction xs arbitrary: x) (auto split: if_splits)

lemma dedup_from_head: "\<exists>zs. dedup_from same x xs = x # zs"
  by (induction xs arbitrary: x) auto

lemma set_dedup_eq [simp]: "set (dedup_from (=) x xs) = insert x (set xs)"
  by (induction xs arbitrary: x) auto

text \<open>
  A comparison function that orders values by a key. The sorting and deduplication lemmas of a
  component are proved once here; each comparison function of the code is an interpretation.
\<close>

locale keyed_order =
  fixes cmp :: "'a \<Rightarrow> 'a \<Rightarrow> ordering"
    and key :: "'a \<Rightarrow> 'k::linorder"
  assumes cmp_key: "cmp a b = cmp_of (key a) (key b)"
begin

lemma insort_by_eq_insort_key: "insort_by cmp x xs = insort_key key x xs"
  by (induction xs) (auto simp: cmp_key)

lemma sort_by_eq_sort_key: "sort_by cmp xs = sort_key key xs"
  by (induction xs) (simp_all add: insort_by_eq_insort_key)

lemma sorted_sort_by: "sorted (map key (sort_by cmp xs))"
  by (simp add: sort_by_eq_sort_key)

lemma sort_by_id: "sorted (map key xs) \<Longrightarrow> sort_by cmp xs = xs"
  by (induction xs) (auto simp: insort_by_eq_insort_key insort_is_Cons)

lemma sort_by_idem: "sort_by cmp (sort_by cmp xs) = sort_by cmp xs"
  by (rule sort_by_id) (rule sorted_sort_by)

lemma sorted_dedup_from:
  "sorted (map key (x # xs)) \<Longrightarrow> sorted (map key (dedup_from same x xs))"
proof (induction xs arbitrary: x)
  case Nil
  then show ?case by simp
next
  case (Cons y ys)
  have sub: "set (dedup_from same y ys) \<subseteq> insert y (set ys)"
    by (rule set_dedup_from_subset)
  from Cons show ?case
    using sub by (auto split: if_splits)
qed

lemma sorted_dedup_by:
  "sorted (map key xs) \<Longrightarrow> sorted (map key (dedup_by same xs))"
  by (auto simp: dedup_by_def simp del: list.map sorted_wrt.simps
      intro: sorted_dedup_from split: list.splits)

text \<open>Deduplicating a sorted list by key leaves strictly increasing keys.\<close>

lemma strict_dedup_from:
  assumes "sorted (map key (x # xs))" and "\<And>a b. same a b \<longleftrightarrow> key a = key b"
  shows "sorted_wrt (<) (map key (dedup_from same x xs))"
  using assms(1)
proof (induction xs arbitrary: x)
  case Nil
  then show ?case by simp
next
  case (Cons y ys)
  show ?case
  proof (cases "same y x")
    case True
    with Cons show ?thesis by simp
  next
    case False
    with assms(2) Cons.prems have less: "key x < key y"
      by (metis list.map(2) list.set_intros(1) order_le_less sorted_simps(2))
    from Cons have tail: "sorted_wrt (<) (map key (dedup_from same y ys))" by simp
    obtain zs where zs: "dedup_from same y ys = y # zs"
      using dedup_from_head by metis
    from tail zs less False show ?thesis by auto
  qed
qed

lemma strict_dedup_by:
  assumes "sorted (map key xs)" and "\<And>a b. same a b \<longleftrightarrow> key a = key b"
  shows "sorted_wrt (<) (map key (dedup_by same xs))"
proof (cases xs)
  case Nil
  then show ?thesis by (simp add: dedup_by_def)
next
  case (Cons y ys)
  then show ?thesis
    using strict_dedup_from [of y ys same] assms by (simp add: dedup_by_def)
qed

end

lemma keys_dedup_from:
  "(\<And>a b. same a b \<longleftrightarrow> k a = k b) \<Longrightarrow> k ` set (dedup_from same x xs) = insert (k x) (k ` set xs)"
  by (induction xs arbitrary: x) auto

lemma keys_dedup_by:
  "(\<And>a b. same a b \<longleftrightarrow> k a = k b) \<Longrightarrow> k ` set (dedup_by same xs) = k ` set xs"
  by (cases xs) (simp_all add: dedup_by_def keys_dedup_from)

lemma set_dedup_by_subset: "set (dedup_by same xs) \<subseteq> set xs"
proof (cases xs)
  case (Cons y ys)
  then show ?thesis using set_dedup_from_subset [of same y ys] by (simp add: dedup_by_def)
qed (simp add: dedup_by_def)

lemma set_dedup_by_eq [simp]: "set (dedup_by (=) xs) = set xs"
  by (cases xs) (simp_all add: dedup_by_def)

lemma set_map_filter: "y \<in> set (List.map_filter f xs) \<longleftrightarrow> (\<exists>x \<in> set xs. f x = Some y)"
  by (force simp: map_filter_def)

section \<open>Strings\<close>

type_synonym str = string

fun split_once :: "char \<Rightarrow> str \<Rightarrow> (str \<times> str) option" where
  "split_once c [] = None"
| "split_once c (x # xs) =
     (if x = c then Some ([], xs)
      else map_option (\<lambda>(a, b). (x # a, b)) (split_once c xs))"

definition strip_prefix :: "str \<Rightarrow> str \<Rightarrow> str option" where
  "strip_prefix p s = (if take (length p) s = p then Some (drop (length p) s) else None)"

definition strip_suffix :: "str \<Rightarrow> str \<Rightarrow> str option" where
  "strip_suffix q s = map_option rev (strip_prefix (rev q) (rev s))"

definition starts_with :: "str \<Rightarrow> str \<Rightarrow> bool" where
  "starts_with p s \<longleftrightarrow> take (length p) s = p"

lemma split_once_Some: "split_once c s = Some (a, b) \<longleftrightarrow> s = a @ c # b \<and> c \<notin> set a"
proof (induction s arbitrary: a)
  case Nil
  then show ?case by simp
next
  case (Cons x xs)
  then show ?case by (cases a) auto
qed

lemma split_once_None: "split_once c s = None \<longleftrightarrow> c \<notin> set s"
  by (induction s) auto

lemma split_once_append: "c \<notin> set a \<Longrightarrow> split_once c (a @ c # b) = Some (a, b)"
  by (simp add: split_once_Some)

lemma strip_prefix_Some: "strip_prefix p s = Some r \<longleftrightarrow> s = p @ r"
  by (auto simp: strip_prefix_def) (metis append_take_drop_id)

lemma strip_prefix_append [simp]: "strip_prefix p (p @ r) = Some r"
  by (simp add: strip_prefix_Some)

lemma strip_suffix_Some: "strip_suffix q s = Some r \<longleftrightarrow> s = r @ q"
  by (auto simp: strip_suffix_def strip_prefix_Some) (metis rev_append rev_rev_ident)+

lemma strip_suffix_append [simp]: "strip_suffix q (r @ q) = Some r"
  by (simp add: strip_suffix_Some)

lemma starts_with_append [simp]: "starts_with p (p @ r)"
  by (simp add: starts_with_def)

subsection \<open>Safe identifiers\<close>

text \<open>
  \<^verbatim>\<open>SAFE_ID_REGEX\<close> of the crate \<^verbatim>\<open>proxmox_schema\<close> is a parameter \<open>safe\<close> of the definitions that
  use it. Its documented pattern is a letter, digit or underscore followed by letters, digits,
  underscores, dots and dashes; \<open>safe_id_spec\<close> states that nothing else is accepted.
  \<open>ascii_safe_id\<close> is such a matcher.
\<close>

definition is_ascii_alnum :: "char \<Rightarrow> bool" where
  "is_ascii_alnum c \<longleftrightarrow>
     (let n = (of_char c :: nat)
      in 48 \<le> n \<and> n \<le> 57 \<or> 65 \<le> n \<and> n \<le> 90 \<or> 97 \<le> n \<and> n \<le> 122)"

definition is_safe_id_char :: "char \<Rightarrow> bool" where
  "is_safe_id_char c \<longleftrightarrow> is_ascii_alnum c \<or> c = CHR ''_'' \<or> c = CHR ''.'' \<or> c = CHR ''-''"

definition ascii_safe_id :: "str \<Rightarrow> bool" where
  "ascii_safe_id s \<longleftrightarrow>
     s \<noteq> [] \<and> (is_ascii_alnum (hd s) \<or> hd s = CHR ''_'') \<and> list_all is_safe_id_char s"

definition safe_id_spec :: "(str \<Rightarrow> bool) \<Rightarrow> bool" where
  "safe_id_spec safe \<longleftrightarrow> (\<forall>s. safe s \<longrightarrow> ascii_safe_id s)"

lemma safe_id_spec_ascii [simp]: "safe_id_spec ascii_safe_id"
  by (simp add: safe_id_spec_def)

lemma safe_id_chars:
  "safe_id_spec safe \<Longrightarrow> safe s \<Longrightarrow> c \<in> set s \<Longrightarrow> is_safe_id_char c"
  by (auto simp: safe_id_spec_def ascii_safe_id_def list_all_iff)

lemma safe_id_nonempty: "safe_id_spec safe \<Longrightarrow> safe s \<Longrightarrow> s \<noteq> []"
  by (auto simp: safe_id_spec_def ascii_safe_id_def)

lemma not_safe_id_chars [simp]:
  "\<not> is_safe_id_char CHR '':''" "\<not> is_safe_id_char CHR ''!''" "\<not> is_safe_id_char CHR ''/''"
  "\<not> is_safe_id_char CHR ''=''" "\<not> is_safe_id_char CHR '' ''"
  by (simp_all add: is_safe_id_char_def is_ascii_alnum_def)

subsection \<open>Decimal numbers\<close>

text \<open>
  \<^verbatim>\<open>Display\<close> of integers and \<^verbatim>\<open>str::parse\<close> for \<^verbatim>\<open>i64\<close> and \<^verbatim>\<open>u32\<close>: an optional sign (a minus only
  for the signed type), at least one decimal digit, and an error when the value does not fit.
\<close>

definition digit_char :: "nat \<Rightarrow> char" where
  "digit_char d = char_of (48 + d)"

definition is_ascii_digit :: "char \<Rightarrow> bool" where
  "is_ascii_digit c \<longleftrightarrow> 48 \<le> (of_char c :: nat) \<and> (of_char c :: nat) \<le> 57"

definition digit_val :: "char \<Rightarrow> nat" where
  "digit_val c = of_char c - 48"

fun show_nat :: "nat \<Rightarrow> str" where
  "show_nat n = (if n < 10 then [digit_char n] else show_nat (n div 10) @ [digit_char (n mod 10)])"

declare show_nat.simps [simp del]

definition show_int :: "int \<Rightarrow> str" where
  "show_int i = (if i < 0 then CHR ''-'' # show_nat (nat (- i)) else show_nat (nat i))"

fun parse_digits :: "nat \<Rightarrow> str \<Rightarrow> nat option" where
  "parse_digits acc [] = Some acc"
| "parse_digits acc (c # cs) =
     (if is_ascii_digit c then parse_digits (10 * acc + digit_val c) cs else None)"

definition parse_unsigned :: "str \<Rightarrow> nat option" where
  "parse_unsigned s = (if s = [] then None else parse_digits 0 s)"

definition parse_i64 :: "str \<Rightarrow> int option" where
  "parse_i64 s =
     (case s of
        [] \<Rightarrow> None
      | c # cs \<Rightarrow>
          (case (if c = CHR ''-'' then map_option (\<lambda>n. - int n) (parse_unsigned cs)
                 else if c = CHR ''+'' then map_option int (parse_unsigned cs)
                 else map_option int (parse_unsigned s)) of
             None \<Rightarrow> None
           | Some i \<Rightarrow> if - (2 ^ 63) \<le> i \<and> i < 2 ^ 63 then Some i else None))"

definition parse_u32 :: "str \<Rightarrow> nat option" where
  "parse_u32 s =
     (case s of
        [] \<Rightarrow> None
      | c # cs \<Rightarrow>
          (case (if c = CHR ''+'' then parse_unsigned cs else parse_unsigned s) of
             None \<Rightarrow> None
           | Some n \<Rightarrow> if n < 2 ^ 32 then Some n else None))"

lemma is_ascii_digit_digit_char [simp]: "d < 10 \<Longrightarrow> is_ascii_digit (digit_char d)"
  by (simp add: is_ascii_digit_def digit_char_def)

lemma digit_val_digit_char [simp]: "d < 10 \<Longrightarrow> digit_val (digit_char d) = d"
  by (simp add: digit_val_def digit_char_def)

lemma digit_char_not_sign:
  assumes "is_ascii_digit c"
  shows "c \<noteq> CHR ''-''" and "c \<noteq> CHR ''+''" and "c \<noteq> CHR ''.''"
  using assms by (auto simp: is_ascii_digit_def)

lemma show_nat_nonempty [simp]: "show_nat n \<noteq> []"
  by (subst show_nat.simps) simp

lemma show_nat_digits: "c \<in> set (show_nat n) \<Longrightarrow> is_ascii_digit c"
proof (induction n rule: show_nat.induct)
  case (1 n)
  show ?case
  proof (cases "n < 10")
    case True
    with "1.prems" show ?thesis by (simp add: show_nat.simps [of n])
  next
    case False
    with "1.prems" have "c \<in> set (show_nat (n div 10)) \<or> c = digit_char (n mod 10)"
      by (auto simp: show_nat.simps [of n])
    with "1.IH" False show ?thesis by auto
  qed
qed

lemma parse_digits_append:
  "parse_digits acc (xs @ ys) = Option.bind (parse_digits acc xs) (\<lambda>b. parse_digits b ys)"
  by (induction xs arbitrary: acc) auto

lemma parse_digits_show_nat: "parse_digits 0 (show_nat n) = Some n"
proof (induction n rule: show_nat.induct)
  case (1 n)
  show ?case
  proof (cases "n < 10")
    case True
    then show ?thesis by (subst show_nat.simps) simp
  next
    case False
    with 1 show ?thesis
      by (subst show_nat.simps) (simp add: parse_digits_append)
  qed
qed

lemma parse_unsigned_show_nat [simp]: "parse_unsigned (show_nat n) = Some n"
  by (simp add: parse_unsigned_def parse_digits_show_nat)

lemma show_nat_head:
  obtains c cs where "show_nat n = c # cs" and "is_ascii_digit c"
proof (cases "show_nat n")
  case Nil
  then show ?thesis by simp
next
  case (Cons c cs)
  then have "is_ascii_digit c" using show_nat_digits [of c n] by simp
  with Cons show ?thesis by (rule that)
qed

text \<open>Printing a number in range and parsing it again gives the number back.\<close>

lemma parse_i64_show_int:
  assumes "- (2 ^ 63) \<le> i" and "i < 2 ^ 63"
  shows "parse_i64 (show_int i) = Some i"
proof (cases "i < 0")
  case True
  with assms show ?thesis by (simp add: parse_i64_def show_int_def)
next
  case False
  obtain c cs where s: "show_nat (nat i) = c # cs" and c: "is_ascii_digit c"
    by (rule show_nat_head)
  have "parse_unsigned (c # cs) = Some (nat i)"
    using parse_unsigned_show_nat [of "nat i"] s by simp
  with False assms s digit_char_not_sign [OF c] show ?thesis
    by (simp add: parse_i64_def show_int_def)
qed

lemma show_int_chars: "c \<in> set (show_int i) \<Longrightarrow> c = CHR ''-'' \<or> is_ascii_digit c"
  by (auto simp: show_int_def dest: show_nat_digits split: if_splits)

section \<open>Machine integers\<close>

text \<open>
  An \<^verbatim>\<open>i64\<close> is an \<open>int\<close> in range. A release build wraps around on overflow, which \<open>wrap64\<close>
  writes out; \<open>sat64\<close> is the clamp of the \<^verbatim>\<open>saturating_\<close> operations.
\<close>

definition in_i64 :: "int \<Rightarrow> bool" where
  "in_i64 x \<longleftrightarrow> - (2 ^ 63) \<le> x \<and> x < 2 ^ 63"

definition wrap64 :: "int \<Rightarrow> int" where
  "wrap64 x = (x + 2 ^ 63) mod 2 ^ 64 - 2 ^ 63"

definition sat64 :: "int \<Rightarrow> int" where
  "sat64 x = max (- (2 ^ 63)) (min (2 ^ 63 - 1) x)"

definition i64_max :: int where
  "i64_max = 2 ^ 63 - 1"

definition u64_max :: nat where
  "u64_max = 2 ^ 64 - 1"

lemma wrap64_id [simp]: "in_i64 x \<Longrightarrow> wrap64 x = x"
  by (simp add: wrap64_def in_i64_def)

lemma in_i64_wrap64 [simp]: "in_i64 (wrap64 x)"
proof -
  have "0 \<le> (x + 2 ^ 63) mod 2 ^ 64" and "(x + 2 ^ 63) mod 2 ^ 64 < (2 ^ 64 :: int)"
    by simp_all
  then show ?thesis by (simp add: wrap64_def in_i64_def)
qed

lemma in_i64_sat64 [simp]: "in_i64 (sat64 x)"
  by (simp add: sat64_def in_i64_def)

section \<open>Dictionaries\<close>

text \<open>
  A \<^verbatim>\<open>HashMap\<close>, a directory or a section configuration that the code iterates over is an
  association list with distinct keys, in iteration order. Inserting an existing key replaces its
  value in place, a new key is appended.
\<close>

type_synonym ('k, 'v) alist = "('k \<times> 'v) list"

abbreviation al_get :: "('k, 'v) alist \<Rightarrow> 'k \<Rightarrow> 'v option" where
  "al_get \<equiv> map_of"

fun al_put :: "'k \<Rightarrow> 'v \<Rightarrow> ('k, 'v) alist \<Rightarrow> ('k, 'v) alist" where
  "al_put k v [] = [(k, v)]"
| "al_put k v ((k', v') # xs) = (if k' = k then (k, v) # xs else (k', v') # al_put k v xs)"

definition al_del :: "'k \<Rightarrow> ('k, 'v) alist \<Rightarrow> ('k, 'v) alist" where
  "al_del k xs = filter (\<lambda>(k', _). k' \<noteq> k) xs"

definition al_keys_distinct :: "('k, 'v) alist \<Rightarrow> bool" where
  "al_keys_distinct xs \<longleftrightarrow> distinct (map fst xs)"

text \<open>What the clients of a dictionary rely on.\<close>

locale dictionary =
  fixes get :: "'d \<Rightarrow> 'k \<Rightarrow> 'v option"
    and put :: "'k \<Rightarrow> 'v \<Rightarrow> 'd \<Rightarrow> 'd"
    and del :: "'k \<Rightarrow> 'd \<Rightarrow> 'd"
    and items :: "'d \<Rightarrow> ('k \<times> 'v) list"
    and ok :: "'d \<Rightarrow> bool"
  assumes get_put: "get (put k v d) = (get d)(k \<mapsto> v)"
    and get_del: "get (del k d) = (get d)(k := None)"
    and items_get: "ok d \<Longrightarrow> (k, v) \<in> set (items d) \<longleftrightarrow> get d k = Some v"
    and ok_put: "ok d \<Longrightarrow> ok (put k v d)"
    and ok_del: "ok d \<Longrightarrow> ok (del k d)"
begin

lemma get_put_same [simp]: "get (put k v d) k = Some v"
  by (simp add: get_put)

lemma get_put_other: "k' \<noteq> k \<Longrightarrow> get (put k v d) k' = get d k'"
  by (simp add: get_put)

lemma get_del_same [simp]: "get (del k d) k = None"
  by (simp add: get_del)

lemma items_put:
  "ok d \<Longrightarrow> set (items (put k v d)) = insert (k, v) {(k', v') \<in> set (items d). k' \<noteq> k}"
  by (auto simp: items_get ok_put get_put split: if_splits)

lemma items_del: "ok d \<Longrightarrow> set (items (del k d)) = {(k', v') \<in> set (items d). k' \<noteq> k}"
  by (auto simp: items_get ok_del get_del split: if_splits)

lemma ok_fold_put: "ok d \<Longrightarrow> ok (fold (\<lambda>x. put (f x) (g x)) xs d)"
  by (induction xs arbitrary: d) (auto intro: ok_put)

lemma get_fold_put_notin:
  "k \<notin> f ` set xs \<Longrightarrow> get (fold (\<lambda>x. put (f x) (g x)) xs d) k = get d k"
  by (induction xs arbitrary: d) (auto simp: get_put)

text \<open>After a sequence of insertions the last value of a key wins.\<close>

lemma get_fold_put_in:
  "k \<in> f ` set xs \<Longrightarrow> \<exists>x \<in> set xs. f x = k \<and> get (fold (\<lambda>x. put (f x) (g x)) xs d) k = Some (g x)"
proof (induction xs arbitrary: d)
  case Nil
  then show ?case by simp
next
  case (Cons a xs)
  show ?case
  proof (cases "k \<in> f ` set xs")
    case True
    with Cons.IH show ?thesis by fastforce
  next
    case False
    with Cons.prems have "f a = k" by auto
    with False show ?thesis by (auto simp: get_fold_put_notin)
  qed
qed

end

lemma al_get_put: "al_get (al_put k v xs) = (al_get xs)(k \<mapsto> v)"
  by (induction k v xs rule: al_put.induct) (auto simp: fun_eq_iff)

lemma al_get_del: "al_get (al_del k xs) = (al_get xs)(k := None)"
  by (induction xs) (auto simp: al_del_def fun_eq_iff)

lemma al_put_keys: "fst ` set (al_put k v xs) = insert k (fst ` set xs)"
  by (induction k v xs rule: al_put.induct) auto

lemma al_keys_distinct_put: "al_keys_distinct xs \<Longrightarrow> al_keys_distinct (al_put k v xs)"
proof (induction k v xs rule: al_put.induct)
  case (1 k v)
  then show ?case by (simp add: al_keys_distinct_def)
next
  case (2 k v k' v' xs)
  have "k' \<in> fst ` set (al_put k v xs) \<longleftrightarrow> k' = k \<or> k' \<in> fst ` set xs"
    by (simp add: al_put_keys)
  with 2 show ?case by (auto simp: al_keys_distinct_def)
qed

lemma al_keys_distinct_filter: "al_keys_distinct xs \<Longrightarrow> al_keys_distinct (filter P xs)"
  by (simp add: al_keys_distinct_def distinct_map_filter)

interpretation al: dictionary al_get al_put al_del "\<lambda>xs. xs" al_keys_distinct
proof unfold_locales
  show "\<And>k v d. al_get (al_put k v d) = (al_get d)(k \<mapsto> v)" by (rule al_get_put)
  show "\<And>k d. al_get (al_del k d) = (al_get d)(k := None)" by (rule al_get_del)
  show "\<And>d k v. al_keys_distinct d \<Longrightarrow> ((k, v) \<in> set d) = (al_get d k = Some v)"
    by (auto simp: al_keys_distinct_def map_of_eq_Some_iff)
  show "\<And>d k v. al_keys_distinct d \<Longrightarrow> al_keys_distinct (al_put k v d)"
    by (rule al_keys_distinct_put)
  show "\<And>d k. al_keys_distinct d \<Longrightarrow> al_keys_distinct (al_del k d)"
    by (simp add: al_del_def al_keys_distinct_filter)
qed

section \<open>Fallible code with effects\<close>

type_synonym ('e, 's, 'a) io = "'s \<Rightarrow> ('e + 'a) \<times> 's"

definition io_return :: "'a \<Rightarrow> ('e, 's, 'a) io" where
  "io_return x s = (Inr x, s)"

definition io_fail :: "'e \<Rightarrow> ('e, 's, 'a) io" where
  "io_fail e s = (Inl e, s)"

text \<open>\<open>io_bind\<close> is sequencing with Rust's question-mark operator: the first error ends the function
  and the effects made so far stay.\<close>

definition io_bind :: "('e, 's, 'a) io \<Rightarrow> ('a \<Rightarrow> ('e, 's, 'b) io) \<Rightarrow> ('e, 's, 'b) io" where
  "io_bind m f s = (case m s of (Inl e, s') \<Rightarrow> (Inl e, s') | (Inr x, s') \<Rightarrow> f x s')"

definition io_get :: "('e, 's, 's) io" where
  "io_get s = (Inr s, s)"

definition io_modify :: "('s \<Rightarrow> 's) \<Rightarrow> ('e, 's, unit) io" where
  "io_modify f s = (Inr (), f s)"

text \<open>\<open>io_try\<close> hands the result to the caller instead of propagating the error.\<close>

definition io_try :: "('e, 's, 'a) io \<Rightarrow> ('e, 's, 'e + 'a) io" where
  "io_try m s = (case m s of (r, s') \<Rightarrow> (Inr r, s'))"

primrec io_fold :: "('x \<Rightarrow> 'b \<Rightarrow> ('e, 's, 'b) io) \<Rightarrow> 'x list \<Rightarrow> 'b \<Rightarrow> ('e, 's, 'b) io" where
  "io_fold f [] b = io_return b"
| "io_fold f (x # xs) b = io_bind (f x b) (io_fold f xs)"

definition io_for :: "('x \<Rightarrow> ('e, 's, unit) io) \<Rightarrow> 'x list \<Rightarrow> ('e, 's, unit) io" where
  "io_for f xs = io_fold (\<lambda>x _. f x) xs ()"

text \<open>An invariant of effectful code holds after it ran, whether it succeeded or failed.\<close>

definition io_inv :: "('s \<Rightarrow> bool) \<Rightarrow> ('e, 's, 'a) io \<Rightarrow> bool" where
  "io_inv I m \<longleftrightarrow> (\<forall>s. I s \<longrightarrow> I (snd (m s)))"

lemma io_invD: "io_inv I m \<Longrightarrow> I s \<Longrightarrow> I (snd (m s))"
  by (simp add: io_inv_def)

lemma io_inv_return [io_inv_intros]: "io_inv I (io_return x)"
  by (simp add: io_inv_def io_return_def)

lemma io_inv_fail [io_inv_intros]: "io_inv I (io_fail e)"
  by (simp add: io_inv_def io_fail_def)

lemma io_inv_get [io_inv_intros]: "io_inv I io_get"
  by (simp add: io_inv_def io_get_def)

lemma io_inv_bind [io_inv_intros]:
  "io_inv I m \<Longrightarrow> (\<And>x. io_inv I (f x)) \<Longrightarrow> io_inv I (io_bind m f)"
  unfolding io_inv_def io_bind_def
  by (fastforce split: prod.splits sum.splits)

lemma io_inv_modify: "(\<And>s. I s \<Longrightarrow> I (f s)) \<Longrightarrow> io_inv I (io_modify f)"
  by (simp add: io_inv_def io_modify_def)

lemma io_inv_try [io_inv_intros]: "io_inv I m \<Longrightarrow> io_inv I (io_try m)"
  unfolding io_inv_def io_try_def by (simp add: case_prod_beta)

lemma io_inv_fold [io_inv_intros]:
  "(\<And>x b. io_inv I (f x b)) \<Longrightarrow> io_inv I (io_fold f xs b)"
  by (induction xs arbitrary: b) (auto intro: io_inv_intros)

lemma io_inv_for [io_inv_intros]: "(\<And>x. io_inv I (f x)) \<Longrightarrow> io_inv I (io_for f xs)"
  by (simp add: io_for_def io_inv_fold)

lemma io_inv_if [io_inv_intros]:
  "(b \<Longrightarrow> io_inv I m) \<Longrightarrow> (\<not> b \<Longrightarrow> io_inv I m') \<Longrightarrow> io_inv I (if b then m else m')"
  by simp

lemma io_inv_case_option [io_inv_intros]:
  "(x = None \<Longrightarrow> io_inv I m) \<Longrightarrow> (\<And>y. x = Some y \<Longrightarrow> io_inv I (f y)) \<Longrightarrow>
   io_inv I (case x of None \<Rightarrow> m | Some y \<Rightarrow> f y)"
  by (cases x) simp_all

lemma io_inv_case_sum [io_inv_intros]:
  "(\<And>e. x = Inl e \<Longrightarrow> io_inv I (f e)) \<Longrightarrow> (\<And>y. x = Inr y \<Longrightarrow> io_inv I (g y)) \<Longrightarrow>
   io_inv I (case x of Inl e \<Rightarrow> f e | Inr y \<Rightarrow> g y)"
  by (cases x) simp_all

lemma io_inv_case_prod [io_inv_intros]:
  "(\<And>a b. x = (a, b) \<Longrightarrow> io_inv I (f a b)) \<Longrightarrow> io_inv I (case x of (a, b) \<Rightarrow> f a b)"
  by (cases x) simp

lemma io_return_simp [io_simps]: "io_return x s = (Inr x, s)"
  by (simp add: io_return_def)

lemma io_fail_simp [io_simps]: "io_fail e s = (Inl e, s)"
  by (simp add: io_fail_def)

lemma io_get_simp [io_simps]: "io_get s = (Inr s, s)"
  by (simp add: io_get_def)

lemma io_modify_simp [io_simps]: "io_modify f s = (Inr (), f s)"
  by (simp add: io_modify_def)

lemma io_bind_Inr [io_simps]: "m s = (Inr x, s') \<Longrightarrow> io_bind m f s = f x s'"
  by (simp add: io_bind_def)

lemma io_bind_Inl [io_simps]: "m s = (Inl e, s') \<Longrightarrow> io_bind m f s = (Inl e, s')"
  by (simp add: io_bind_def)

lemma io_bind_eq_Inr:
  "io_bind m f s = (Inr y, s') \<longleftrightarrow> (\<exists>x s1. m s = (Inr x, s1) \<and> f x s1 = (Inr y, s'))"
  by (auto simp: io_bind_def split: prod.splits sum.splits)

text \<open>
  Hoare triples: started in a state that satisfies \<open>P\<close>, the code ends with a result and a state
  that satisfy \<open>Q\<close>, or with an error and a state that satisfies \<open>E\<close>.
\<close>

definition io_triple ::
  "('s \<Rightarrow> bool) \<Rightarrow> ('e, 's, 'a) io \<Rightarrow> ('a \<Rightarrow> 's \<Rightarrow> bool) \<Rightarrow> ('s \<Rightarrow> bool) \<Rightarrow> bool" where
  "io_triple P m Q E \<longleftrightarrow>
     (\<forall>s. P s \<longrightarrow> (case m s of (Inr x, s') \<Rightarrow> Q x s' | (Inl _, s') \<Rightarrow> E s'))"

lemma io_tripleI:
  "(\<And>s x s'. P s \<Longrightarrow> m s = (Inr x, s') \<Longrightarrow> Q x s') \<Longrightarrow>
   (\<And>s e s'. P s \<Longrightarrow> m s = (Inl e, s') \<Longrightarrow> E s') \<Longrightarrow> io_triple P m Q E"
  unfolding io_triple_def by (auto split: prod.splits sum.splits)

lemma io_triple_InrD: "io_triple P m Q E \<Longrightarrow> P s \<Longrightarrow> m s = (Inr x, s') \<Longrightarrow> Q x s'"
  unfolding io_triple_def by fastforce

lemma io_triple_InlD: "io_triple P m Q E \<Longrightarrow> P s \<Longrightarrow> m s = (Inl e, s') \<Longrightarrow> E s'"
  unfolding io_triple_def by fastforce

lemma io_triple_sndD: "io_triple P m (\<lambda>_. Q) Q \<Longrightarrow> P s \<Longrightarrow> Q (snd (m s))"
  by (cases "m s"; cases "fst (m s)") (auto simp: io_triple_def split: prod.splits sum.splits)

lemma io_triple_sndI: "(\<And>s. P s \<Longrightarrow> Q (snd (m s))) \<Longrightarrow> io_triple P m (\<lambda>_. Q) Q"
  by (rule io_tripleI) (metis snd_conv)+

lemma io_triple_bind:
  assumes "io_triple P m R E" and "\<And>x. io_triple (R x) (f x) Q E"
  shows "io_triple P (io_bind m f) Q E"
proof (rule io_tripleI)
  fix s x s' assume "P s" and "io_bind m f s = (Inr x, s')"
  then show "Q x s'"
    using assms unfolding io_bind_eq_Inr by (meson io_triple_InrD)
next
  fix s e s' assume P: "P s" and run: "io_bind m f s = (Inl e, s')"
  show "E s'"
  proof (cases "m s")
    case (Pair r s1)
    with P run assms show ?thesis
      by (cases r) (auto simp: io_bind_def dest: io_triple_InlD io_triple_InrD)
  qed
qed

lemma io_triple_return: "(\<And>s. P s \<Longrightarrow> Q x s) \<Longrightarrow> io_triple P (io_return x) Q E"
  by (simp add: io_triple_def io_return_def)

lemma io_triple_fail: "(\<And>s. P s \<Longrightarrow> E s) \<Longrightarrow> io_triple P (io_fail e) Q E"
  by (simp add: io_triple_def io_fail_def)

lemma io_triple_conseq:
  assumes "io_triple P m Q E" and "\<And>s. P' s \<Longrightarrow> P s" and "\<And>x s. Q x s \<Longrightarrow> Q' x s"
    and "\<And>s. E s \<Longrightarrow> E' s"
  shows "io_triple P' m Q' E'"
  using assms unfolding io_triple_def by (fastforce split: prod.splits sum.splits)

lemma io_triple_pure: "(p \<Longrightarrow> io_triple P m Q E) \<Longrightarrow> io_triple (\<lambda>s. p \<and> P s) m Q E"
  unfolding io_triple_def by simp

lemma io_triple_ex: "(\<And>y. io_triple (P y) m Q E) \<Longrightarrow> io_triple (\<lambda>s. \<exists>y. P y s) m Q E"
  by (rule io_tripleI) (blast dest: io_triple_InrD io_triple_InlD)+

lemma io_triple_try:
  "io_triple P m Q E \<Longrightarrow>
   io_triple P (io_try m) (\<lambda>r s. case r of Inr x \<Rightarrow> Q x s | Inl _ \<Rightarrow> E s) E'"
  unfolding io_triple_def io_try_def by (fastforce split: prod.splits sum.splits)

lemma io_triple_conj:
  "io_triple P m Q E \<Longrightarrow> io_triple P' m Q' E' \<Longrightarrow>
   io_triple (\<lambda>s. P s \<and> P' s) m (\<lambda>x s. Q x s \<and> Q' x s) (\<lambda>s. E s \<and> E' s)"
  unfolding io_triple_def by (fastforce split: prod.splits sum.splits)

lemma io_triple_fold:
  assumes "\<And>x b. x \<in> set xs \<Longrightarrow> I b \<Longrightarrow> io_triple P (f x b) (\<lambda>b' s. I b' \<and> P s) E"
  shows "I b \<Longrightarrow> io_triple P (io_fold f xs b) (\<lambda>b' s. I b' \<and> P s) E"
  using assms
proof (induction xs arbitrary: b)
  case Nil
  then show ?case by (auto intro: io_triple_return)
next
  case (Cons x xs)
  show ?case
    unfolding io_fold.simps
    by (rule io_triple_bind [OF Cons.prems(2)]) (auto intro!: Cons io_triple_pure)
qed

lemma io_triple_if:
  "(b \<Longrightarrow> io_triple P m Q E) \<Longrightarrow> (\<not> b \<Longrightarrow> io_triple P m' Q E) \<Longrightarrow>
   io_triple P (if b then m else m') Q E"
  by simp

lemma io_triple_case_option:
  "(x = None \<Longrightarrow> io_triple P m Q E) \<Longrightarrow> (\<And>y. x = Some y \<Longrightarrow> io_triple P (f y) Q E) \<Longrightarrow>
   io_triple P (case x of None \<Rightarrow> m | Some y \<Rightarrow> f y) Q E"
  by (cases x) simp_all

text \<open>A triple whose postconditions do not mention the result is an invariant.\<close>

lemma io_inv_triple: "io_inv I m \<longleftrightarrow> io_triple I m (\<lambda>_. I) I"
  unfolding io_inv_def io_triple_def
  by (auto split: prod.splits sum.splits) (metis snd_conv sum.exhaust surj_pair)+

end
