(* ===== verification/RemoteUpid.thy ===== *)
theory RemoteUpid
  imports Prelude
begin

text \<open>
  Remote task identifiers, from \<^verbatim>\<open>lib/pdm-api-types/src/remote_upid.rs\<close> and the remote types of
  \<^verbatim>\<open>lib/pdm-api-types/src/remotes.rs\<close>.

  A remote UPID names a task on one remote: the remote, its type and the native UPID text. The
  native UPID parsers of the crates \<^verbatim>\<open>pve_api_types\<close> and \<^verbatim>\<open>pbs_api_types\<close> and the matcher of
  \<^verbatim>\<open>SAFE_ID_REGEX\<close> are parameters, bundled in \<open>upid_env\<close>; of a parsed UPID only the node name is
  read by this code.
\<close>

datatype RemoteType = Pve | Pbs

record remote_upid =
  ru_remote :: str
  ru_type :: RemoteType
  ru_upid :: str

record pve_upid =
  pve_node :: str

record pbs_upid =
  pbs_node :: str

datatype NativeUpid = PveUpid pve_upid | PbsUpid pbs_upid

record upid_env =
  env_safe_id :: "str \<Rightarrow> bool"
  env_parse_pve :: "str \<Rightarrow> pve_upid option"
  env_parse_pbs :: "str \<Rightarrow> pbs_upid option"

datatype upid_error =
    MissingSeparator
  | BadRemoteId
  | InvalidUpid str
  | UnknownRemoteType str
  | NativeParseError str
  | GotPbsUpid
  | GotPveUpid

text \<open>The lower-case names of the remote types, as serde writes and reads them.\<close>

definition show_remote_type :: "RemoteType \<Rightarrow> str" where
  "show_remote_type ty = (case ty of Pve \<Rightarrow> ''pve'' | Pbs \<Rightarrow> ''pbs'')"

definition parse_remote_type :: "str \<Rightarrow> upid_error + RemoteType" where
  "parse_remote_type s =
     (if s = ''pve'' then Inr Pve else if s = ''pbs'' then Inr Pbs else Inl (UnknownRemoteType s))"

definition default_port :: "RemoteType \<Rightarrow> nat" where
  "default_port ty = (case ty of Pve \<Rightarrow> 8006 | Pbs \<Rightarrow> 8007)"

definition native_node :: "NativeUpid \<Rightarrow> str" where
  "native_node n = (case n of PveUpid u \<Rightarrow> pve_node u | PbsUpid u \<Rightarrow> pbs_node u)"

definition remote_upid_new :: "str \<Rightarrow> RemoteType \<Rightarrow> str \<Rightarrow> remote_upid" where
  "remote_upid_new remote ty upid = \<lparr>ru_remote = remote, ru_type = ty, ru_upid = upid\<rparr>"

definition native_upid :: "upid_env \<Rightarrow> remote_upid \<Rightarrow> upid_error + NativeUpid" where
  "native_upid E u =
     (case ru_type u of
        Pve \<Rightarrow> (case env_parse_pve E (ru_upid u) of
                  None \<Rightarrow> Inl (NativeParseError (ru_upid u)) | Some p \<Rightarrow> Inr (PveUpid p))
      | Pbs \<Rightarrow> (case env_parse_pbs E (ru_upid u) of
                  None \<Rightarrow> Inl (NativeParseError (ru_upid u)) | Some p \<Rightarrow> Inr (PbsUpid p)))"

definition get_pve_upid :: "upid_env \<Rightarrow> remote_upid \<Rightarrow> upid_error + pve_upid" where
  "get_pve_upid E u =
     (case native_upid E u of
        Inl e \<Rightarrow> Inl e | Inr (PveUpid p) \<Rightarrow> Inr p | Inr (PbsUpid _) \<Rightarrow> Inl GotPbsUpid)"

definition get_pbs_upid :: "upid_env \<Rightarrow> remote_upid \<Rightarrow> upid_error + pbs_upid" where
  "get_pbs_upid E u =
     (case native_upid E u of
        Inl e \<Rightarrow> Inl e | Inr (PveUpid _) \<Rightarrow> Inl GotPveUpid | Inr (PbsUpid p) \<Rightarrow> Inr p)"

definition deduce_type :: "upid_env \<Rightarrow> str \<Rightarrow> upid_error + RemoteType" where
  "deduce_type E raw =
     (if env_parse_pve E raw \<noteq> None then Inr Pve
      else if env_parse_pbs E raw \<noteq> None then Inr Pbs
      else Inl (InvalidUpid raw))"

definition try_from_pair :: "upid_env \<Rightarrow> str \<Rightarrow> str \<Rightarrow> upid_error + remote_upid" where
  "try_from_pair E remote upid =
     (if \<not> env_safe_id E remote then Inl BadRemoteId
      else case deduce_type E upid of
             Inl e \<Rightarrow> Inl e
           | Inr ty \<Rightarrow> Inr (remote_upid_new remote ty upid))"

definition try_from_triple :: "upid_env \<Rightarrow> str \<Rightarrow> str \<Rightarrow> str \<Rightarrow> upid_error + remote_upid" where
  "try_from_triple E ty remote upid =
     (if \<not> env_safe_id E remote then Inl BadRemoteId
      else case parse_remote_type ty of
             Inl e \<Rightarrow> Inl e
           | Inr ty' \<Rightarrow> Inr (remote_upid_new remote ty' upid))"

definition upid_from_str :: "upid_env \<Rightarrow> str \<Rightarrow> upid_error + remote_upid" where
  "upid_from_str E s =
     (case split_once CHR ''!'' s of
        None \<Rightarrow> Inl MissingSeparator
      | Some (remote_and_type, upid) \<Rightarrow>
          (case split_once CHR '':'' remote_and_type of
             Some (ty, remote) \<Rightarrow> try_from_triple E ty remote upid
           | None \<Rightarrow> try_from_pair E remote_and_type upid))"

definition show_upid :: "remote_upid \<Rightarrow> str" where
  "show_upid u =
     show_remote_type (ru_type u) @ CHR '':'' # ru_remote u @ CHR ''!'' # ru_upid u"

subsection \<open>Printing and parsing\<close>

lemma parse_show_remote_type [simp]: "parse_remote_type (show_remote_type ty) = Inr ty"
  by (cases ty) (simp_all add: parse_remote_type_def show_remote_type_def)

lemma show_remote_type_chars:
  "CHR ''!'' \<notin> set (show_remote_type ty)" "CHR '':'' \<notin> set (show_remote_type ty)"
  by (cases ty; simp add: show_remote_type_def)+

lemma safe_remote_chars:
  assumes "safe_id_spec (env_safe_id E)" and "env_safe_id E r"
  shows "CHR ''!'' \<notin> set r" and "CHR '':'' \<notin> set r"
  using safe_id_chars [OF assms] not_safe_id_chars by blast+

lemma split_show_upid:
  assumes "CHR ''!'' \<notin> set (ru_remote u)" and "CHR '':'' \<notin> set (ru_remote u)"
  shows "split_once CHR ''!'' (show_upid u) =
           Some (show_remote_type (ru_type u) @ CHR '':'' # ru_remote u, ru_upid u)"
    and "split_once CHR '':'' (show_remote_type (ru_type u) @ CHR '':'' # ru_remote u) =
           Some (show_remote_type (ru_type u), ru_remote u)"
proof -
  have "show_upid u =
      (show_remote_type (ru_type u) @ CHR '':'' # ru_remote u) @ CHR ''!'' # ru_upid u"
    by (simp add: show_upid_def)
  then show "split_once CHR ''!'' (show_upid u) =
           Some (show_remote_type (ru_type u) @ CHR '':'' # ru_remote u, ru_upid u)"
    using assms(1) show_remote_type_chars by (simp only: split_once_Some) simp
  show "split_once CHR '':'' (show_remote_type (ru_type u) @ CHR '':'' # ru_remote u) =
           Some (show_remote_type (ru_type u), ru_remote u)"
    by (rule split_once_append) (rule show_remote_type_chars)
qed

text \<open>Two remote UPIDs with safe remote names print alike only if they are equal.\<close>

lemma show_upid_inj:
  assumes "CHR ''!'' \<notin> set (ru_remote u)" "CHR '':'' \<notin> set (ru_remote u)"
    and "CHR ''!'' \<notin> set (ru_remote v)" "CHR '':'' \<notin> set (ru_remote v)"
    and "show_upid u = show_upid v"
  shows "u = v"
proof -
  have "Some (show_remote_type (ru_type u) @ CHR '':'' # ru_remote u, ru_upid u) =
        Some (show_remote_type (ru_type v) @ CHR '':'' # ru_remote v, ru_upid v)"
    by (simp only: split_show_upid(1) [OF assms(1,2), symmetric]
        split_show_upid(1) [OF assms(3,4), symmetric] assms(5))
  then have rt: "show_remote_type (ru_type u) @ CHR '':'' # ru_remote u =
        show_remote_type (ru_type v) @ CHR '':'' # ru_remote v"
    and upid: "ru_upid u = ru_upid v"
    by simp_all
  have "Some (show_remote_type (ru_type u), ru_remote u) =
        Some (show_remote_type (ru_type v), ru_remote v)"
    by (simp only: split_show_upid(2) [OF assms(1,2), symmetric]
        split_show_upid(2) [OF assms(3,4), symmetric] rt)
  then have ty: "show_remote_type (ru_type u) = show_remote_type (ru_type v)"
    and remote: "ru_remote u = ru_remote v"
    by simp_all
  from ty have "ru_type u = ru_type v"
    by (cases "ru_type u"; cases "ru_type v") (simp_all add: show_remote_type_def)
  with upid remote show ?thesis by simp
qed

text \<open>
  C21. Printing a remote UPID whose remote name is a safe identifier and parsing the text gives
  the same remote UPID back, whatever the native UPID text is; no native parser is consulted.
\<close>

theorem upid_print_parse:
  assumes "safe_id_spec (env_safe_id E)" and "env_safe_id E (ru_remote u)"
  shows "upid_from_str E (show_upid u) = Inr u"
  using split_show_upid [OF safe_remote_chars [OF assms]] assms(2)
  by (simp add: upid_from_str_def try_from_triple_def remote_upid_new_def)

definition ascii_upid_env :: upid_env where
  "ascii_upid_env =
     \<lparr>env_safe_id = ascii_safe_id,
      env_parse_pve = (\<lambda>s. if starts_with ''UPID:pve:'' s then Some \<lparr>pve_node = ''pve''\<rparr> else None),
      env_parse_pbs = (\<lambda>s. if starts_with ''UPID:pbs:'' s then Some \<lparr>pbs_node = ''pbs''\<rparr> else None)\<rparr>"

theorem upid_print_parse_witness:
  "upid_from_str ascii_upid_env
     (show_upid (remote_upid_new ''pve-remote'' Pve ''UPID:pve:0:0:0:stopall::root@pam:'')) =
   Inr (remote_upid_new ''pve-remote'' Pve ''UPID:pve:0:0:0:stopall::root@pam:'')"
proof (rule upid_print_parse)
  show "safe_id_spec (env_safe_id ascii_upid_env)" by (simp add: ascii_upid_env_def)
  show "env_safe_id ascii_upid_env
     (ru_remote (remote_upid_new ''pve-remote'' Pve ''UPID:pve:0:0:0:stopall::root@pam:''))"
    by code_simp
qed

text \<open>
  Whatever text is accepted, the parsed remote name is a safe identifier, and the text is
  either the current format (the printed form of the result) or the older one without the type,
  in which case the native UPID decides the type: it parses as a PVE UPID, or does not and parses
  as a PBS UPID.
\<close>

theorem upid_parse_sound:
  assumes "upid_from_str E s = Inr u"
  shows "env_safe_id E (ru_remote u) \<and>
     (s = show_upid u \<or>
      s = ru_remote u @ CHR ''!'' # ru_upid u \<and>
      (case ru_type u of
         Pve \<Rightarrow> env_parse_pve E (ru_upid u) \<noteq> None
       | Pbs \<Rightarrow> env_parse_pve E (ru_upid u) = None \<and> env_parse_pbs E (ru_upid u) \<noteq> None))"
proof -
  obtain rt upid where s: "split_once CHR ''!'' s = Some (rt, upid)"
    using assms by (auto simp: upid_from_str_def split: option.splits)
  then have s_eq: "s = rt @ CHR ''!'' # upid" by (simp add: split_once_Some)
  show ?thesis
  proof (cases "split_once CHR '':'' rt")
    case None
    with assms s have "try_from_pair E rt upid = Inr u" by (simp add: upid_from_str_def)
    with s_eq show ?thesis
      by (auto simp: try_from_pair_def deduce_type_def remote_upid_new_def split: if_splits)
  next
    case (Some p)
    obtain ty r where p: "p = (ty, r)" by force
    with Some have rt: "rt = ty @ CHR '':'' # r" by (simp add: split_once_Some)
    from assms s Some p have "try_from_triple E ty r upid = Inr u" by (simp add: upid_from_str_def)
    with s_eq rt show ?thesis
      by (auto simp: try_from_triple_def parse_remote_type_def remote_upid_new_def show_upid_def
          show_remote_type_def split: if_splits)
  qed
qed

theorem upid_parse_sound_witness:
  "upid_from_str ascii_upid_env ''pbs-remote!UPID:pbs:1:2:3:4:gc::root@pam:'' =
     Inr (remote_upid_new ''pbs-remote'' Pbs ''UPID:pbs:1:2:3:4:gc::root@pam:'') \<and>
   env_safe_id ascii_upid_env ''pbs-remote''"
proof -
  have parsed: "upid_from_str ascii_upid_env ''pbs-remote!UPID:pbs:1:2:3:4:gc::root@pam:'' =
     Inr (remote_upid_new ''pbs-remote'' Pbs ''UPID:pbs:1:2:3:4:gc::root@pam:'')"
    by code_simp
  from upid_parse_sound [OF parsed] parsed show ?thesis by (simp add: remote_upid_new_def)
qed

end
