(* ===== verification/TaskItems.thy ===== *)
theory TaskItems
  imports RemoteUpid
begin

text \<open>
  The data of the remote task cache, from \<^verbatim>\<open>server/src/remote_tasks/task_cache.rs\<close>: cached tasks
  and their order, the polling state with its per-node cutoff timestamps, the map of nodes that
  were fetched successfully, and the iterator that merges two sorted task sequences.
\<close>

section \<open>Tasks and their order\<close>

record task_item =
  ti_upid :: remote_upid
  ti_starttime :: int
  ti_status :: "str option"
  ti_endtime :: "int option"

definition compare_tasks :: "task_item \<Rightarrow> task_item \<Rightarrow> ordering" where
  "compare_tasks a b =
     then_with (cmp_of (ti_starttime a) (ti_starttime b))
       (cmp_of (show_upid (ti_upid b)) (show_upid (ti_upid a)))"

definition compare_tasks_reverse :: "task_item \<Rightarrow> task_item \<Rightarrow> ordering" where
  "compare_tasks_reverse a b = compare_tasks b a"

text \<open>The order as a key: newest task first, tasks that started together by their UPID text.\<close>

definition task_key :: "task_item \<Rightarrow> int \<times> str" where
  "task_key t = (- ti_starttime t, show_upid (ti_upid t))"

lemma compare_tasks_reverse_key: "compare_tasks_reverse a b = cmp_of (task_key a) (task_key b)"
  by (simp add: compare_tasks_reverse_def compare_tasks_def task_key_def cmp_of_pair)
    (simp add: cmp_of_def)

lemma compare_tasks_key: "compare_tasks a b = cmp_of (task_key b) (task_key a)"
  using compare_tasks_reverse_key [of b a] by (simp add: compare_tasks_reverse_def)

interpretation newest_first: keyed_order compare_tasks_reverse task_key
  by unfold_locales (rule compare_tasks_reverse_key)

definition sorted_tasks :: "task_item list \<Rightarrow> bool" where
  "sorted_tasks ts \<longleftrightarrow> sorted (map task_key ts)"

definition strict_tasks :: "task_item list \<Rightarrow> bool" where
  "strict_tasks ts \<longleftrightarrow> sorted_wrt (<) (map task_key ts)"

lemma sorted_tasks_simps [simp]:
  "sorted_tasks []"
  "sorted_tasks (t # ts) \<longleftrightarrow> (\<forall>u \<in> set ts. task_key t \<le> task_key u) \<and> sorted_tasks ts"
  by (simp_all add: sorted_tasks_def)

lemma strict_tasks_simps [simp]:
  "strict_tasks []"
  "strict_tasks (t # ts) \<longleftrightarrow> (\<forall>u \<in> set ts. task_key t < task_key u) \<and> strict_tasks ts"
  by (simp_all add: strict_tasks_def)

lemma strict_tasks_sorted: "strict_tasks ts \<Longrightarrow> sorted_tasks ts"
  by (induction ts) auto

lemma strict_tasks_distinct: "strict_tasks ts \<Longrightarrow> distinct (map task_key ts)"
  by (induction ts) auto

lemma sorted_tasks_append:
  "sorted_tasks (xs @ ys) \<longleftrightarrow>
     sorted_tasks xs \<and> sorted_tasks ys \<and>
     (\<forall>x \<in> set xs. \<forall>y \<in> set ys. task_key x \<le> task_key y)"
  by (auto simp: sorted_tasks_def sorted_append)

lemma sorted_tasks_start:
  "sorted_tasks (t # ts) \<Longrightarrow> u \<in> set ts \<Longrightarrow> ti_starttime u \<le> ti_starttime t"
  by (auto simp: task_key_def)

lemma sorted_sort_tasks: "sorted_tasks (sort_by compare_tasks_reverse ts)"
  by (simp add: sorted_tasks_def newest_first.sorted_sort_by)

lemma sorted_dedup_tasks: "sorted_tasks ts \<Longrightarrow> sorted_tasks (dedup_by same ts)"
  by (simp add: sorted_tasks_def newest_first.sorted_dedup_by)

section \<open>Merging two task sequences\<close>

text \<open>
  \<^verbatim>\<open>MergeTaskIterator\<close>: \<open>merge_order\<close> is the order found by peeking at both sides, \<open>merge_next\<close>
  one call of \<^verbatim>\<open>next\<close>, and \<open>merge_tasks\<close> the sequence the iterator yields until it is exhausted.
\<close>

definition merge_order :: "task_item list \<Rightarrow> task_item list \<Rightarrow> ordering option" where
  "merge_order left right =
     (case (left, right) of
        (l # _, r # _) \<Rightarrow> Some (compare_tasks l r)
      | (_ # _, []) \<Rightarrow> Some Greater
      | ([], _ # _) \<Rightarrow> Some Less
      | ([], []) \<Rightarrow> None)"

definition merge_next ::
  "task_item list \<Rightarrow> task_item list \<Rightarrow> (task_item \<times> task_item list \<times> task_item list) option" where
  "merge_next left right =
     (case merge_order left right of
        Some Greater \<Rightarrow> Some (hd left, tl left, right)
      | Some Less \<Rightarrow> Some (hd right, left, tl right)
      | Some Equal \<Rightarrow> Some (hd left, tl left, tl right)
      | None \<Rightarrow> None)"

lemma merge_next_shrinks:
  "merge_next l r = Some (x, l', r') \<Longrightarrow> length l' + length r' < length l + length r"
  by (cases l; cases r) (auto simp: merge_next_def merge_order_def split: ordering.splits)

function merge_tasks :: "task_item list \<Rightarrow> task_item list \<Rightarrow> task_item list" where
  "merge_tasks l r =
     (case merge_next l r of None \<Rightarrow> [] | Some (x, l', r') \<Rightarrow> x # merge_tasks l' r')"
  by pat_completeness auto
termination
  by (relation "measure (\<lambda>(l, r). length l + length r)") (auto dest: merge_next_shrinks)

declare merge_tasks.simps [simp del]

lemma merge_tasks_Nil_left [simp]: "merge_tasks [] r = r"
proof (induction r)
  case Nil
  then show ?case by (simp add: merge_tasks.simps merge_next_def merge_order_def)
next
  case (Cons y ys)
  then show ?case by (simp add: merge_tasks.simps [of _ "y # ys"] merge_next_def merge_order_def)
qed

lemma merge_tasks_Nil_right [simp]: "merge_tasks l [] = l"
proof (induction l)
  case Nil
  then show ?case by simp
next
  case (Cons x xs)
  then show ?case by (simp add: merge_tasks.simps [of "x # xs"] merge_next_def merge_order_def)
qed

lemma merge_tasks_Cons [simp]:
  "merge_tasks (x # xs) (y # ys) =
     (if task_key x < task_key y then x # merge_tasks xs (y # ys)
      else if task_key x = task_key y then x # merge_tasks xs ys
      else y # merge_tasks (x # xs) ys)"
  by (subst merge_tasks.simps)
    (auto simp: merge_next_def merge_order_def compare_tasks_key split: ordering.splits)

lemma merge_tasks_induct [case_names left right both]:
  assumes "\<And>r. P [] r" and "\<And>l. P l []"
    and "\<And>x xs y ys. P xs (y # ys) \<Longrightarrow> P xs ys \<Longrightarrow> P (x # xs) ys \<Longrightarrow> P (x # xs) (y # ys)"
  shows "P l r"
proof (induction "length l + length r" arbitrary: l r rule: less_induct)
  case less
  show ?case
  proof (cases l)
    case Nil
    then show ?thesis by (simp add: assms(1))
  next
    case lcons: (Cons x xs)
    show ?thesis
    proof (cases r)
      case Nil
      then show ?thesis by (simp add: assms(2))
    next
      case (Cons y ys)
      with lcons less show ?thesis by (simp add: assms(3))
    qed
  qed
qed

text \<open>Every task of the left sequence is kept; a task of the right one is dropped only in favour
  of a left task with the same start time and UPID text.\<close>

lemma set_merge_left: "set l \<subseteq> set (merge_tasks l r)"
  by (induction l r rule: merge_tasks_induct) auto

lemma set_merge_subset: "set (merge_tasks l r) \<subseteq> set l \<union> set r"
  by (induction l r rule: merge_tasks_induct) auto

lemma keys_merge_tasks:
  "task_key ` set (merge_tasks l r) = task_key ` set l \<union> task_key ` set r"
  by (induction l r rule: merge_tasks_induct) auto

lemma merge_tasks_right:
  "y \<in> set r \<Longrightarrow> y \<in> set (merge_tasks l r) \<or> (\<exists>x \<in> set l. task_key x = task_key y)"
  by (induction l r rule: merge_tasks_induct) auto

lemma sorted_merge_tasks:
  "sorted_tasks l \<Longrightarrow> sorted_tasks r \<Longrightarrow> sorted_tasks (merge_tasks l r)"
proof (induction l r rule: merge_tasks_induct)
  case (both x xs y ys)
  then show ?case
    using set_merge_subset [of xs "y # ys"] set_merge_subset [of xs ys]
      set_merge_subset [of "x # xs" ys]
    by (fastforce simp: not_less)
qed simp_all

lemma strict_merge_tasks:
  "strict_tasks l \<Longrightarrow> strict_tasks r \<Longrightarrow> strict_tasks (merge_tasks l r)"
proof (induction l r rule: merge_tasks_induct)
  case (both x xs y ys)
  then show ?case
    using set_merge_subset [of xs "y # ys"] set_merge_subset [of xs ys]
      set_merge_subset [of "x # xs" ys]
    by (fastforce simp: not_less)
qed simp_all

text \<open>Merging in tasks whose keys are all present already changes nothing.\<close>

lemma merge_tasks_absorb:
  assumes "strict_tasks l" and "strict_tasks r" and "task_key ` set r \<subseteq> task_key ` set l"
  shows "merge_tasks l r = l"
  using assms
proof (induction l r rule: merge_tasks_induct)
  case (left r)
  then show ?case by simp
next
  case (right l)
  then show ?case by simp
next
  case (both x xs y ys)
  from both.prems have y: "task_key y \<in> task_key ` set (x # xs)" by auto
  have le: "task_key x \<le> task_key y"
    using y both.prems(1) by auto
  have ys: "task_key ` set ys \<subseteq> task_key ` set xs"
  proof
    fix k assume "k \<in> task_key ` set ys"
    then obtain u where u: "u \<in> set ys" "k = task_key u" by auto
    with both.prems(2) le have "task_key x < k" by auto
    with u both.prems(3) show "k \<in> task_key ` set xs" by auto
  qed
  show ?case
  proof (cases "task_key x = task_key y")
    case True
    with both ys show ?thesis by simp
  next
    case False
    with le have less: "task_key x < task_key y" by simp
    with y have "task_key y \<in> task_key ` set xs" by auto
    with less both ys show ?thesis by simp
  qed
qed

section \<open>Polling state\<close>

record node_state =
  ns_cutoff :: int

record remote_state =
  rs_node_state :: "str \<rightharpoonup> node_state"

record task_state =
  st_remote_state :: "str \<rightharpoonup> remote_state"
  st_tracked_tasks :: "remote_upid set"

definition default_state :: task_state where
  "default_state = \<lparr>st_remote_state = Map.empty, st_tracked_tasks = {}\<rparr>"

definition cutoff_timestamp :: "task_state \<Rightarrow> str \<Rightarrow> str \<Rightarrow> int option" where
  "cutoff_timestamp st remote node =
     map_option ns_cutoff
       (Option.bind (st_remote_state st remote) (\<lambda>rs. rs_node_state rs node))"

definition state_add_tracked_task :: "remote_upid \<Rightarrow> task_state \<Rightarrow> task_state" where
  "state_add_tracked_task u st = st\<lparr>st_tracked_tasks := insert u (st_tracked_tasks st)\<rparr>"

definition remove_tracked_task :: "remote_upid \<Rightarrow> task_state \<Rightarrow> task_state" where
  "remove_tracked_task u st = st\<lparr>st_tracked_tasks := st_tracked_tasks st - {u}\<rparr>"

definition update_cutoff_timestamp ::
  "str \<Rightarrow> str \<Rightarrow> (int option \<Rightarrow> int) \<Rightarrow> task_state \<Rightarrow> task_state" where
  "update_cutoff_timestamp remote node f st =
     (case st_remote_state st remote of
        Some rs \<Rightarrow>
          (let ns = (case rs_node_state rs node of
                       Some n \<Rightarrow> n\<lparr>ns_cutoff := f (Some (ns_cutoff n))\<rparr>
                     | None \<Rightarrow> \<lparr>ns_cutoff = f None\<rparr>)
           in st\<lparr>st_remote_state := (st_remote_state st)
                  (remote \<mapsto> rs\<lparr>rs_node_state := (rs_node_state rs)(node \<mapsto> ns)\<rparr>)\<rparr>)
      | None \<Rightarrow>
          st\<lparr>st_remote_state := (st_remote_state st)
               (remote \<mapsto> \<lparr>rs_node_state = [node \<mapsto> \<lparr>ns_cutoff = f None\<rparr>]\<rparr>)\<rparr>)"

lemma cutoff_update_cutoff:
  "cutoff_timestamp (update_cutoff_timestamp r n f st) r' n' =
     (if r' = r \<and> n' = n then Some (f (cutoff_timestamp st r n)) else cutoff_timestamp st r' n')"
  by (auto simp: cutoff_timestamp_def update_cutoff_timestamp_def Let_def
      split: option.splits if_splits)

lemma tracked_update_cutoff [simp]:
  "st_tracked_tasks (update_cutoff_timestamp r n f st) = st_tracked_tasks st"
  by (auto simp: update_cutoff_timestamp_def Let_def split: option.splits)

lemma cutoff_tracked [simp]:
  "cutoff_timestamp (remove_tracked_task u st) = cutoff_timestamp st"
  "cutoff_timestamp (state_add_tracked_task u st) = cutoff_timestamp st"
  by (simp_all add: cutoff_timestamp_def remove_tracked_task_def state_add_tracked_task_def
      fun_eq_iff)

section \<open>Successfully fetched nodes\<close>

type_synonym node_success_map = "(str \<times> str) \<rightharpoonup> bool"

definition set_node_success :: "str \<Rightarrow> str \<Rightarrow> node_success_map \<Rightarrow> node_success_map" where
  "set_node_success remote node m = m((remote, node) \<mapsto> True)"

definition node_successful :: "node_success_map \<Rightarrow> str \<Rightarrow> str \<Rightarrow> bool" where
  "node_successful m remote node \<longleftrightarrow> m (remote, node) = Some True"

definition merge_success :: "node_success_map \<Rightarrow> node_success_map \<Rightarrow> node_success_map" where
  "merge_success m other = m ++ other"

section \<open>Properties\<close>

lemma set_merge_tasks_strict:
  assumes "strict_tasks l" and "strict_tasks r"
  shows "set (merge_tasks l r) = set l \<union> {t \<in> set r. task_key t \<notin> task_key ` set l}"
proof (intro equalityI subsetI)
  fix t assume t: "t \<in> set (merge_tasks l r)"
  have dist: "distinct (map task_key (merge_tasks l r))"
    by (rule strict_tasks_distinct [OF strict_merge_tasks [OF assms]])
  show "t \<in> set l \<union> {t \<in> set r. task_key t \<notin> task_key ` set l}"
  proof (cases "task_key t \<in> task_key ` set l")
    case True
    then obtain u where u: "u \<in> set l" "task_key u = task_key t" by auto
    then have "u \<in> set (merge_tasks l r)" using set_merge_left by blast
    with t u dist have "u = t" by (auto simp: distinct_map inj_on_def)
    with u show ?thesis by simp
  next
    case False
    with t set_merge_subset [of l r] show ?thesis by auto
  qed
next
  fix t assume "t \<in> set l \<union> {t \<in> set r. task_key t \<notin> task_key ` set l}"
  then show "t \<in> set (merge_tasks l r)"
  proof
    assume "t \<in> set l"
    then show ?thesis using set_merge_left by blast
  next
    assume t: "t \<in> {t \<in> set r. task_key t \<notin> task_key ` set l}"
    then have "t \<in> set (merge_tasks l r) \<or> (\<exists>x \<in> set l. task_key x = task_key t)"
      by (intro merge_tasks_right) simp
    with t show ?thesis by (metis (mono_tags) imageI mem_Collect_eq)
  qed
qed

text \<open>
  C20. Merging two task sequences that are strictly sorted (newest first, ties by UPID text) yields
  a strictly sorted sequence, so no task appears twice, which holds all tasks of the left
  sequence and those of the right one that the left one does not have. Merging the right sequence
  in once more changes nothing, so adding the same tasks again is idempotent.
\<close>

theorem merge_iterator_correct:
  assumes "strict_tasks l" and "strict_tasks r"
  shows "strict_tasks (merge_tasks l r) \<and>
         set (merge_tasks l r) = set l \<union> {t \<in> set r. task_key t \<notin> task_key ` set l} \<and>
         merge_tasks (merge_tasks l r) r = merge_tasks l r"
  using assms strict_merge_tasks set_merge_tasks_strict
    merge_tasks_absorb [OF strict_merge_tasks [OF assms] assms(2)] keys_merge_tasks [of l r]
  by simp

definition sample_item :: "int \<Rightarrow> str \<Rightarrow> task_item" where
  "sample_item start upid =
     \<lparr>ti_upid = \<lparr>ru_remote = ''r'', ru_type = Pve, ru_upid = upid\<rparr>, ti_starttime = start,
      ti_status = None, ti_endtime = None\<rparr>"

theorem merge_iterator_correct_witness:
  "let l = [sample_item 9 ''a'', sample_item 5 ''a'']; r = [sample_item 7 ''a'', sample_item 5 ''a'', sample_item 5 ''b'']
   in strict_tasks l \<and> strict_tasks r \<and> strict_tasks (merge_tasks l r) \<and>
      map ti_starttime (merge_tasks l r) = [9, 7, 5, 5]"
proof -
  let ?l = "[sample_item 9 ''a'', sample_item 5 ''a'']"
  let ?r = "[sample_item 7 ''a'', sample_item 5 ''a'', sample_item 5 ''b'']"
  have l: "strict_tasks ?l" unfolding strict_tasks_def by code_simp
  have r: "strict_tasks ?r" unfolding strict_tasks_def by code_simp
  have "map ti_starttime (merge_tasks ?l ?r) = [9, 7, 5, 5]" by code_simp
  with l r merge_iterator_correct [OF l r] show ?thesis by (simp only: Let_def simp_thms)
qed

end
