(* ===== verification/TaskArchive.thy ===== *)
theory TaskArchive
  imports TaskItems
begin

text \<open>
  The files of the remote task cache, from \<^verbatim>\<open>server/src/remote_tasks/task_cache.rs\<close>: archive file
  names, reading and replacing archive files, the journal, and iterating over cached tasks.

  \<^item> \<open>task_fs\<close> is the cache's base directory. \<open>fs_dir\<close> holds the line-structured files by name (the
    archives, the \<^verbatim>\<open>active\<close> file and anything else that may lie there) in the order in which
    \<^verbatim>\<open>read_dir\<close> lists them; \<open>fs_journal\<close> is the write-ahead log, \<open>fs_state\<close> the state file. Temporary
    files are left out: \<^verbatim>\<open>make_tmp_file\<close> gives them names that do not parse as archive names.
  \<^item> A line is JSON text or cannot be read at all (\<open>Unreadable\<close>: an I/O, UTF-8 or decompression
    error). JSON text is an opaque type \<open>'j\<close>: \<^verbatim>\<open>serde_json\<close> is the parameter \<open>json\<close>, of which
    \<open>json_ok\<close> states that a task that was written can be read back.
  \<^item> System calls may fail. \<open>fs_sched\<close> says for each call, in order, whether it succeeds; when the
    list is used up calls succeed. Every theorem about \<open>io\<close> code for all states therefore covers
    every pattern of failing calls. A failing call has no effect, except that a failing append may
    leave a fragment of a line behind.
\<close>

section \<open>Files and system calls\<close>

datatype 'j line = Text 'j | Unreadable

datatype 'j fault = Succeed | Fail "'j line option"

datatype state_file = NoState | BadState | GoodState task_state

record 'j task_fs =
  fs_dir :: "(str, 'j line list) alist"
  fs_journal :: "('j line list \<times> bool) option"
  fs_state :: state_file
  fs_sched :: "'j fault list"

record 'j json =
  to_json :: "task_item \<Rightarrow> 'j"
  from_json :: "'j \<Rightarrow> task_item option"
  join_text :: "'j \<Rightarrow> 'j \<Rightarrow> 'j"
  text_len :: "'j \<Rightarrow> nat"

definition json_ok :: "'j json \<Rightarrow> bool" where
  "json_ok J \<longleftrightarrow> (\<forall>t. from_json J (to_json J t) = Some t)"

datatype cache_error = IoError str | NotFound str | Disappeared str

type_synonym ('j, 'a) cache_io = "(cache_error, 'j task_fs, 'a) io"

text \<open>One system call: it reads \<open>r\<close> and changes the files by \<open>w\<close>, unless the schedule says that it
  fails.\<close>

definition sys :: "str \<Rightarrow> ('j task_fs \<Rightarrow> 'a) \<Rightarrow> ('j task_fs \<Rightarrow> 'j task_fs) \<Rightarrow> ('j, 'a) cache_io" where
  "sys call r w s =
     (case fs_sched s of
        Fail _ # sched \<Rightarrow> (Inl (IoError call), s\<lparr>fs_sched := sched\<rparr>)
      | Succeed # sched \<Rightarrow>
          (Inr (r (s\<lparr>fs_sched := sched\<rparr>)), w (s\<lparr>fs_sched := sched\<rparr>))
      | [] \<Rightarrow> (Inr (r s), w s))"

abbreviation sys_unit :: "str \<Rightarrow> ('j, unit) cache_io" where
  "sys_unit call \<equiv> sys call (\<lambda>_. ()) (\<lambda>s. s)"

definition remove_file :: "str \<Rightarrow> ('j, unit) cache_io" where
  "remove_file name =
     io_bind (sys ''unlink'' (\<lambda>s. al_get (fs_dir s) name) (\<lambda>s. s\<lparr>fs_dir := al_del name (fs_dir s)\<rparr>))
       (\<lambda>c. if c = None then io_fail (NotFound name) else io_return ())"

section \<open>Archive files\<close>

record archive_file =
  af_name :: str
  af_compressed :: bool
  af_starttime :: int

datatype ArchiveFileState = Valid | Corrupted

definition archive_path :: "int \<Rightarrow> bool \<Rightarrow> str" where
  "archive_path starttime compressed =
     ''archive.'' @ show_int starttime @ (if compressed then ''.zst'' else [])"

definition parse_archive_filename :: "str \<Rightarrow> archive_file option" where
  "parse_archive_filename name =
     (case strip_prefix ''archive.'' name of
        None \<Rightarrow> None
      | Some rest \<Rightarrow>
          (case strip_suffix ''.zst'' rest of
             Some digits \<Rightarrow>
               map_option (\<lambda>st. \<lparr>af_name = name, af_compressed = True, af_starttime = st\<rparr>)
                 (parse_i64 digits)
           | None \<Rightarrow>
               map_option (\<lambda>st. \<lparr>af_name = name, af_compressed = False, af_starttime = st\<rparr>)
                 (parse_i64 rest)))"

definition set_compressed :: "bool \<Rightarrow> archive_file \<Rightarrow> archive_file" where
  "set_compressed compressed f =
     f\<lparr>af_compressed := compressed, af_name := archive_path (af_starttime f) compressed\<rparr>"

definition active_file :: archive_file where
  "active_file = \<lparr>af_name = ''active'', af_compressed = False, af_starttime = 0\<rparr>"

definition compare_archives :: "archive_file \<Rightarrow> archive_file \<Rightarrow> ordering" where
  "compare_archives a b =
     then_with (cmp_of (af_starttime b) (af_starttime a))
       (cmp_of (af_compressed b) (af_compressed a))"

definition list_archives :: "'j task_fs \<Rightarrow> archive_file list" where
  "list_archives s =
     sort_by compare_archives (List.map_filter parse_archive_filename (map fst (fs_dir s)))"

definition archive_files_with_dupes :: "('j, archive_file list) cache_io" where
  "archive_files_with_dupes = sys ''read_dir'' list_archives (\<lambda>s. s)"

definition dedup_archives :: "archive_file list \<Rightarrow> archive_file list" where
  "dedup_archives fs = dedup_by (\<lambda>a b. af_starttime a = af_starttime b) fs"

definition archive_files :: "('j, archive_file list) cache_io" where
  "archive_files = io_bind archive_files_with_dupes (\<lambda>fs. io_return (dedup_archives fs))"

section \<open>Reading\<close>

text \<open>
  \<^verbatim>\<open>ArchiveIterator\<close>: \<open>archive_next\<close> is one call of \<^verbatim>\<open>next\<close> on the remaining lines and the
  \<^verbatim>\<open>failed\<close> flag, \<open>archive_items\<close> everything it yields. An undecodable line is an error item and
  reading goes on; after a line that cannot be read nothing more is returned.
\<close>

datatype read_error = DecodeJson | ReadLine

definition archive_next ::
  "'j json \<Rightarrow> bool \<Rightarrow> 'j line list \<Rightarrow> ((read_error + task_item) \<times> bool \<times> 'j line list) option" where
  "archive_next J failed ls =
     (if failed then None
      else case ls of
             [] \<Rightarrow> None
           | Text j # ls' \<Rightarrow>
               Some (case from_json J j of None \<Rightarrow> Inl DecodeJson | Some t \<Rightarrow> Inr t, False, ls')
           | Unreadable # ls' \<Rightarrow> Some (Inl ReadLine, True, ls'))"

function drain_archive :: "'j json \<Rightarrow> bool \<Rightarrow> 'j line list \<Rightarrow> (read_error + task_item) list" where
  "drain_archive J failed ls =
     (case archive_next J failed ls of
        None \<Rightarrow> [] | Some (res, failed', ls') \<Rightarrow> res # drain_archive J failed' ls')"
  by pat_completeness auto
termination
  by (relation "measure (\<lambda>(J, failed, ls). length ls)")
    (auto simp: archive_next_def split: if_splits list.splits line.splits)

definition archive_items :: "'j json \<Rightarrow> 'j line list \<Rightarrow> (read_error + task_item) list" where
  "archive_items J ls = drain_archive J False ls"

text \<open>The decoded tasks of a sequence of results, and whether it contains an error.\<close>

fun oks :: "('e + 'a) list \<Rightarrow> 'a list" where
  "oks [] = []"
| "oks (Inl _ # xs) = oks xs"
| "oks (Inr x # xs) = x # oks xs"

fun errors :: "('e + 'a) list \<Rightarrow> nat" where
  "errors [] = 0"
| "errors (Inl _ # xs) = Suc (errors xs)"
| "errors (Inr _ # xs) = errors xs"

definition file_iter :: "'j json \<Rightarrow> archive_file \<Rightarrow> ('j, (read_error + task_item) list option) cache_io" where
  "file_iter J f =
     io_bind (sys ''open'' (\<lambda>s. al_get (fs_dir s) (af_name f)) (\<lambda>s. s))
       (\<lambda>c. case c of
              None \<Rightarrow> io_return None
            | Some ls \<Rightarrow>
                if af_compressed f
                then io_bind (sys_unit ''zstd decoder'') (\<lambda>_. io_return (Some (archive_items J ls)))
                else io_return (Some (archive_items J ls)))"

definition journal_items :: "'j json \<Rightarrow> 'j line list \<Rightarrow> task_item list" where
  "journal_items J ls =
     dedup_by (=) (sort_by compare_tasks_reverse (oks (archive_items J ls)))"

text \<open>
  \<^verbatim>\<open>InnerTaskArchiveIterator\<close>, run to its end: the files are taken from the back; a file that does
  not exist or cannot be opened is skipped; for every error of an archive file the file is
  recorded as corrupted, except for the active file, whose start time is 0.
\<close>

definition drain_file ::
  "'j json \<Rightarrow> archive_file \<Rightarrow> (read_error + task_item) list \<times> archive_file list \<Rightarrow>
     ('j, (read_error + task_item) list \<times> archive_file list) cache_io" where
  "drain_file J f acc =
     io_bind (io_try (file_iter J f))
       (\<lambda>r. case r of
              Inr (Some items) \<Rightarrow>
                io_return (fst acc @ items,
                  snd acc @ (if af_starttime f \<noteq> 0 then replicate (errors items) f else []))
            | Inr None \<Rightarrow> io_return acc
            | Inl _ \<Rightarrow> io_return acc)"

definition drain_files ::
  "'j json \<Rightarrow> archive_file list \<Rightarrow> ('j, (read_error + task_item) list \<times> archive_file list) cache_io" where
  "drain_files J files = io_fold (drain_file J) (rev files) ([], [])"

definition task_archive_iterator ::
  "'j json \<Rightarrow> bool \<Rightarrow> archive_file list \<Rightarrow> ('j, task_item list \<times> archive_file list) cache_io" where
  "task_archive_iterator J with_journal files =
     io_bind (if with_journal then sys ''open journal'' fs_journal (\<lambda>s. s) else io_return None)
       (\<lambda>journal. io_bind (drain_files J files)
          (\<lambda>(items, corrupted).
             io_return (case journal of
                          None \<Rightarrow> oks items
                        | Some (ls, _) \<Rightarrow> merge_tasks (journal_items J ls) (oks items), corrupted)))"

datatype GetTasks = All | Active | Archived

definition get_tasks_impl :: "'j json \<Rightarrow> GetTasks \<Rightarrow> ('j, task_item list \<times> archive_file list) cache_io" where
  "get_tasks_impl J mode =
     (case mode of
        All \<Rightarrow> io_bind archive_files (\<lambda>fs. task_archive_iterator J True (rev fs @ [active_file]))
      | Active \<Rightarrow> task_archive_iterator J False [active_file]
      | Archived \<Rightarrow> io_bind archive_files (\<lambda>fs. task_archive_iterator J True (rev fs)))"

section \<open>Writing\<close>

text \<open>
  \<^verbatim>\<open>ArchiveFile::writer\<close>, \<^verbatim>\<open>write_tasks\<close> and \<^verbatim>\<open>commit\<close>: the new contents are written to a
  temporary file that then atomically replaces the archive file.
\<close>

definition file_writer :: "archive_file \<Rightarrow> ('j, unit) cache_io" where
  "file_writer f =
     io_bind (sys_unit ''make_tmp_file'')
       (\<lambda>_. if af_compressed f then sys_unit ''zstd encoder'' else io_return ())"

definition encode_tasks :: "'j json \<Rightarrow> task_item list \<Rightarrow> 'j line list" where
  "encode_tasks J ts = map (\<lambda>t. Text (to_json J t)) ts"

definition write_tasks :: "'j json \<Rightarrow> task_item list \<Rightarrow> ('j, 'j line list) cache_io" where
  "write_tasks J ts = io_bind (sys_unit ''write'') (\<lambda>_. io_return (encode_tasks J ts))"

definition commit :: "archive_file \<Rightarrow> 'j line list \<Rightarrow> ('j, unit) cache_io" where
  "commit f ls =
     io_bind (sys_unit ''flush'') (\<lambda>_. io_bind (sys_unit ''fsync'')
       (\<lambda>_. sys ''rename'' (\<lambda>_. ()) (\<lambda>s. s\<lparr>fs_dir := al_put (af_name f) ls (fs_dir s)\<rparr>)))"

text \<open>Appending one line to the journal. When the last line has no newline yet (an earlier append
  failed half way) the new text continues that line.\<close>

definition append_line :: "'j json \<Rightarrow> 'j line \<Rightarrow> 'j line list \<times> bool \<Rightarrow> 'j line list" where
  "append_line J l journal =
     (case journal of (ls, torn) \<Rightarrow>
        if torn \<and> ls \<noteq> []
        then butlast ls @ [case (last ls, l) of
                             (Text a, Text b) \<Rightarrow> Text (join_text J a b)
                           | _ \<Rightarrow> Unreadable]
        else ls @ [l])"

definition append_journal :: "'j json \<Rightarrow> task_item \<Rightarrow> ('j, unit) cache_io" where
  "append_journal J t s =
     (let journal = (case fs_journal s of None \<Rightarrow> ([], False) | Some j \<Rightarrow> j);
          written = Some (append_line J (Text (to_json J t)) journal, False)
      in case fs_sched s of
           Fail torn # sched \<Rightarrow>
             (Inl (IoError ''write journal''),
              (case torn of
                 None \<Rightarrow> s\<lparr>fs_sched := sched\<rparr>
               | Some frag \<Rightarrow>
                   s\<lparr>fs_sched := sched, fs_journal := Some (append_line J frag journal, True)\<rparr>))
         | Succeed # sched \<Rightarrow> (Inr (), s\<lparr>fs_sched := sched, fs_journal := written\<rparr>)
         | [] \<Rightarrow> (Inr (), s\<lparr>fs_journal := written\<rparr>))"

definition journal_bytes :: "'j json \<Rightarrow> 'j line list \<times> bool \<Rightarrow> nat" where
  "journal_bytes J journal =
     sum_list (map (\<lambda>l. case l of Text j \<Rightarrow> text_len J j + 1 | Unreadable \<Rightarrow> 1) (fst journal))
       - (if snd journal then 1 else 0)"

definition read_state :: "('j, task_state) cache_io" where
  "read_state =
     io_bind (io_try (sys ''read state'' fs_state (\<lambda>s. s)))
       (\<lambda>r. io_return (case r of Inr (GoodState st) \<Rightarrow> st | _ \<Rightarrow> default_state))"

definition write_state :: "task_state \<Rightarrow> ('j, unit) cache_io" where
  "write_state st = sys ''replace state'' (\<lambda>_. ()) (\<lambda>s. s\<lparr>fs_state := GoodState st\<rparr>)"

definition write_active_tasks :: "'j json \<Rightarrow> task_item list \<Rightarrow> ('j, unit) cache_io" where
  "write_active_tasks J ts =
     io_bind (file_writer active_file)
       (\<lambda>_. io_bind (write_tasks J ts) (\<lambda>ls. commit active_file ls))"

section \<open>Archive names\<close>

lemma strip_suffix_None: "q \<noteq> [] \<Longrightarrow> last q \<notin> set s \<Longrightarrow> strip_suffix q s = None"
  by (cases q rule: rev_cases; cases s rule: rev_cases)
    (auto simp: strip_suffix_def strip_prefix_def)

definition canonical :: "archive_file \<Rightarrow> bool" where
  "canonical f \<longleftrightarrow>
     af_name f = archive_path (af_starttime f) (af_compressed f) \<and> in_i64 (af_starttime f)"

lemma parse_archive_path:
  assumes "in_i64 st"
  shows "parse_archive_filename (archive_path st c) =
           Some \<lparr>af_name = archive_path st c, af_compressed = c, af_starttime = st\<rparr>"
proof -
  have "CHR ''t'' \<notin> set (show_int st)"
    by (auto simp: is_ascii_digit_def dest: show_int_chars)
  then have "strip_suffix ''.zst'' (show_int st) = None"
    by (intro strip_suffix_None) simp_all
  moreover have "strip_prefix ''archive.'' (archive_path st c) =
                   Some (show_int st @ (if c then ''.zst'' else []))"
    by (simp only: archive_path_def strip_prefix_append)
  ultimately show ?thesis
    using assms by (cases c) (simp_all only: parse_archive_filename_def if_True if_False
        append_Nil2 strip_suffix_append option.case option.map parse_i64_show_int in_i64_def)
qed

lemma parse_canonical: "canonical f \<Longrightarrow> parse_archive_filename (af_name f) = Some f"
  by (simp add: canonical_def parse_archive_path)

lemma parse_archive_name: "parse_archive_filename n = Some f \<Longrightarrow> af_name f = n"
  by (auto simp: parse_archive_filename_def split: option.splits)

lemma parse_active [simp]: "parse_archive_filename ''active'' = None"
  by (simp add: parse_archive_filename_def strip_prefix_def)

lemma canonical_eq:
  "canonical f \<Longrightarrow> canonical g \<Longrightarrow> af_name f = af_name g \<Longrightarrow> f = g"
  by (metis option.inject parse_canonical)

lemma canonical_set_compressed: "canonical f \<Longrightarrow> canonical (set_compressed c f)"
  by (simp add: canonical_def set_compressed_def)

section \<open>What iteration returns\<close>

lemma archive_items_simps [simp]:
  "archive_items J [] = []"
  "archive_items J (Text j # ls) =
     (case from_json J j of None \<Rightarrow> Inl DecodeJson | Some t \<Rightarrow> Inr t) # archive_items J ls"
  "archive_items J (Unreadable # ls) = [Inl ReadLine]"
  by (simp_all add: archive_items_def archive_next_def)

declare drain_archive.simps [simp del]

lemma oks_map_Inr [simp]: "oks (map Inr ts) = ts"
  by (induction ts) simp_all

lemma errors_map_Inr [simp]: "errors (map Inr ts) = 0"
  by (induction ts) simp_all

lemma oks_append [simp]: "oks (xs @ ys) = oks xs @ oks ys"
  by (induction xs rule: oks.induct) simp_all

lemma archive_items_encode: "json_ok J \<Longrightarrow> archive_items J (encode_tasks J ts) = map Inr ts"
  by (induction ts) (simp_all add: encode_tasks_def json_ok_def)

definition file_tasks :: "'j json \<Rightarrow> 'j line list \<Rightarrow> task_item list" where
  "file_tasks J ls = oks (archive_items J ls)"

lemma file_tasks_encode [simp]: "json_ok J \<Longrightarrow> file_tasks J (encode_tasks J ts) = ts"
  by (simp add: file_tasks_def archive_items_encode)

section \<open>The set of archives\<close>

text \<open>\<open>archives\<close> are all archive files with their contents, \<open>listing\<close> is what \<^verbatim>\<open>archive_files\<close> returns
  and \<open>archived\<close> the tasks that can be read back from the listed files.\<close>

definition archives :: "'j task_fs \<Rightarrow> (archive_file \<times> 'j line list) set" where
  "archives s = {(f, ls). al_get (fs_dir s) (af_name f) = Some ls \<and>
                          parse_archive_filename (af_name f) = Some f}"

definition listing :: "'j task_fs \<Rightarrow> archive_file list" where
  "listing s = dedup_archives (list_archives s)"

definition archived :: "'j json \<Rightarrow> 'j task_fs \<Rightarrow> task_item set" where
  "archived J s =
     {t. \<exists>f \<in> set (listing s). \<exists>ls. al_get (fs_dir s) (af_name f) = Some ls \<and> t \<in> set (file_tasks J ls)}"

interpretation archive_order: keyed_order compare_archives
  "\<lambda>f. (- af_starttime f, \<not> af_compressed f)"
  by unfold_locales
    (auto simp: compare_archives_def cmp_of_pair, auto simp: cmp_of_def then_with_def)

interpretation start_order: keyed_order
  "\<lambda>f g. cmp_of (af_starttime g) (af_starttime f)" "\<lambda>f. - af_starttime f"
  by unfold_locales (auto simp: cmp_of_def)

lemma set_list_archives: "set (list_archives s) = fst ` archives s"
proof (intro equalityI subsetI)
  fix f assume "f \<in> set (list_archives s)"
  then obtain n where n: "n \<in> fst ` set (fs_dir s)" "parse_archive_filename n = Some f"
    by (force simp: list_archives_def map_filter_def)
  from n(1) obtain ls where "al_get (fs_dir s) n = Some ls"
    by (metis domD dom_map_of_conv_image_fst)
  with n(2) have "(f, ls) \<in> archives s"
    by (simp add: archives_def parse_archive_name)
  then show "f \<in> fst ` archives s" by force
next
  fix f assume "f \<in> fst ` archives s"
  then obtain ls where ls: "al_get (fs_dir s) (af_name f) = Some ls"
    "parse_archive_filename (af_name f) = Some f"
    by (auto simp: archives_def)
  from ls(1) have "af_name f \<in> fst ` set (fs_dir s)"
    by (metis domI dom_map_of_conv_image_fst)
  with ls(2) show "f \<in> set (list_archives s)"
    by (force simp: list_archives_def map_filter_def)
qed

lemma sorted_list_archives: "sorted (map (\<lambda>f. - af_starttime f) (list_archives s))"
proof -
  have "sorted (map (\<lambda>f. (- af_starttime f, \<not> af_compressed f)) (list_archives s))"
    unfolding list_archives_def by (rule archive_order.sorted_sort_by)
  then show ?thesis
    unfolding sorted_map by (rule sorted_wrt_mono_rel [rotated]) auto
qed

lemma distinct_list_archives:
  assumes "al_keys_distinct (fs_dir s)"
  shows "distinct (list_archives s)"
proof -
  have "distinct (List.map_filter parse_archive_filename ns)" if "distinct ns" for ns
    using that
  proof (induction ns)
    case (Cons n ns)
    have "f \<notin> set (List.map_filter parse_archive_filename ns)" if "parse_archive_filename n = Some f" for f
    proof
      assume "f \<in> set (List.map_filter parse_archive_filename ns)"
      then obtain m where "m \<in> set ns" "parse_archive_filename m = Some f"
        by (auto simp: map_filter_def)
      with that have "m = n" by (metis parse_archive_name)
      with \<open>m \<in> set ns\<close> Cons.prems show False by simp
    qed
    with Cons show ?case by (auto simp: map_filter_simps split: option.splits)
  qed (simp add: map_filter_simps)
  with assms have "distinct (List.map_filter parse_archive_filename (map fst (fs_dir s)))"
    by (simp add: al_keys_distinct_def)
  then show ?thesis
    unfolding list_archives_def by (metis mset_sort_by mset_eq_imp_distinct_iff)
qed

lemma set_listing_subset: "set (listing s) \<subseteq> fst ` archives s"
  using set_dedup_by_subset [of _ "list_archives s"]
  by (auto simp: listing_def dedup_archives_def simp flip: set_list_archives)

lemma starts_listing: "af_starttime ` set (listing s) = af_starttime ` fst ` archives s"
  unfolding listing_def dedup_archives_def set_list_archives [symmetric]
  by (rule keys_dedup_by) simp

lemma sorted_listing: "sorted_wrt (\<lambda>f g. af_starttime g < af_starttime f) (listing s)"
proof -
  have "sorted_wrt (<) (map (\<lambda>f. - af_starttime f) (listing s))"
    unfolding listing_def dedup_archives_def
    by (rule start_order.strict_dedup_by [OF sorted_list_archives]) simp
  then show ?thesis by (simp add: sorted_wrt_map)
qed

lemma listing_cong: "map fst (fs_dir s') = map fst (fs_dir s) \<Longrightarrow> listing s' = listing s"
  by (simp add: listing_def list_archives_def)

lemma al_put_map_fst: "k \<in> fst ` set xs \<Longrightarrow> map fst (al_put k v xs) = map fst xs"
  by (induction k v xs rule: al_put.induct) auto

lemma listing_put:
  "al_get (fs_dir s) n = Some ls \<Longrightarrow> listing (s\<lparr>fs_dir := al_put n ls' (fs_dir s)\<rparr>) = listing s"
proof -
  assume "al_get (fs_dir s) n = Some ls"
  then have "n \<in> fst ` set (fs_dir s)" by (force dest: map_of_SomeD)
  then show ?thesis by (intro listing_cong) (simp add: al_put_map_fst)
qed

lemma archives_put:
  assumes "parse_archive_filename (af_name f) = Some f"
  shows "archives (s\<lparr>fs_dir := al_put (af_name f) ls' (fs_dir s)\<rparr>) =
           insert (f, ls') {(g, ls) \<in> archives s. g \<noteq> f}"
proof (rule set_eqI, clarify)
  fix g ls
  show "(g, ls) \<in> archives (s\<lparr>fs_dir := al_put (af_name f) ls' (fs_dir s)\<rparr>) \<longleftrightarrow>
          (g, ls) \<in> insert (f, ls') {(g, ls) \<in> archives s. g \<noteq> f}"
  proof (cases "af_name g = af_name f")
    case True
    have "parse_archive_filename (af_name g) = Some g \<longleftrightarrow> g = f"
      unfolding True assms by auto
    with True show ?thesis by (auto simp: archives_def al_get_put)
  next
    case False
    then have "g \<noteq> f" by auto
    with False show ?thesis by (simp add: archives_def al_get_put)
  qed
qed

lemma archives_put_other:
  "parse_archive_filename n = None \<Longrightarrow>
   archives (s\<lparr>fs_dir := al_put n ls' (fs_dir s)\<rparr>) = archives s"
  by (auto simp: archives_def al_get_put split: if_splits)

lemma archives_del:
  "archives (s\<lparr>fs_dir := al_del n (fs_dir s)\<rparr>) = {(g, ls) \<in> archives s. af_name g \<noteq> n}"
  by (auto simp: archives_def al_get_del split: if_splits)

section \<open>The archive invariant\<close>

text \<open>
  Every archive file has the name the cache gives it, its readable tasks are sorted and none is
  older than the file's start time. With \<open>ranged\<close> the time ranges of the files do not overlap
  either: every task of a file is older than the start time of every newer file. That part
  depends on remotes not reporting tasks from the future when a new file is started, so it is
  optional.
\<close>

definition file_ok :: "'j json \<Rightarrow> archive_file \<Rightarrow> 'j line list \<Rightarrow> bool" where
  "file_ok J f ls \<longleftrightarrow>
     canonical f \<and> sorted_tasks (file_tasks J ls) \<and>
     (\<forall>t \<in> set (file_tasks J ls). af_starttime f \<le> ti_starttime t)"

definition below_newer :: "'j json \<Rightarrow> 'j line list \<Rightarrow> archive_file \<Rightarrow> archive_file set \<Rightarrow> bool" where
  "below_newer J ls f others \<longleftrightarrow>
     (\<forall>g \<in> others. af_starttime f < af_starttime g \<longrightarrow>
        (\<forall>t \<in> set (file_tasks J ls). ti_starttime t < af_starttime g))"

definition cache_inv :: "'j json \<Rightarrow> bool \<Rightarrow> 'j task_fs \<Rightarrow> bool" where
  "cache_inv J ranged s \<longleftrightarrow>
     al_keys_distinct (fs_dir s) \<and>
     (\<forall>(f, ls) \<in> archives s. file_ok J f ls) \<and>
     (ranged \<longrightarrow> (\<forall>(f, ls) \<in> archives s. below_newer J ls f (fst ` archives s)))"

lemma cache_inv_file: "cache_inv J r s \<Longrightarrow> (f, ls) \<in> archives s \<Longrightarrow> file_ok J f ls"
  by (auto simp: cache_inv_def)

lemma cache_inv_below:
  assumes "cache_inv J r s" "r" "(f, ls) \<in> archives s" "g \<in> fst ` archives s"
    "af_starttime f < af_starttime g" "t \<in> set (file_tasks J ls)"
  shows "ti_starttime t < af_starttime g"
proof -
  from assms(1-3) have "below_newer J ls f (fst ` archives s)" by (auto simp: cache_inv_def)
  with assms(4-6) show ?thesis unfolding below_newer_def by blast
qed

lemma archives_sched [simp]:
  "archives (s\<lparr>fs_sched := x\<rparr>) = archives s"
  "archives (s\<lparr>fs_journal := j\<rparr>) = archives s"
  "archives (s\<lparr>fs_state := st\<rparr>) = archives s"
  by (simp_all add: archives_def)

lemma listing_sched [simp]:
  "listing (s\<lparr>fs_sched := x\<rparr>) = listing s"
  "listing (s\<lparr>fs_journal := j\<rparr>) = listing s"
  "listing (s\<lparr>fs_state := st\<rparr>) = listing s"
  by (simp_all add: listing_def list_archives_def)

lemma archived_sched [simp]:
  "archived J (s\<lparr>fs_sched := x\<rparr>) = archived J s"
  "archived J (s\<lparr>fs_journal := j\<rparr>) = archived J s"
  "archived J (s\<lparr>fs_state := st\<rparr>) = archived J s"
  by (simp_all add: archived_def)

lemma cache_inv_sched [simp]:
  "cache_inv J r (s\<lparr>fs_sched := x\<rparr>) = cache_inv J r s"
  "cache_inv J r (s\<lparr>fs_journal := j\<rparr>) = cache_inv J r s"
  "cache_inv J r (s\<lparr>fs_state := st\<rparr>) = cache_inv J r s"
  by (simp_all add: cache_inv_def)

lemma cache_inv_put:
  assumes "cache_inv J r s" and "file_ok J f ls"
    and "r \<Longrightarrow> below_newer J ls f (fst ` archives s)"
    and "r \<Longrightarrow> \<forall>(g, l) \<in> archives s. af_starttime g < af_starttime f \<longrightarrow>
           (\<forall>t \<in> set (file_tasks J l). ti_starttime t < af_starttime f)"
  shows "cache_inv J r (s\<lparr>fs_dir := al_put (af_name f) ls (fs_dir s)\<rparr>)"
proof -
  have "parse_archive_filename (af_name f) = Some f"
    using assms(2) by (simp add: file_ok_def parse_canonical)
  note put = archives_put [OF this]
  show ?thesis
    unfolding cache_inv_def put
    using assms by (fastforce simp: cache_inv_def below_newer_def al.ok_put)
qed

lemma cache_inv_del:
  "cache_inv J r s \<Longrightarrow> cache_inv J r (s\<lparr>fs_dir := al_del n (fs_dir s)\<rparr>)"
  unfolding cache_inv_def archives_del by (fastforce simp: below_newer_def al.ok_del)

lemma cache_inv_put_other:
  "cache_inv J r s \<Longrightarrow> parse_archive_filename n = None \<Longrightarrow>
   cache_inv J r (s\<lparr>fs_dir := al_put n ls (fs_dir s)\<rparr>)"
  by (simp add: cache_inv_def archives_put_other al.ok_put)

lemma listing_put_other:
  assumes "parse_archive_filename n = None"
  shows "listing (s\<lparr>fs_dir := al_put n ls (fs_dir s)\<rparr>) = listing s"
proof -
  have "List.map_filter parse_archive_filename (map fst (al_put n ls xs)) =
      List.map_filter parse_archive_filename (map fst xs)" for xs :: "(str, 'a line list) alist"
    using assms by (induction n ls xs rule: al_put.induct) (auto simp: map_filter_simps split: option.splits)
  then show ?thesis by (simp add: listing_def list_archives_def)
qed

lemma archived_put_other:
  assumes "parse_archive_filename n = None"
  shows "archived J (s\<lparr>fs_dir := al_put n ls (fs_dir s)\<rparr>) = archived J s"
proof -
  have "af_name f \<noteq> n" if "f \<in> set (listing s)" for f
    using that assms set_listing_subset [of s] by (auto simp: archives_def)
  then show ?thesis
    unfolding archived_def listing_put_other [OF assms] by (auto simp: al_get_put)
qed

text \<open>Reading a log goes on behind any prefix of readable lines.\<close>

lemma file_tasks_append:
  "Unreadable \<notin> set ls \<Longrightarrow> file_tasks J (ls @ ls') = file_tasks J ls @ file_tasks J ls'"
proof (induction ls)
  case (Cons l ls)
  then show ?case by (cases l) (auto simp: file_tasks_def split: option.splits)
qed (simp add: file_tasks_def)

section \<open>Triples of the system calls\<close>

definition sched_free :: "('j task_fs \<Rightarrow> bool) \<Rightarrow> bool" where
  "sched_free P \<longleftrightarrow> (\<forall>s x. P s \<longrightarrow> P (s\<lparr>fs_sched := x\<rparr>))"

lemma sched_freeD: "sched_free P \<Longrightarrow> P s \<Longrightarrow> P (s\<lparr>fs_sched := x\<rparr>)"
  by (simp add: sched_free_def)

lemma io_triple_sys:
  assumes "sched_free P" and "\<And>s. P s \<Longrightarrow> Q (r s) (w s)" and "\<And>s. P s \<Longrightarrow> E s"
  shows "io_triple P (sys call r w) Q E"
  using assms by (auto simp: io_triple_def sys_def sched_freeD split: list.splits fault.splits)

lemma io_triple_sys_unit:
  "sched_free P \<Longrightarrow> (\<And>s. P s \<Longrightarrow> E s) \<Longrightarrow> io_triple P (sys_unit call) (\<lambda>_. P) E"
  by (rule io_triple_sys)

lemma io_triple_writer:
  "sched_free P \<Longrightarrow> (\<And>s. P s \<Longrightarrow> E s) \<Longrightarrow> io_triple P (file_writer f) (\<lambda>_. P) E"
  unfolding file_writer_def
  by (rule io_triple_bind, rule io_triple_sys_unit)
    (auto intro: io_triple_sys_unit io_triple_return)

lemma io_triple_write_tasks:
  "sched_free P \<Longrightarrow> (\<And>s. P s \<Longrightarrow> E s) \<Longrightarrow>
   io_triple P (write_tasks J ts) (\<lambda>ls s. ls = encode_tasks J ts \<and> P s) E"
  unfolding write_tasks_def
  by (rule io_triple_bind, rule io_triple_sys_unit) (auto intro: io_triple_return)

lemma io_triple_commit:
  assumes "sched_free P" and "\<And>s. P s \<Longrightarrow> E s"
    and "\<And>s. P s \<Longrightarrow> Q () (s\<lparr>fs_dir := al_put (af_name f) ls (fs_dir s)\<rparr>)"
  shows "io_triple P (commit f ls) Q E"
  unfolding commit_def
  by (rule io_triple_bind, rule io_triple_sys_unit [OF assms(1,2)], assumption,
      rule io_triple_bind, rule io_triple_sys_unit [OF assms(1,2)], assumption,
      rule io_triple_sys) (use assms in auto)

lemma io_triple_remove:
  assumes "sched_free P" and "\<And>s. P s \<Longrightarrow> E s"
    and "\<And>s. P s \<Longrightarrow> Q () (s\<lparr>fs_dir := al_del n (fs_dir s)\<rparr>)"
    and "\<And>s. P s \<Longrightarrow> E (s\<lparr>fs_dir := al_del n (fs_dir s)\<rparr>)"
  shows "io_triple P (remove_file n) Q E"
  unfolding remove_file_def
  by (rule io_triple_bind,
      rule io_triple_sys [where Q = "\<lambda>_ s'. \<exists>s. P s \<and> s' = s\<lparr>fs_dir := al_del n (fs_dir s)\<rparr>"])
    (use assms in \<open>auto intro!: io_triple_return io_triple_fail\<close>)

lemma io_triple_iter:
  assumes "sched_free P" and "\<And>s. P s \<Longrightarrow> E s"
  shows "io_triple P (file_iter J f)
           (\<lambda>it s. P s \<and> (\<forall>items. it = Some items \<longrightarrow>
              (\<exists>ls. al_get (fs_dir s) (af_name f) = Some ls \<and> items = archive_items J ls))) E"
  unfolding file_iter_def
proof (rule io_triple_bind)
  let ?R = "\<lambda>c s. P s \<and> al_get (fs_dir s) (af_name f) = c"
  show "io_triple P (sys ''open'' (\<lambda>s. al_get (fs_dir s) (af_name f)) (\<lambda>s. s)) ?R E"
    by (rule io_triple_sys) (use assms in auto)
  fix c
  show "io_triple (?R c)
          (case c of None \<Rightarrow> io_return None
           | Some ls \<Rightarrow>
               if af_compressed f
               then io_bind (sys_unit ''zstd decoder'') (\<lambda>_. io_return (Some (archive_items J ls)))
               else io_return (Some (archive_items J ls)))
          (\<lambda>it s. P s \<and> (\<forall>items. it = Some items \<longrightarrow>
              (\<exists>ls. al_get (fs_dir s) (af_name f) = Some ls \<and> items = archive_items J ls))) E"
  proof (cases c)
    case (Some ls)
    have "sched_free (?R c)" using assms(1) by (auto simp: sched_free_def)
    then show ?thesis
      unfolding Some option.case
      by (intro io_triple_if io_triple_return io_triple_bind [OF io_triple_sys_unit])
        (use assms(2) in auto)
  qed (auto intro: io_triple_return)
qed

section \<open>Properties\<close>

text \<open>
  Archive file names round-trip: listing the directory recognises the path the cache builds
  for a start time and a compression status and recovers both, and switching a file to compressed
  gives the path that is recognised as the compressed file with the same start time.
\<close>

theorem archive_name_roundtrip:
  assumes "in_i64 st"
  shows "parse_archive_filename (archive_path st c) =
           Some \<lparr>af_name = archive_path st c, af_compressed = c, af_starttime = st\<rparr> \<and>
         parse_archive_filename (af_name (set_compressed True
           \<lparr>af_name = archive_path st c, af_compressed = c, af_starttime = st\<rparr>)) =
           Some (set_compressed True \<lparr>af_name = archive_path st c, af_compressed = c, af_starttime = st\<rparr>)"
  using parse_archive_path [OF assms] by (simp add: set_compressed_def)

theorem archive_name_roundtrip_witness:
  "parse_archive_filename ''archive.-64.zst'' =
     Some \<lparr>af_name = ''archive.-64.zst'', af_compressed = True, af_starttime = -64\<rparr>"
proof -
  have i64: "in_i64 (-64)" by (simp add: in_i64_def)
  have path: "archive_path (-64) True = ''archive.-64.zst''" by code_simp
  show ?thesis by (rule conjunct1 [OF archive_name_roundtrip [OF i64, of True], unfolded path])
qed

end
