(* ===== verification/TaskCache.thy ===== *)
theory TaskCache
  imports TaskArchive
begin

text \<open>
  The operations of \<^verbatim>\<open>WritableTaskCache\<close> in \<^verbatim>\<open>server/src/remote_tasks/task_cache.rs\<close>, in the order of
  the source, over the files of \<open>TaskArchive\<close>. The caller holds the exclusive lock, so operations
  do not interleave; they may fail or be cut off at any system call, which the schedule of the
  file system expresses. A \<^verbatim>\<open>HashMap\<close> that is only looked up, or iterated in an order that does not
  matter, is an association list.
\<close>

record cache_cfg =
  max_files :: nat
  uncompressed_files :: nat
  rotate_after :: int
  journal_max_size :: nat

section \<open>Archive maintenance\<close>

definition new_file :: "int \<Rightarrow> bool \<Rightarrow> ('j, archive_file) cache_io" where
  "new_file now compress =
     (let f = \<lparr>af_name = archive_path now compress, af_compressed = compress, af_starttime = now\<rparr>
      in io_bind (file_writer f) (\<lambda>_. io_bind (commit f []) (\<lambda>_. io_return f)))"

definition init_cache :: "cache_cfg \<Rightarrow> int \<Rightarrow> ('j, unit) cache_io" where
  "init_cache cfg now =
     io_bind archive_files
       (\<lambda>fs. if fs = []
             then io_for (\<lambda>i. io_bind
                    (new_file (wrap64 (now - wrap64 (int i * rotate_after cfg)))
                       (uncompressed_files cfg \<le> i)) (\<lambda>_. io_return ()))
                    [0..<max_files cfg]
             else io_return ())"

definition request_repair :: "archive_file list \<Rightarrow> ('j, unit) cache_io" where
  "request_repair corrupted =
     (if corrupted = [] then io_return ()
      else let reset = Min (set (map af_starttime corrupted))
           in io_bind read_state
                (\<lambda>st. write_state (st\<lparr>st_remote_state :=
                   (\<lambda>r. map_option (\<lambda>rs. rs\<lparr>rs_node_state :=
                      (\<lambda>n. map_option (\<lambda>ns. ns\<lparr>ns_cutoff := min (ns_cutoff ns) reset\<rparr>)
                             (rs_node_state rs n))\<rparr>) (st_remote_state st r))\<rparr>)))"

text \<open>\<open>merge_single_archive_file\<close>: the records of the file that cannot be decoded are dropped, and
  the file is reported as corrupted.\<close>

definition merge_single_archive_file ::
  "'j json \<Rightarrow> task_item list \<Rightarrow> archive_file \<Rightarrow> ('j, ArchiveFileState) cache_io" where
  "merge_single_archive_file J tasks f =
     (if tasks = [] then io_return Valid
      else io_bind (file_writer f) (\<lambda>_. io_bind (file_iter J f)
        (\<lambda>it. case it of
                None \<Rightarrow> io_fail (Disappeared (af_name f))
              | Some items \<Rightarrow>
                  io_bind (write_tasks J (merge_tasks (oks items) tasks))
                    (\<lambda>ls. io_bind (commit f ls)
                      (\<lambda>_. io_return (if 0 < errors items then Corrupted else Valid))))))"

text \<open>
  \<open>merge_tasks_into_archive\<close>: \<open>merge_loop\<close> carries the current file, the files behind it, the tasks
  collected for the current file and the corrupted files; \<open>merge_advance\<close> is the inner loop that
  finishes files until the current one may hold the task.
\<close>

type_synonym merge_loop = "archive_file option \<times> archive_file list \<times> task_item list \<times> archive_file list"

fun merge_advance ::
  "'j json \<Rightarrow> task_item \<Rightarrow> archive_file option \<Rightarrow> archive_file list \<Rightarrow> task_item list \<Rightarrow>
     archive_file list \<Rightarrow> ('j, merge_loop) cache_io" where
  "merge_advance J task cur [] batch corrupted = io_return (cur, [], batch, corrupted)"
| "merge_advance J task None (f # fs) batch corrupted =
     merge_advance J task (Some f) fs batch corrupted"
| "merge_advance J task (Some c) (f # fs) batch corrupted =
     (if af_starttime c \<le> ti_starttime task
      then io_return (Some c, f # fs, batch, corrupted)
      else io_bind (merge_single_archive_file J batch c)
        (\<lambda>st. merge_advance J task (Some f) fs []
                (if st = Corrupted then corrupted @ [c] else corrupted)))"

definition merge_collect :: "task_item \<Rightarrow> merge_loop \<Rightarrow> merge_loop" where
  "merge_collect task l =
     (case l of (cur, rest, batch, corrupted) \<Rightarrow>
        if (case cur of Some c \<Rightarrow> ti_starttime task < af_starttime c | None \<Rightarrow> False)
        then l else (cur, rest, batch @ [task], corrupted))"

definition merge_step :: "'j json \<Rightarrow> task_item \<Rightarrow> merge_loop \<Rightarrow> ('j, merge_loop) cache_io" where
  "merge_step J task l =
     (case l of (cur, rest, batch, corrupted) \<Rightarrow>
        io_bind (merge_advance J task cur rest batch corrupted)
          (\<lambda>l'. io_return (merge_collect task l')))"

definition merge_tasks_into_archive :: "'j json \<Rightarrow> task_item list \<Rightarrow> ('j, archive_file list) cache_io" where
  "merge_tasks_into_archive J tasks =
     io_bind archive_files
       (\<lambda>files. io_bind
          (io_fold (merge_step J) tasks
             (case files of [] \<Rightarrow> (None, [], [], []) | f # fs \<Rightarrow> (Some f, fs, [], [])))
          (\<lambda>(cur, _, batch, corrupted).
             case cur of
               None \<Rightarrow> io_return corrupted
             | Some c \<Rightarrow>
                 io_bind (merge_single_archive_file J batch c)
                   (\<lambda>st. io_return (if st = Corrupted then corrupted @ [c] else corrupted))))"

definition truncate_journal :: "('j, unit) cache_io" where
  "truncate_journal = sys ''truncate'' (\<lambda>_. ()) (\<lambda>s. s\<lparr>fs_journal := Some ([], False)\<rparr>)"

definition apply_journal :: "'j json \<Rightarrow> ('j, unit) cache_io" where
  "apply_journal J =
     io_bind (sys ''open journal'' fs_journal (\<lambda>s. s))
       (\<lambda>j. case j of
              None \<Rightarrow> io_return ()
            | Some (ls, _) \<Rightarrow>
                io_bind (merge_tasks_into_archive J (journal_items J ls))
                  (\<lambda>corrupted. io_bind truncate_journal
                     (\<lambda>_. if corrupted = [] then io_return () else request_repair corrupted)))"

definition journal_size :: "'j json \<Rightarrow> ('j, nat) cache_io" where
  "journal_size J =
     io_bind (sys ''metadata'' fs_journal (\<lambda>s. s))
       (\<lambda>j. case j of None \<Rightarrow> io_fail (NotFound ''journal'')
                    | Some jl \<Rightarrow> io_return (journal_bytes J jl))"

definition apply_journal_if_too_large :: "'j json \<Rightarrow> cache_cfg \<Rightarrow> ('j, unit) cache_io" where
  "apply_journal_if_too_large J cfg =
     io_bind (journal_size J)
       (\<lambda>size. if journal_max_size cfg < size then apply_journal J else io_return ())"

definition compress_archive_file :: "'j json \<Rightarrow> archive_file \<Rightarrow> ('j, ArchiveFileState) cache_io" where
  "compress_archive_file J f =
     (let nf = set_compressed True f
      in io_bind (file_iter J f)
           (\<lambda>it. case it of
                   None \<Rightarrow> io_fail (Disappeared (af_name f))
                 | Some items \<Rightarrow>
                     io_bind (file_writer nf) (\<lambda>_. io_bind (write_tasks J (oks items))
                       (\<lambda>ls. io_bind (commit nf ls) (\<lambda>_. io_bind (remove_file (af_name f))
                         (\<lambda>_. io_return (if 0 < errors items then Corrupted else Valid)))))))"

section \<open>Rotation\<close>

definition drop_dupe :: "archive_file \<Rightarrow> archive_file list \<Rightarrow> ('j, archive_file list) cache_io" where
  "drop_dupe f kept =
     (if af_starttime f \<notin> af_starttime ` set kept then io_return (kept @ [f])
      else io_bind (io_try (remove_file (af_name f))) (\<lambda>_. io_return kept))"

definition start_new_file ::
  "'j json \<Rightarrow> cache_cfg \<Rightarrow> int \<Rightarrow> archive_file list \<Rightarrow> ('j, archive_file list) cache_io" where
  "start_new_file J cfg now files =
     io_bind (new_file now (uncompressed_files cfg = 0))
       (\<lambda>f. io_bind (apply_journal J) (\<lambda>_. io_return (f # files)))"

definition rotation_due :: "cache_cfg \<Rightarrow> int \<Rightarrow> archive_file list \<Rightarrow> bool" where
  "rotation_due cfg now files =
     (case files of
        [] \<Rightarrow> True
      | bound # _ \<Rightarrow>
          af_starttime bound < now \<and> wrap64 (rotate_after cfg) \<le> wrap64 (now - af_starttime bound))"

text \<open>Files are popped from the back until at most \<open>max_files\<close> are left.\<close>

function trim_files :: "cache_cfg \<Rightarrow> archive_file list \<Rightarrow> ('j, archive_file list) cache_io" where
  "trim_files cfg files =
     (if length files \<le> max_files cfg then io_return files
      else io_bind (remove_file (af_name (last files))) (\<lambda>_. trim_files cfg (butlast files)))"
  by pat_completeness auto
termination
  by (relation "measure (\<lambda>(cfg, files). length files)") auto

declare trim_files.simps [simp del]

definition compress_step ::
  "'j json \<Rightarrow> archive_file \<Rightarrow> archive_file list \<Rightarrow> ('j, archive_file list) cache_io" where
  "compress_step J f corrupted =
     (if af_compressed f then io_return corrupted
      else io_bind (compress_archive_file J f)
             (\<lambda>st. io_return (if st = Corrupted then corrupted @ [f] else corrupted)))"

definition rotate_cache :: "'j json \<Rightarrow> cache_cfg \<Rightarrow> int \<Rightarrow> ('j, bool) cache_io" where
  "rotate_cache J cfg now =
     io_bind archive_files_with_dupes (\<lambda>all. io_bind (io_fold drop_dupe all [])
       (\<lambda>files.
          let due = rotation_due cfg now files
          in io_bind (if due then start_new_file J cfg now files else io_return files)
            (\<lambda>files'. io_bind (trim_files cfg files')
              (\<lambda>kept. io_bind (io_fold (compress_step J) (drop (uncompressed_files cfg) kept) [])
                (\<lambda>corrupted. io_bind
                   (if corrupted = [] then io_return () else request_repair corrupted)
                   (\<lambda>_. io_return due))))))"

section \<open>Adding tasks\<close>

type_synonym active_map = "(remote_upid, task_item) alist"

definition get_active_tasks :: "'j json \<Rightarrow> ('j, task_item list) cache_io" where
  "get_active_tasks J = io_bind (get_tasks_impl J Active) (\<lambda>r. io_return (fst r))"

definition success_node :: "upid_env \<Rightarrow> remote_upid \<Rightarrow> str option" where
  "success_node env u =
     (case native_upid env u of
        Inl _ \<Rightarrow> None
      | Inr nu \<Rightarrow> Some (case ru_type u of Pve \<Rightarrow> native_node nu | Pbs \<Rightarrow> ''localhost''))"

definition raise_cutoff :: "upid_env \<Rightarrow> node_success_map \<Rightarrow> task_item \<Rightarrow> task_state \<Rightarrow> task_state" where
  "raise_cutoff env ok t st =
     (case success_node env (ti_upid t) of
        None \<Rightarrow> st
      | Some node \<Rightarrow>
          if node_successful ok (ru_remote (ti_upid t)) node
          then update_cutoff_timestamp (ru_remote (ti_upid t)) node
                 (\<lambda>old. max (case old of None \<Rightarrow> 0 | Some c \<Rightarrow> c) (ti_starttime t)) st
          else st)"

definition lower_cutoff :: "upid_env \<Rightarrow> node_success_map \<Rightarrow> task_item \<Rightarrow> task_state \<Rightarrow> task_state" where
  "lower_cutoff env ok t st =
     (case success_node env (ti_upid t) of
        None \<Rightarrow> st
      | Some node \<Rightarrow>
          if node_successful ok (ru_remote (ti_upid t)) node
          then update_cutoff_timestamp (ru_remote (ti_upid t)) node
                 (\<lambda>old. min (case old of None \<Rightarrow> i64_max | Some c \<Rightarrow> c) (ti_starttime t)) st
          else st)"

definition journal_step ::
  "'j json \<Rightarrow> upid_env \<Rightarrow> node_success_map \<Rightarrow> task_item \<Rightarrow> active_map \<times> task_state \<Rightarrow>
     ('j, active_map \<times> task_state) cache_io" where
  "journal_step J env ok t acc =
     (case acc of (active, st) \<Rightarrow>
        let active' = al_del (ti_upid t) active
        in case native_upid env (ti_upid t) of
             Inl _ \<Rightarrow> io_return (active', st)
           | Inr _ \<Rightarrow>
               io_bind (append_journal J t) (\<lambda>_. io_return (active', raise_cutoff env ok t st)))"

definition open_journal :: "('j, unit) cache_io" where
  "open_journal =
     sys ''open journal'' (\<lambda>_. ())
       (\<lambda>s. s\<lparr>fs_journal := Some (case fs_journal s of None \<Rightarrow> ([], False) | Some j \<Rightarrow> j)\<rparr>)"

definition write_tasks_to_journal ::
  "'j json \<Rightarrow> upid_env \<Rightarrow> task_item list \<Rightarrow> active_map \<Rightarrow> node_success_map \<Rightarrow> task_state \<Rightarrow>
     ('j, active_map \<times> task_state) cache_io" where
  "write_tasks_to_journal J env finished active ok st =
     io_bind open_journal (\<lambda>_. io_bind (io_fold (journal_step J env ok) finished (active, st))
       (\<lambda>(active', st').
          io_bind (sys_unit ''fsync'')
            (\<lambda>_. io_return (active', fold (lower_cutoff env ok) (map snd active') st'))))"

definition active_map_of :: "remote_upid set \<Rightarrow> task_item list \<Rightarrow> active_map" where
  "active_map_of dropped ts =
     fold (\<lambda>t. al_put (ti_upid t) t) (filter (\<lambda>t. ti_upid t \<notin> dropped) ts) []"

definition update_cache ::
  "'j json \<Rightarrow> upid_env \<Rightarrow> cache_cfg \<Rightarrow> task_item list \<Rightarrow> node_success_map \<Rightarrow> remote_upid list \<Rightarrow>
     ('j, unit) cache_io" where
  "update_cache J env cfg new_tasks ok drop_tracked =
     io_bind (get_active_tasks J)
       (\<lambda>ts.
          let running = filter (\<lambda>t. ti_endtime t = None) new_tasks;
              finished = filter (\<lambda>t. ti_endtime t \<noteq> None) new_tasks;
              active = fold (\<lambda>t. al_put (ti_upid t) t) running (active_map_of (set drop_tracked) ts)
          in io_bind read_state
               (\<lambda>st. io_bind
                  (write_tasks_to_journal J env finished active ok (fold remove_tracked_task drop_tracked st))
                  (\<lambda>(active', st').
                     io_bind (write_active_tasks J (sort_by compare_tasks_reverse (map snd active')))
                       (\<lambda>_. io_bind (write_state st') (\<lambda>_. apply_journal_if_too_large J cfg)))))"

definition add_tracked_task :: "'j json \<Rightarrow> task_item \<Rightarrow> ('j, unit) cache_io" where
  "add_tracked_task J task =
     io_bind read_state
       (\<lambda>st. io_bind (get_active_tasks J)
          (\<lambda>ts. io_bind (write_active_tasks J (sort_by compare_tasks_reverse (ts @ [task])))
             (\<lambda>_. write_state (state_add_tracked_task (ti_upid task) st))))"

section \<open>Merging into the archive\<close>

text \<open>
  \<open>arch_at\<close>: the archive invariant holds, the listed files are \<open>L\<close>, the journal is \<open>jn\<close> and the tasks
  with the keys \<open>K\<close> can be read from the archive. \<open>batch_ok\<close>: the collected tasks belong to file \<open>c\<close>.
\<close>

definition arch_at ::
  "'j json \<Rightarrow> bool \<Rightarrow> archive_file list \<Rightarrow> ('j line list \<times> bool) option \<Rightarrow> (int \<times> str) set \<Rightarrow>
     'j task_fs \<Rightarrow> bool" where
  "arch_at J r L jn K s \<longleftrightarrow>
     cache_inv J r s \<and> listing s = L \<and> fs_journal s = jn \<and> K \<subseteq> task_key ` archived J s"

definition batch_ok :: "archive_file list \<Rightarrow> archive_file \<Rightarrow> task_item list \<Rightarrow> bool" where
  "batch_ok L c batch \<longleftrightarrow>
     sorted_tasks batch \<and>
     (\<forall>t \<in> set batch. af_starttime c \<le> ti_starttime t \<and>
        (\<forall>f \<in> set L. af_starttime c < af_starttime f \<longrightarrow> ti_starttime t < af_starttime f))"

lemma sched_free_arch_at [simp]: "sched_free (arch_at J r L jn K)"
  by (simp add: sched_free_def arch_at_def)

lemma arch_at_weaken: "arch_at J r L jn K s \<Longrightarrow> K' \<subseteq> K \<Longrightarrow> arch_at J r L jn K' s"
  by (auto simp: arch_at_def)

lemma listing_archives:
  assumes "c \<in> set (listing s)" and "al_get (fs_dir s) (af_name c) = Some ls"
  shows "(c, ls) \<in> archives s"
  using assms set_listing_subset [of s] by (auto simp: archives_def)

lemma archived_keys_put:
  assumes c: "c \<in> set (listing s)" and ls: "al_get (fs_dir s) (af_name c) = Some ls"
    and sub: "task_key ` set (file_tasks J ls) \<subseteq> task_key ` set (file_tasks J ls')"
  shows "task_key ` archived J s \<union> task_key ` set (file_tasks J ls') \<subseteq>
           task_key ` archived J (s\<lparr>fs_dir := al_put (af_name c) ls' (fs_dir s)\<rparr>)"
    (is "_ \<subseteq> task_key ` archived J ?s'")
proof -
  have L: "listing ?s' = listing s" by (rule listing_put [OF ls])
  have new: "set (file_tasks J ls') \<subseteq> archived J ?s'"
    using c by (auto simp: archived_def L al_get_put)
  have "task_key t \<in> task_key ` archived J ?s'" if t: "t \<in> archived J s" for t
  proof -
    from t obtain f l where f: "f \<in> set (listing s)" "al_get (fs_dir s) (af_name f) = Some l"
      "t \<in> set (file_tasks J l)" by (auto simp: archived_def)
    show ?thesis
    proof (cases "af_name f = af_name c")
      case True
      with f ls have "task_key t \<in> task_key ` set (file_tasks J ls)" by auto
      with sub new show ?thesis by blast
    next
      case False
      with f have "t \<in> archived J ?s'" by (auto simp: archived_def L al_get_put)
      then show ?thesis by (rule imageI)
    qed
  qed
  with new show ?thesis by blast
qed

lemma commit_merge:
  assumes J: "json_ok J" and s: "arch_at J r L jn K s" and c: "c \<in> set L"
    and ls: "al_get (fs_dir s) (af_name c) = Some ls" and b: "batch_ok L c batch"
  shows "arch_at J r L jn (K \<union> task_key ` set batch)
           (s\<lparr>fs_dir := al_put (af_name c)
                 (encode_tasks J (merge_tasks (file_tasks J ls) batch)) (fs_dir s)\<rparr>)"
    (is "arch_at J r L jn _ (s\<lparr>fs_dir := al_put _ ?ls' _\<rparr>)")
proof -
  from s c have L: "listing s = L" and inv: "cache_inv J r s" and cL: "c \<in> set (listing s)"
    by (auto simp: arch_at_def)
  have ar: "(c, ls) \<in> archives s" by (rule listing_archives [OF cL ls])
  with inv have ok: "file_ok J c ls" by (auto simp: cache_inv_def)
  have new: "file_tasks J ?ls' = merge_tasks (file_tasks J ls) batch" using J by simp
  have ok': "file_ok J c ?ls'"
    using ok b set_merge_subset [of "file_tasks J ls" batch]
    by (auto simp: file_ok_def new batch_ok_def intro: sorted_merge_tasks)
  have newer: "below_newer J ?ls' c (fst ` archives s)" if "r"
    unfolding below_newer_def
  proof (intro ballI impI)
    fix g t assume g: "g \<in> fst ` archives s" "af_starttime c < af_starttime g"
      and t: "t \<in> set (file_tasks J ?ls')"
    from t new have "t \<in> set (file_tasks J ls) \<or> t \<in> set batch"
      using set_merge_subset by fastforce
    moreover have "ti_starttime t < af_starttime g" if "t \<in> set (file_tasks J ls)"
      by (rule cache_inv_below [OF inv \<open>r\<close> ar g that])
    moreover have "ti_starttime t < af_starttime g" if "t \<in> set batch"
    proof -
      from g(1) have "af_starttime g \<in> af_starttime ` set L"
        using starts_listing [of s] L by auto
      with b g(2) that show ?thesis by (auto simp: batch_ok_def)
    qed
    ultimately show "ti_starttime t < af_starttime g" by blast
  qed
  have older: "\<forall>(g, l) \<in> archives s. af_starttime g < af_starttime c \<longrightarrow>
      (\<forall>t \<in> set (file_tasks J l). ti_starttime t < af_starttime c)" if "r"
    using cache_inv_below [OF inv that _ image_eqI [OF _ ar]] by auto
  have keys: "task_key ` set (file_tasks J ?ls') =
      task_key ` set (file_tasks J ls) \<union> task_key ` set batch"
    by (simp add: new keys_merge_tasks)
  show ?thesis
    using s cache_inv_put [OF inv ok' newer older] archived_keys_put [OF cL ls, of J ?ls'] keys
    by (auto simp: arch_at_def listing_put [OF ls])
qed

lemma merge_single_triple:
  assumes J: "json_ok J" and c: "c \<in> set L" and b: "batch_ok L c batch"
  shows "io_triple (arch_at J r L jn K) (merge_single_archive_file J batch c)
           (\<lambda>_. arch_at J r L jn (K \<union> task_key ` set batch)) (arch_at J r L jn K)"
proof (cases "batch = []")
  case True
  then show ?thesis by (simp add: merge_single_archive_file_def io_triple_return)
next
  case False
  let ?P = "arch_at J r L jn K"
  let ?R = "\<lambda>items s. ?P s \<and> (\<exists>ls. al_get (fs_dir s) (af_name c) = Some ls \<and> items = archive_items J ls)"
  have free: "sched_free (?R items)" for items
    using sched_free_arch_at [of J r L jn K] by (auto simp: sched_free_def)
  have rest: "io_triple (?R items)
      (io_bind (write_tasks J (merge_tasks (oks items) batch))
        (\<lambda>ls. io_bind (commit c ls)
           (\<lambda>_. io_return (if 0 < errors items then Corrupted else Valid))))
      (\<lambda>_. arch_at J r L jn (K \<union> task_key ` set batch)) ?P" for items
    apply (rule io_triple_bind, rule io_triple_write_tasks [OF free], simp)
    apply (rule io_triple_pure, rule io_triple_bind, rule io_triple_commit [OF free], simp)
     apply (elim conjE exE, hypsubst, fold file_tasks_def, erule (1) commit_merge [OF J _ c _ b])
    by (rule io_triple_return)
  show ?thesis
    using False unfolding merge_single_archive_file_def if_False
    apply simp
    apply (rule io_triple_bind, rule io_triple_writer, simp, assumption)
    apply (rule io_triple_bind, rule io_triple_iter, simp, assumption)
    apply (rule io_triple_case_option)
     apply (rule io_triple_fail, simp)
    by (rule io_triple_conseq [OF rest]) auto
qed

text \<open>
  The loop of \<open>merge_tasks_into_archive\<close> over the files \<open>L\<close> with the tasks \<open>ts\<close> still to come: the
  collected tasks belong to the current file and the coming tasks to it or to older files.
\<close>

definition loop_ok :: "archive_file list \<Rightarrow> task_item list \<Rightarrow> merge_loop \<Rightarrow> bool" where
  "loop_ok L ts l \<longleftrightarrow>
     (case l of (cur, rest, batch, _) \<Rightarrow>
        (case cur of
           None \<Rightarrow> L = [] \<and> rest = []
         | Some c \<Rightarrow>
             \<exists>pre. L = pre @ c # rest \<and> batch_ok L c batch \<and> sorted_tasks (batch @ ts) \<and>
                   (\<forall>t \<in> set ts. \<forall>f \<in> set pre. ti_starttime t < af_starttime f)))"

definition loop_batch :: "merge_loop \<Rightarrow> task_item list" where
  "loop_batch l = (case l of (_, _, batch, _) \<Rightarrow> batch)"

lemma loop_batch_simp [simp]: "loop_batch (cur, rest, batch, corrupted) = batch"
  by (simp add: loop_batch_def)

definition keeps :: "archive_file list \<Rightarrow> task_item \<Rightarrow> bool" where
  "keeps L t \<longleftrightarrow> L \<noteq> [] \<and> af_starttime (last L) \<le> ti_starttime t"

abbreviation merge_at where
  "merge_at J r L jn K T batch \<equiv> arch_at J r L jn (K \<union> (T - task_key ` set batch))"

lemma loop_ok_advance:
  assumes "loop_ok L (task # ts) (Some c, f # fs, batch, corrupted)"
    and "ti_starttime task < af_starttime c"
  shows "loop_ok L (task # ts) (Some f, fs, [], corrupted')"
proof -
  from assms(1) obtain pre where pre: "L = pre @ c # f # fs" "sorted_tasks (task # ts)"
    "\<forall>t \<in> set (task # ts). \<forall>g \<in> set pre. ti_starttime t < af_starttime g"
    by (auto simp: loop_ok_def sorted_tasks_append)
  have "ti_starttime t < af_starttime c" if "t \<in> set (task # ts)" for t
    using that assms(2) sorted_tasks_start [OF pre(2), of t] by auto
  with pre have "\<forall>t \<in> set (task # ts). \<forall>g \<in> set (pre @ [c]). ti_starttime t < af_starttime g"
    by auto
  with pre show ?thesis
    by (auto simp: loop_ok_def batch_ok_def intro!: exI [of _ "pre @ [c]"])
qed

lemma merge_advance_triple:
  "json_ok J \<Longrightarrow> loop_ok L (task # ts) (cur, rest, batch, corrupted) \<Longrightarrow>
         io_triple (merge_at J r L jn K T batch) (merge_advance J task cur rest batch corrupted)
           (\<lambda>l s. (loop_ok L (task # ts) l \<and>
                   (case l of (cur', rest', _, _) \<Rightarrow>
                      \<forall>c. cur' = Some c \<longrightarrow> af_starttime c \<le> ti_starttime task \<or> rest' = [])) \<and>
                  merge_at J r L jn K T (loop_batch l) s)
           (arch_at J r L jn K)"
proof (induction J task cur rest batch corrupted rule: merge_advance.induct)
  case (1 J task cur batch corrupted)
  then show ?case by (auto intro: io_triple_return)
next
  case (2 J task f fs batch corrupted)
  then show ?case by (simp add: loop_ok_def)
next
  case (3 J task c f fs batch corrupted)
  show ?case
  proof (cases "af_starttime c \<le> ti_starttime task")
    case True
    with 3 show ?thesis by (auto intro: io_triple_return)
  next
    case False
    then have ok: "loop_ok L (task # ts) (Some f, fs, [], x)" for x
      using 3(3) loop_ok_advance by force
    from 3(3) have c: "c \<in> set L" "batch_ok L c batch" by (auto simp: loop_ok_def)
    have single: "io_triple (merge_at J r L jn K T batch) (merge_single_archive_file J batch c)
        (\<lambda>_. merge_at J r L jn K T []) (arch_at J r L jn K)"
      by (rule io_triple_conseq
            [OF merge_single_triple [OF 3(2) c, where K = "K \<union> (T - task_key ` set batch)"]])
        (auto intro: arch_at_weaken)
    show ?thesis
      by (simp only: merge_advance.simps False if_False)
        (rule io_triple_bind [OF single], rule 3(1) [OF False 3(2) ok])
  qed
qed

lemma loop_ok_collect:
  assumes ok: "loop_ok L (task # ts) l" and sorted: "sorted_wrt (\<lambda>f g. af_starttime g < af_starttime f) L"
  shows "loop_ok L ts (merge_collect task l)"
proof -
  obtain cur rest batch corrupted where l: "l = (cur, rest, batch, corrupted)"
    by (cases l)
  show ?thesis
  proof (cases cur)
    case None
    with ok l show ?thesis by (simp add: loop_ok_def merge_collect_def)
  next
    case (Some c)
    with ok l obtain pre where pre: "L = pre @ c # rest" "batch_ok L c batch"
      "sorted_tasks (batch @ task # ts)"
      "\<forall>t \<in> set (task # ts). \<forall>g \<in> set pre. ti_starttime t < af_starttime g"
      by (auto simp: loop_ok_def)
    have "f \<in> set pre" if "f \<in> set L" "af_starttime c < af_starttime f" for f
      using that sorted by (auto simp: pre(1) sorted_wrt_append)
    with pre have "batch_ok L c (batch @ [task])" if "af_starttime c \<le> ti_starttime task"
      using that by (auto simp: batch_ok_def sorted_tasks_append)
    with pre Some l show ?thesis
      by (auto simp: loop_ok_def merge_collect_def sorted_tasks_append)
  qed
qed

lemma collect_keeps:
  assumes ok: "loop_ok L (task # ts) l"
    and adv: "case l of (cur, rest, _, _) \<Rightarrow>
                \<forall>c. cur = Some c \<longrightarrow> af_starttime c \<le> ti_starttime task \<or> rest = []"
    and "keeps L task"
  shows "task \<in> set (loop_batch (merge_collect task l))"
  using assms
  by (cases l) (auto simp: loop_ok_def keeps_def merge_collect_def split: option.splits)

lemma loop_batch_collect: "set (loop_batch l) \<subseteq> set (loop_batch (merge_collect task l))"
  by (cases l) (auto simp: merge_collect_def)

lemma merge_step_triple:
  assumes J: "json_ok J" and sorted: "sorted_wrt (\<lambda>f g. af_starttime g < af_starttime f) L"
    and ok: "loop_ok L (task # ts) l"
  shows "io_triple (merge_at J r L jn K T (loop_batch l)) (merge_step J task l)
           (\<lambda>l' s. loop_ok L ts l' \<and>
              merge_at J r L jn K (T \<union> {task_key t |t. t = task \<and> keeps L t}) (loop_batch l') s)
           (arch_at J r L jn K)"
proof -
  obtain cur rest batch corrupted where l: "l = (cur, rest, batch, corrupted)"
    by (cases l)
  show ?thesis
    unfolding merge_step_def l prod.case loop_batch_simp
    apply (rule io_triple_bind [OF merge_advance_triple [OF J ok [unfolded l]]])
    apply (rule io_triple_pure, rule io_triple_return)
    apply (intro conjI)
     apply (rule loop_ok_collect [OF _ sorted], simp)
    apply (erule arch_at_weaken)
    using loop_batch_collect collect_keeps by blast
qed

lemma merge_fold_triple:
  assumes J: "json_ok J" and sorted: "sorted_wrt (\<lambda>f g. af_starttime g < af_starttime f) L"
  shows "loop_ok L ts l \<Longrightarrow>
         io_triple (merge_at J r L jn K T (loop_batch l)) (io_fold (merge_step J) ts l)
           (\<lambda>l' s. loop_ok L [] l' \<and>
              merge_at J r L jn K (T \<union> task_key ` {t \<in> set ts. keeps L t}) (loop_batch l') s)
           (arch_at J r L jn K)"
proof (induction ts arbitrary: l T)
  case Nil
  then show ?case by (auto intro: io_triple_return)
next
  case (Cons task ts)
  have eq: "T \<union> {task_key t |t. t = task \<and> keeps L t} \<union> task_key ` {t \<in> set ts. keeps L t} =
      T \<union> task_key ` {t \<in> set (task # ts). keeps L t}" by auto
  show ?case
    unfolding io_fold.simps
    apply (rule io_triple_bind [OF merge_step_triple [OF J sorted Cons.prems]])
    apply (rule io_triple_pure)
    apply (drule Cons.IH [where T = "T \<union> {task_key t |t. t = task \<and> keeps L t}"])
    by (simp only: eq)
qed

lemma io_triple_archive_files:
  "io_triple (arch_at J r L jn K) archive_files
     (\<lambda>fs s. (fs = L \<and> sorted_wrt (\<lambda>f g. af_starttime g < af_starttime f) L) \<and> arch_at J r L jn K s)
     (arch_at J r L jn K)"
  unfolding archive_files_def archive_files_with_dupes_def
  apply (rule io_triple_bind, rule io_triple_sys [where
        Q = "\<lambda>fs s. dedup_archives fs = L \<and> arch_at J r L jn K s"])
  by (auto simp: arch_at_def listing_def [symmetric] intro!: io_triple_return)
    (metis sorted_listing)

text \<open>
  After a successful merge every given task that is not older than the oldest file can be read
  from the archive; on every path what could be read before can still be read.
\<close>

lemma merge_last_triple:
  assumes J: "json_ok J" and c: "c \<in> set L" "batch_ok L c batch"
  shows "io_triple (merge_at J r L jn K T batch)
           (io_bind (merge_single_archive_file J batch c)
              (\<lambda>st. io_return (if st = Corrupted then corrupted @ [c] else corrupted)))
           (\<lambda>_. arch_at J r L jn (K \<union> T)) (arch_at J r L jn K)"
proof -
  have "io_triple (merge_at J r L jn K T batch) (merge_single_archive_file J batch c)
      (\<lambda>_. arch_at J r L jn (K \<union> T)) (arch_at J r L jn K)"
    by (rule io_triple_conseq
          [OF merge_single_triple [OF J c, where K = "K \<union> (T - task_key ` set batch)"]])
      (auto intro: arch_at_weaken)
  then show ?thesis
    by (rule io_triple_bind) (rule io_triple_return)
qed

lemma merge_into_archive_triple:
  assumes J: "json_ok J" and ts: "sorted_tasks ts"
  shows "io_triple (arch_at J r L jn K) (merge_tasks_into_archive J ts)
           (\<lambda>_. arch_at J r L jn (K \<union> task_key ` {t \<in> set ts. keeps L t})) (arch_at J r L jn K)"
    (is "io_triple _ _ (\<lambda>_. arch_at J r L jn (K \<union> ?T)) _")
proof -
  define l0 :: merge_loop where
    "l0 = (case L of [] \<Rightarrow> (None, [], [], []) | f # fs \<Rightarrow> (Some f, fs, [], []))"
  have ok0: "loop_ok L ts l0" and l0: "loop_batch l0 = []"
    using ts by (auto simp: l0_def loop_ok_def batch_ok_def split: list.splits)
  have last: "io_triple (merge_at J r L jn K ?T (loop_batch l))
      (case l of (cur, _, batch, corrupted) \<Rightarrow>
         (case cur of None \<Rightarrow> io_return corrupted
          | Some c \<Rightarrow> io_bind (merge_single_archive_file J batch c)
              (\<lambda>st. io_return (if st = Corrupted then corrupted @ [c] else corrupted))))
      (\<lambda>_. arch_at J r L jn (K \<union> ?T)) (arch_at J r L jn K)" if "loop_ok L [] l" for l
    using that
    by (cases l) (auto simp: loop_ok_def keeps_def intro: merge_last_triple [OF J]
        intro!: io_triple_return split: option.splits)
  have fold: "io_triple (arch_at J r L jn K) (io_fold (merge_step J) ts l0)
      (\<lambda>l s. loop_ok L [] l \<and> merge_at J r L jn K ?T (loop_batch l) s) (arch_at J r L jn K)"
    if "sorted_wrt (\<lambda>f g. af_starttime g < af_starttime f) L"
    using merge_fold_triple [OF J that ok0, where T = "{}" and K = K and r = r and jn = jn] l0
    by simp
  show ?thesis
    unfolding merge_tasks_into_archive_def
    by (rule io_triple_bind [OF io_triple_archive_files], rule io_triple_pure, elim conjE, simp only:,
        fold l0_def, rule io_triple_bind [OF fold], assumption, rule io_triple_pure, rule last)
qed

section \<open>Applying the journal\<close>

text \<open>\<open>recorded\<close>: the tasks with these keys can be read from the archive or from the journal.\<close>

definition journal_tasks :: "'j json \<Rightarrow> 'j task_fs \<Rightarrow> task_item list" where
  "journal_tasks J s = (case fs_journal s of None \<Rightarrow> [] | Some (ls, _) \<Rightarrow> file_tasks J ls)"

definition recorded :: "'j json \<Rightarrow> 'j task_fs \<Rightarrow> (int \<times> str) set" where
  "recorded J s = task_key ` archived J s \<union> task_key ` set (journal_tasks J s)"

lemma set_journal_items [simp]: "set (journal_items J ls) = set (file_tasks J ls)"
  by (simp add: journal_items_def file_tasks_def)

lemma sorted_journal_items: "sorted_tasks (journal_items J ls)"
  by (simp add: journal_items_def sorted_dedup_tasks sorted_sort_tasks)

lemma io_triple_read_state:
  "sched_free P \<Longrightarrow> io_triple P read_state (\<lambda>_. P) E"
  unfolding read_state_def
  by (rule io_triple_bind, rule io_triple_try, rule io_triple_sys [where Q = "\<lambda>_. P" and E = P])
    (auto intro!: io_triple_return split: sum.splits)

lemma io_triple_write_state:
  assumes "sched_free P" and "\<And>s. P s \<Longrightarrow> E s" and "\<And>s. P s \<Longrightarrow> Q () (s\<lparr>fs_state := GoodState st\<rparr>)"
  shows "io_triple P (write_state st) Q E"
  unfolding write_state_def by (rule io_triple_sys) (use assms in auto)

lemma io_triple_repair:
  assumes "sched_free P" and "\<And>s. P s \<Longrightarrow> E s" and "\<And>s st. P s \<Longrightarrow> P (s\<lparr>fs_state := st\<rparr>)"
  shows "io_triple P (request_repair fs) (\<lambda>_. P) E"
  unfolding request_repair_def Let_def
  by (intro io_triple_if io_triple_return io_triple_bind [OF io_triple_read_state [OF assms(1)]]
      io_triple_write_state assms) auto

text \<open>The journal is truncated only after everything in it was merged.\<close>

lemma apply_journal_triple:
  assumes J: "json_ok J"
  shows "io_triple (\<lambda>s. cache_inv J r s \<and> listing s = L \<and> K \<subseteq> recorded J s) (apply_journal J)
           (\<lambda>_ s. cache_inv J r s \<and> listing s = L \<and>
                  (\<forall>k \<in> K. k \<in> recorded J s \<or> (\<forall>f \<in> set L. - fst k < af_starttime f)))
           (\<lambda>s. cache_inv J r s \<and> listing s = L \<and>
                  (\<forall>k \<in> K. k \<in> recorded J s \<or> (\<forall>f \<in> set L. - fst k < af_starttime f)))"
    (is "io_triple ?P _ (\<lambda>_. ?Q) _")
proof -
  let ?A = "\<lambda>jn. arch_at J r L jn (K - task_key ` set (case jn of None \<Rightarrow> [] | Some (ls, _) \<Rightarrow> file_tasks J ls))"
  have before: "?P s \<Longrightarrow> ?A (fs_journal s) s" for s
    by (auto simp: arch_at_def recorded_def journal_tasks_def)
  have kept: "?A jn s \<Longrightarrow> ?Q s" for jn s
    by (auto simp: arch_at_def recorded_def journal_tasks_def)
  have old: "- fst (task_key t) < af_starttime f"
    if "\<not> keeps L t" "f \<in> set L" "sorted_wrt (\<lambda>f g. af_starttime g < af_starttime f) L" for t f
  proof -
    from that(2,3) have "af_starttime (last L) \<le> af_starttime f"
      by (cases L rule: rev_cases) (auto simp: sorted_wrt_append intro: order_less_imp_le)
    with that(1,2) show ?thesis by (auto simp: keeps_def task_key_def)
  qed
  have final: "arch_at J r L jn (K - task_key ` set ts \<union> task_key ` {t \<in> set ts. keeps L t}) s \<Longrightarrow>
      ?Q (s\<lparr>fs_journal := j\<rparr>)" for jn ts s j
  proof -
    assume at: "arch_at J r L jn (K - task_key ` set ts \<union> task_key ` {t \<in> set ts. keeps L t}) s"
    then have L: "listing s = L" and sub: "K - task_key ` set ts \<union> task_key ` {t \<in> set ts. keeps L t}
        \<subseteq> task_key ` archived J s" by (auto simp: arch_at_def)
    have "k \<in> task_key ` archived J s \<or> (\<forall>f \<in> set L. - fst k < af_starttime f)" if "k \<in> K" for k
      using sub old sorted_listing [of s] that unfolding L by blast
    with at show ?thesis by (auto simp: arch_at_def recorded_def)
  qed
  have free: "sched_free ?Q"
    by (auto simp: sched_free_def recorded_def journal_tasks_def)
  have repair: "io_triple ?Q (if c = [] then io_return () else request_repair c) (\<lambda>_. ?Q) ?Q" for c
    by (intro io_triple_if io_triple_return io_triple_repair free)
      (auto simp: recorded_def journal_tasks_def)
  have merge: "io_triple (?A (Some (ls, b)))
      (io_bind (merge_tasks_into_archive J (journal_items J ls))
        (\<lambda>corrupted. io_bind truncate_journal
           (\<lambda>_. if corrupted = [] then io_return () else request_repair corrupted)))
      (\<lambda>_. ?Q) ?Q" for ls b
  proof (rule io_triple_bind)
    let ?K = "K - task_key ` set (file_tasks J ls)"
    let ?R = "arch_at J r L (Some (ls, b)) (?K \<union> task_key ` {t \<in> set (file_tasks J ls). keeps L t})"
    have "io_triple (arch_at J r L (Some (ls, b)) ?K) (merge_tasks_into_archive J (journal_items J ls))
        (\<lambda>_. ?R) (arch_at J r L (Some (ls, b)) ?K)"
      using merge_into_archive_triple [OF J sorted_journal_items [of J ls]] by simp
    then show "io_triple (?A (Some (ls, b))) (merge_tasks_into_archive J (journal_items J ls))
        (\<lambda>_. ?R) ?Q"
      by (rule io_triple_conseq) (use kept [of "Some (ls, b)"] in simp_all)
    have "io_triple ?R truncate_journal (\<lambda>_. ?Q) ?Q"
      unfolding truncate_journal_def
    proof (rule io_triple_sys)
      fix s assume "?R s"
      then show "?Q (s\<lparr>fs_journal := Some ([], False)\<rparr>)" by (rule final)
    next
      fix s assume "?R s"
      then have "?A (Some (ls, b)) s" by (auto intro: arch_at_weaken)
      then show "?Q s" by (rule kept)
    qed simp
    then show "io_triple ?R (io_bind truncate_journal
        (\<lambda>_. if c = [] then io_return () else request_repair c)) (\<lambda>_. ?Q) ?Q" for c
      by (rule io_triple_bind) (rule repair)
  qed
  show ?thesis
    unfolding apply_journal_def
  proof (rule io_triple_bind)
    show "io_triple ?P (sys ''open journal'' fs_journal (\<lambda>s. s)) ?A ?Q"
      by (rule io_triple_sys)
        (use before in \<open>auto simp: sched_free_def recorded_def journal_tasks_def\<close>)
    show "io_triple (?A j) (case j of None \<Rightarrow> io_return () | Some (ls, _) \<Rightarrow>
        io_bind (merge_tasks_into_archive J (journal_items J ls))
          (\<lambda>corrupted. io_bind truncate_journal
             (\<lambda>_. if corrupted = [] then io_return () else request_repair corrupted))) (\<lambda>_. ?Q) ?Q" for j
    proof (cases j)
      case None
      then show ?thesis using kept [of None] by (auto intro: io_triple_return)
    next
      case (Some jl)
      with merge show ?thesis by (cases jl) simp
    qed
  qed
qed

section \<open>Every operation keeps the archive invariant\<close>

lemma sched_free_inv [simp]: "sched_free (cache_inv J r)"
  by (simp add: sched_free_def)

lemma io_inv_sys [io_inv_intros]:
  "sched_free I \<Longrightarrow> (\<And>s. I s \<Longrightarrow> I (w s)) \<Longrightarrow> io_inv I (sys call r w)"
  unfolding io_inv_triple by (rule io_triple_sys) auto

lemma io_inv_writer [io_inv_intros]: "sched_free I \<Longrightarrow> io_inv I (file_writer f)"
  unfolding io_inv_triple by (rule io_triple_writer)

lemma io_inv_iter [io_inv_intros]: "sched_free I \<Longrightarrow> io_inv I (file_iter J f)"
  unfolding file_iter_def by (intro io_inv_intros)

lemma io_inv_write_tasks [io_inv_intros]: "sched_free I \<Longrightarrow> io_inv I (write_tasks J ts)"
  unfolding write_tasks_def by (intro io_inv_intros)

lemma io_inv_archive_files [io_inv_intros]: "sched_free I \<Longrightarrow> io_inv I archive_files"
  unfolding archive_files_def archive_files_with_dupes_def by (intro io_inv_intros)

lemma io_inv_read_state [io_inv_intros]: "sched_free I \<Longrightarrow> io_inv I read_state"
  unfolding io_inv_triple by (rule io_triple_read_state)

lemma io_inv_write_state [io_inv_intros]: "io_inv (cache_inv J r) (write_state st)"
  unfolding write_state_def by (intro io_inv_intros) simp_all

lemma io_inv_repair [io_inv_intros]: "io_inv (cache_inv J r) (request_repair fs)"
  unfolding request_repair_def Let_def by (intro io_inv_intros) simp

lemma io_inv_remove [io_inv_intros]: "io_inv (cache_inv J r) (remove_file n)"
  unfolding remove_file_def by (intro io_inv_intros) (simp_all add: cache_inv_del)

lemma io_inv_commit:
  "(\<And>s. cache_inv J r s \<Longrightarrow> cache_inv J r (s\<lparr>fs_dir := al_put (af_name f) ls (fs_dir s)\<rparr>)) \<Longrightarrow>
   io_inv (cache_inv J r) (commit f ls)"
  unfolding commit_def by (intro io_inv_intros) simp_all

lemma io_inv_apply_journal [io_inv_intros]:
  assumes "json_ok J"
  shows "io_inv (cache_inv J r) (apply_journal J)"
  unfolding io_inv_def
proof (intro allI impI)
  fix s :: "'a task_fs" assume s: "cache_inv J r s"
  with io_triple_sndD [OF apply_journal_triple [OF assms, of r "listing s" "{}"]]
  show "cache_inv J r (snd (apply_journal J s))" by simp
qed

lemma io_inv_apply_if_too_large [io_inv_intros]:
  "json_ok J \<Longrightarrow> io_inv (cache_inv J r) (apply_journal_if_too_large J cfg)"
  unfolding apply_journal_if_too_large_def journal_size_def
  by (intro io_inv_intros) simp_all

lemma io_inv_new_file [io_inv_intros]:
  assumes "in_i64 now"
  shows "io_inv (cache_inv J False) (new_file now c)"
  unfolding new_file_def Let_def
  by (intro io_inv_intros io_inv_commit cache_inv_put)
    (use assms in \<open>simp_all add: file_ok_def canonical_def file_tasks_def\<close>)

lemma io_inv_init: "io_inv (cache_inv J False) (init_cache cfg now)"
  unfolding init_cache_def by (intro io_inv_intros) simp_all

lemma io_inv_compress [io_inv_intros]:
  assumes J: "json_ok J" and can: "canonical f"
  shows "io_inv (cache_inv J r) (compress_archive_file J f)"
proof -
  let ?nf = "set_compressed True f"
  let ?R = "\<lambda>items s. cache_inv J r s \<and>
              (\<exists>ls. (f, ls) \<in> archives s \<and> items = archive_items J ls)"
  have put: "cache_inv J r (s\<lparr>fs_dir := al_put (af_name ?nf) (encode_tasks J (oks items)) (fs_dir s)\<rparr>)"
    if "?R items s" for items s
  proof -
    from that obtain ls where inv: "cache_inv J r s" and ls: "(f, ls) \<in> archives s"
      and items: "items = archive_items J ls" by blast
    have tasks: "file_tasks J (encode_tasks J (oks items)) = file_tasks J ls"
      using J items by (simp add: file_tasks_def [symmetric])
    have start: "af_starttime ?nf = af_starttime f" by (simp add: set_compressed_def)
    have ok: "file_ok J ?nf (encode_tasks J (oks items))"
      using cache_inv_file [OF inv ls] canonical_set_compressed [OF can] start
      unfolding file_ok_def tasks by auto
    show ?thesis
      using cache_inv_below [OF inv] ls
      by (intro cache_inv_put [OF inv ok]) (force simp: below_newer_def tasks start)+
  qed
  have free: "sched_free (?R items)" for items by (auto simp: sched_free_def)
  have rest: "io_triple (?R items)
      (io_bind (file_writer ?nf) (\<lambda>_. io_bind (write_tasks J (oks items))
         (\<lambda>ls. io_bind (commit ?nf ls) (\<lambda>_. io_bind (remove_file (af_name f))
            (\<lambda>_. io_return (if 0 < errors items then Corrupted else Valid))))))
      (\<lambda>_. cache_inv J r) (cache_inv J r)" for items
    apply (rule io_triple_bind, rule io_triple_writer [OF free], simp)
    apply (rule io_triple_bind, rule io_triple_write_tasks [OF free], simp)
    apply (rule io_triple_pure, simp only:)
    apply (rule io_triple_bind, rule io_triple_commit [OF free], simp, erule put)
    by (intro io_inv_intros [unfolded io_inv_triple])
  show ?thesis
    unfolding io_inv_triple compress_archive_file_def Let_def
    apply (rule io_triple_bind, rule io_triple_iter, simp, assumption)
    apply (rule io_triple_case_option, rule io_triple_fail, simp)
    by (rule io_triple_conseq [OF rest])
      (auto simp: archives_def parse_canonical [OF can])
qed

lemma io_triple_inv: "io_inv I m \<Longrightarrow> io_triple I m (\<lambda>_. I) I"
  by (simp add: io_inv_triple)

definition all_canonical :: "archive_file list \<Rightarrow> bool" where
  "all_canonical fs \<longleftrightarrow> (\<forall>f \<in> set fs. canonical f)"

lemma cache_inv_canonical: "cache_inv J r s \<Longrightarrow> all_canonical (list_archives s)"
  by (auto simp: all_canonical_def set_list_archives cache_inv_def file_ok_def)

lemma io_triple_dupes:
  "io_triple (cache_inv J r) archive_files_with_dupes (\<lambda>fs s. all_canonical fs \<and> cache_inv J r s)
     (cache_inv J r)"
  unfolding archive_files_with_dupes_def
  by (rule io_triple_sys) (auto intro: cache_inv_canonical)

lemma io_triple_drop_dupe:
  assumes "canonical f" and "all_canonical kept"
  shows "io_triple (cache_inv J r) (drop_dupe f kept) (\<lambda>fs s. all_canonical fs \<and> cache_inv J r s)
           (cache_inv J r)"
  unfolding drop_dupe_def
  by (rule io_triple_if, rule io_triple_return, simp add: all_canonical_def, use assms in \<open>auto simp: all_canonical_def\<close>)
    (rule io_triple_bind [OF io_triple_inv], auto intro!: io_inv_intros io_triple_return)

lemma io_triple_new_file:
  assumes "in_i64 now"
  shows "io_triple (cache_inv J False) (new_file now c)
           (\<lambda>f s. canonical f \<and> cache_inv J False s) (cache_inv J False)"
  unfolding new_file_def Let_def
  apply (rule io_triple_bind [OF io_triple_inv], intro io_inv_intros, simp)
  apply (rule io_triple_bind [OF io_triple_inv], intro io_inv_commit cache_inv_put)
  by (use assms in \<open>auto simp: file_ok_def canonical_def file_tasks_def intro: io_triple_return\<close>)

lemma io_triple_start_new_file:
  assumes "json_ok J" and "in_i64 now" and "all_canonical fs"
  shows "io_triple (cache_inv J False) (start_new_file J cfg now fs)
           (\<lambda>fs s. all_canonical fs \<and> cache_inv J False s) (cache_inv J False)"
  unfolding start_new_file_def
  apply (rule io_triple_bind [OF io_triple_new_file [OF assms(2)]], rule io_triple_pure)
  apply (rule io_triple_bind [OF io_triple_inv [OF io_inv_apply_journal [OF assms(1)]]])
  by (rule io_triple_return) (use assms(3) in \<open>simp add: all_canonical_def\<close>)

lemma io_triple_trim:
  "all_canonical fs \<Longrightarrow>
   io_triple (cache_inv J r) (trim_files cfg fs) (\<lambda>fs s. all_canonical fs \<and> cache_inv J r s)
     (cache_inv J r)"
proof (induction cfg fs rule: trim_files.induct)
  case (1 cfg fs)
  then show ?case
    apply (subst trim_files.simps)
    apply (rule io_triple_if, rule io_triple_return, simp)
    apply (rule io_triple_bind [OF io_triple_inv [OF io_inv_remove]])
    by (auto simp: all_canonical_def dest: in_set_butlastD)
qed

lemma io_triple_compress_all:
  assumes "json_ok J" and "all_canonical fs"
  shows "io_triple (cache_inv J r) (io_fold (compress_step J) fs c) (\<lambda>_ s. cache_inv J r s)
           (cache_inv J r)"
proof -
  have "io_triple (cache_inv J r) (compress_step J f c) (\<lambda>_ s. True \<and> cache_inv J r s)
      (cache_inv J r)" if "f \<in> set fs" for f c
    unfolding compress_step_def
    using that assms io_triple_inv [OF io_inv_compress]
    by (auto simp: all_canonical_def intro!: io_triple_return io_triple_bind [where R = "\<lambda>_. cache_inv J r"])
  from io_triple_fold [where I = "\<lambda>_. True", OF this] show ?thesis by simp
qed

lemma io_inv_rotate:
  assumes J: "json_ok J" and now: "in_i64 now"
  shows "io_inv (cache_inv J False) (rotate_cache J cfg now)"
  unfolding rotate_cache_def io_inv_triple Let_def
  apply (rule io_triple_bind [OF io_triple_dupes], rule io_triple_pure)
  apply (rule io_triple_bind [OF io_triple_fold [where I = all_canonical], OF io_triple_drop_dupe])
     apply (auto simp: all_canonical_def)[3]
  apply (rule io_triple_pure)
  apply (rule io_triple_bind [where R = "\<lambda>fs s. all_canonical fs \<and> cache_inv J False s"])
   apply (intro io_triple_if io_triple_start_new_file [OF J now] io_triple_return; simp)
  apply (rule io_triple_pure)
  apply (rule io_triple_bind [OF io_triple_trim], assumption)
  apply (rule io_triple_pure)
  apply (rule io_triple_bind [OF io_triple_compress_all [OF J]])
   apply (auto simp: all_canonical_def dest: in_set_dropD)[1]
  by (rule io_triple_inv) (intro io_inv_intros)

lemma io_inv_get_tasks [io_inv_intros]: "sched_free I \<Longrightarrow> io_inv I (get_tasks_impl J mode)"
  unfolding get_tasks_impl_def task_archive_iterator_def drain_files_def drain_file_def
  by (cases mode) (auto intro!: io_inv_intros split: prod.splits)

lemma io_inv_get_active [io_inv_intros]: "sched_free I \<Longrightarrow> io_inv I (get_active_tasks J)"
  unfolding get_active_tasks_def by (intro io_inv_intros)

lemma io_inv_write_active [io_inv_intros]: "io_inv (cache_inv J r) (write_active_tasks J ts)"
  unfolding write_active_tasks_def
  by (intro io_inv_intros io_inv_commit)
    (simp_all add: active_file_def cache_inv_put_other)

lemma io_inv_append [io_inv_intros]: "io_inv (cache_inv J r) (append_journal J t)"
  by (auto simp: io_inv_def append_journal_def Let_def split: list.splits fault.splits option.splits)

lemma io_inv_write_journal [io_inv_intros]:
  "io_inv (cache_inv J r) (write_tasks_to_journal J env ts active ok st)"
  unfolding write_tasks_to_journal_def open_journal_def journal_step_def Let_def
  by (intro io_inv_intros) simp_all

lemma io_inv_update [io_inv_intros]:
  "json_ok J \<Longrightarrow> io_inv (cache_inv J r) (update_cache J env cfg new ok dropped)"
  unfolding update_cache_def Let_def by (intro io_inv_intros) simp_all

lemma io_inv_add_tracked [io_inv_intros]: "io_inv (cache_inv J r) (add_tracked_task J t)"
  unfolding add_tracked_task_def by (intro io_inv_intros) simp_all

section \<open>The cache as a state machine\<close>

datatype cache_op =
    Init int
  | Rotate int
  | ApplyJournal
  | Update "task_item list" node_success_map "remote_upid list"
  | AddTracked task_item
  | Repair "archive_file list"

fun run_op :: "'j json \<Rightarrow> upid_env \<Rightarrow> cache_cfg \<Rightarrow> cache_op \<Rightarrow> ('j, unit) cache_io" where
  "run_op J env cfg (Init now) = init_cache cfg now"
| "run_op J env cfg (Rotate now) = io_bind (rotate_cache J cfg now) (\<lambda>_. io_return ())"
| "run_op J env cfg ApplyJournal = apply_journal J"
| "run_op J env cfg (Update new ok dropped) = update_cache J env cfg new ok dropped"
| "run_op J env cfg (AddTracked t) = add_tracked_task J t"
| "run_op J env cfg (Repair fs) = request_repair fs"

fun op_ok :: "cache_op \<Rightarrow> bool" where
  "op_ok (Rotate now) \<longleftrightarrow> in_i64 now"
| "op_ok _ \<longleftrightarrow> True"

text \<open>A directory without archives is a start state; a step is any operation, with any clock value,
  under any pattern of failing system calls.\<close>

inductive cache_reachable :: "'j json \<Rightarrow> upid_env \<Rightarrow> cache_cfg \<Rightarrow> 'j task_fs \<Rightarrow> bool"
  for J env cfg where
  start: "al_keys_distinct (fs_dir s) \<Longrightarrow> archives s = {} \<Longrightarrow> cache_reachable J env cfg s"
| step: "cache_reachable J env cfg s \<Longrightarrow> op_ok op \<Longrightarrow>
           cache_reachable J env cfg (snd (run_op J env cfg op (s\<lparr>fs_sched := sched\<rparr>)))"

lemma io_inv_run_op:
  "json_ok J \<Longrightarrow> op_ok op \<Longrightarrow> io_inv (cache_inv J False) (run_op J env cfg op)"
  by (cases op) (auto intro!: io_inv_intros io_inv_init io_inv_rotate)

lemma reachable_inv:
  assumes "json_ok J" and "cache_reachable J env cfg s"
  shows "cache_inv J False s"
  using assms(2)
proof induction
  case (start s)
  then show ?case by (simp add: cache_inv_def)
next
  case (step s op sched)
  then show ?case using io_invD [OF io_inv_run_op [OF assms(1)]] by simp
qed

end
