(* ===== verification/TaskCacheProps.thy ===== *)
theory TaskCacheProps
  imports TaskCache
begin

text \<open>
  What the remote task cache promises: a well-formed archive after any sequence of operations with
  any failures, no task lost by applying the journal, crash consistency of \<^verbatim>\<open>update\<close>, and the effect
  of a rotation.
\<close>

section \<open>A concrete codec\<close>

text \<open>A line is a list of fragments: a complete record or a torn piece of one. Text that is more
  than one complete record does not decode.\<close>

definition frag_json :: "task_item option list json" where
  "frag_json = \<lparr>to_json = (\<lambda>t. [Some t]),
                from_json = (\<lambda>j. case j of [Some t] \<Rightarrow> Some t | _ \<Rightarrow> None),
                join_text = (@), text_len = length\<rparr>"

lemma json_ok_frag: "json_ok frag_json"
  by (simp add: json_ok_def frag_json_def)

section \<open>Recording finished tasks\<close>

definition parses :: "upid_env \<Rightarrow> task_item \<Rightarrow> bool" where
  "parses env t \<longleftrightarrow> (\<exists>nu. native_upid env (ti_upid t) = Inr nu)"

definition fs_at ::
  "'j json \<Rightarrow> bool \<Rightarrow> archive_file list \<Rightarrow> state_file \<Rightarrow> task_item set \<Rightarrow> 'j task_fs \<Rightarrow> bool" where
  "fs_at J r L S A s \<longleftrightarrow> cache_inv J r s \<and> listing s = L \<and> fs_state s = S \<and> archived J s = A"

lemma fs_at_simps [simp]:
  "fs_at J r L S A (s\<lparr>fs_sched := x\<rparr>) = fs_at J r L S A s"
  "fs_at J r L S A (s\<lparr>fs_journal := j\<rparr>) = fs_at J r L S A s"
  by (simp_all add: fs_at_def)

lemma journal_step_triple:
  "io_triple (\<lambda>s. fs_at J r L S A s \<and> fs_journal s = Some (ls, False))
     (journal_step J env ok t (active, st))
     (\<lambda>acc s. acc = (al_del (ti_upid t) active, if parses env t then raise_cutoff env ok t st else st) \<and>
        fs_at J r L S A s \<and>
        fs_journal s = Some (ls @ encode_tasks J (if parses env t then [t] else []), False))
     (fs_at J r L S A)"
proof (cases "native_upid env (ti_upid t)")
  case (Inl e)
  then show ?thesis
    by (auto simp: journal_step_def parses_def encode_tasks_def intro: io_triple_return)
next
  case (Inr nu)
  have app: "io_triple (\<lambda>s. fs_at J r L S A s \<and> fs_journal s = Some (ls, False)) (append_journal J t)
      (\<lambda>_ s. fs_at J r L S A s \<and> fs_journal s = Some (ls @ encode_tasks J [t], False)) (fs_at J r L S A)"
    by (auto simp: io_triple_def append_journal_def append_line_def Let_def encode_tasks_def
        split: list.splits fault.splits option.splits)
  from Inr show ?thesis
    by (auto simp: journal_step_def parses_def intro!: io_triple_bind [OF app] io_triple_return)
qed

lemma journal_fold_triple:
  "io_triple (\<lambda>s. fs_at J r L S A s \<and> fs_journal s = Some (ls, False))
     (io_fold (journal_step J env ok) ts (active, st))
     (\<lambda>acc s. acc = (fold (\<lambda>t. al_del (ti_upid t)) ts active,
                     fold (raise_cutoff env ok) (filter (parses env) ts) st) \<and>
        fs_at J r L S A s \<and>
        fs_journal s = Some (ls @ encode_tasks J (filter (parses env) ts), False))
     (fs_at J r L S A)"
proof (induction ts arbitrary: ls active st)
  case Nil
  then show ?case by (auto simp: encode_tasks_def intro: io_triple_return)
next
  case (Cons t ts)
  show ?case
    unfolding io_fold.simps
    apply (rule io_triple_bind [OF journal_step_triple])
    apply (rule io_triple_pure, simp only:)
    apply (rule io_triple_conseq [OF Cons.IH])
    by (auto simp: encode_tasks_def)
qed

definition clean_journal :: "'j task_fs \<Rightarrow> bool" where
  "clean_journal s \<longleftrightarrow>
     (case fs_journal s of None \<Rightarrow> True | Some (ls, torn) \<Rightarrow> \<not> torn \<and> Unreadable \<notin> set ls)"

lemma write_journal_triple:
  assumes J: "json_ok J"
  shows "io_triple (\<lambda>s. fs_at J r L S A s \<and> clean_journal s \<and> journal_tasks J s = old)
           (write_tasks_to_journal J env ts active ok st)
           (\<lambda>(active', st') s.
              (active' = fold (\<lambda>t. al_del (ti_upid t)) ts active \<and>
               st' = fold (lower_cutoff env ok) (map snd active')
                       (fold (raise_cutoff env ok) (filter (parses env) ts) st)) \<and>
              fs_at J r L S A s \<and> journal_tasks J s = old @ filter (parses env) ts)
           (fs_at J r L S A)"
    (is "io_triple ?P _ ?Q ?E")
proof -
  have opened: "io_triple ?P open_journal
      (\<lambda>_ s. \<exists>ls. (Unreadable \<notin> set ls \<and> file_tasks J ls = old) \<and>
                  fs_at J r L S A s \<and> fs_journal s = Some (ls, False)) ?E"
    unfolding open_journal_def
    by (rule io_triple_sys)
      (auto simp: sched_free_def clean_journal_def journal_tasks_def file_tasks_def split: option.splits)
  have tasks: "file_tasks J (ls @ encode_tasks J us) = file_tasks J ls @ us"
    if "Unreadable \<notin> set ls" for ls us
    using J that by (simp add: file_tasks_append)
  have rest: "io_triple (\<lambda>s. fs_at J r L S A s \<and> fs_journal s = Some (ls, False))
      (io_bind (io_fold (journal_step J env ok) ts (active, st))
         (\<lambda>(active', st'). io_bind (sys_unit ''fsync'')
            (\<lambda>_. io_return (active', fold (lower_cutoff env ok) (map snd active') st')))) ?Q ?E"
    if "Unreadable \<notin> set ls" "file_tasks J ls = old" for ls
    apply (rule io_triple_bind [OF journal_fold_triple])
    apply (rule io_triple_pure, simp only: prod.case)
    apply (rule io_triple_bind, rule io_triple_sys_unit)
      apply (auto simp: sched_free_def)[2]
    apply (rule io_triple_return)
    using that by (auto simp: journal_tasks_def tasks)
  show ?thesis
    unfolding write_tasks_to_journal_def
    by (rule io_triple_bind [OF opened], rule io_triple_ex, rule io_triple_pure, rule rest) simp_all
qed

lemma apply_if_too_large_triple:
  assumes "json_ok J"
  shows "io_triple (\<lambda>s. cache_inv J r s \<and> listing s = L \<and> K \<subseteq> recorded J s)
           (apply_journal_if_too_large J cfg)
           (\<lambda>_ s. \<forall>k \<in> K. k \<in> recorded J s \<or> (\<forall>f \<in> set L. - fst k < af_starttime f))
           (\<lambda>s. \<forall>k \<in> K. k \<in> recorded J s \<or> (\<forall>f \<in> set L. - fst k < af_starttime f))"
    (is "io_triple ?P _ (\<lambda>_. ?Q) _")
proof -
  have free: "sched_free ?P" by (auto simp: sched_free_def recorded_def journal_tasks_def)
  have size: "io_triple ?P (journal_size J) (\<lambda>_. ?P) ?Q"
    unfolding journal_size_def
    by (rule io_triple_bind, rule io_triple_sys [OF free, where Q = "\<lambda>_. ?P"], assumption, blast,
        rule io_triple_case_option) (auto intro: io_triple_return io_triple_fail)
  show ?thesis
    unfolding apply_journal_if_too_large_def
    apply (rule io_triple_bind [OF size], rule io_triple_if)
     apply (rule io_triple_conseq [OF apply_journal_triple [OF assms]])
       apply assumption
      apply simp_all
    by (rule io_triple_return) blast
qed

lemma io_triple_write_active:
  assumes "sched_free P" and "\<And>s. P s \<Longrightarrow> E s"
    and "\<And>s. P s \<Longrightarrow> Q () (s\<lparr>fs_dir := al_put ''active'' (encode_tasks J ts) (fs_dir s)\<rparr>)"
  shows "io_triple P (write_active_tasks J ts) Q E"
  unfolding write_active_tasks_def
  apply (rule io_triple_bind, rule io_triple_writer [OF assms(1,2)], assumption)
  apply (rule io_triple_bind, rule io_triple_write_tasks [OF assms(1,2)], assumption)
  apply (rule io_triple_pure, simp only:)
  by (rule io_triple_commit) (use assms in \<open>auto simp: active_file_def\<close>)

lemma fs_at_active:
  "fs_at J r L S A s \<Longrightarrow> fs_at J r L S A (s\<lparr>fs_dir := al_put ''active'' ls (fs_dir s)\<rparr>)"
  by (simp add: fs_at_def cache_inv_put_other listing_put_other archived_put_other)

text \<open>The finished tasks that the cache accepts, and that each of a set of tasks is in the archive or
  the journal unless it is older than every archive file.\<close>

definition accepted :: "upid_env \<Rightarrow> task_item list \<Rightarrow> task_item list" where
  "accepted env new = filter (parses env) (filter (\<lambda>t. ti_endtime t \<noteq> None) new)"

definition safe_in :: "'j json \<Rightarrow> task_item set \<Rightarrow> archive_file list \<Rightarrow> 'j task_fs \<Rightarrow> bool" where
  "safe_in J ts L s \<longleftrightarrow>
     (\<forall>t \<in> ts. task_key t \<in> recorded J s \<or> (\<forall>f \<in> set L. ti_starttime t < af_starttime f))"

lemma safe_in_keys:
  "safe_in J ts L s \<longleftrightarrow>
     (\<forall>k \<in> task_key ` ts. k \<in> recorded J s \<or> (\<forall>f \<in> set L. - fst k < af_starttime f))"
  by (simp add: safe_in_def task_key_def)

lemma update_triple:
  assumes J: "json_ok J"
  shows "io_triple (\<lambda>s. fs_at J r L S A s \<and> clean_journal s \<and> journal_tasks J s = old)
           (update_cache J env cfg new ok dropped)
           (\<lambda>_. safe_in J (A \<union> set old \<union> set (accepted env new)) L)
           (\<lambda>s. fs_state s = S \<or> safe_in J (A \<union> set old \<union> set (accepted env new)) L s)"
    (is "io_triple ?P _ (\<lambda>_. safe_in J ?T L) ?E")
proof -
  let ?K = "task_key ` ?T"
  let ?fin = "accepted env new"
  have free: "sched_free ?P"
    by (auto simp: sched_free_def clean_journal_def journal_tasks_def)
  have PE: "?P s \<Longrightarrow> ?E s" for s by (simp add: fs_at_def)
  let ?R = "\<lambda>s. fs_at J r L S A s \<and> journal_tasks J s = old @ ?fin"
  have rest: "io_triple ?R (io_bind (write_active_tasks J ts)
       (\<lambda>_. io_bind (write_state st) (\<lambda>_. apply_journal_if_too_large J cfg))) (\<lambda>_. safe_in J ?T L) ?E" for ts st
    apply (rule io_triple_bind, rule io_triple_write_active [where Q = "\<lambda>_. ?R"])
       apply (auto simp: sched_free_def journal_tasks_def fs_at_active)[1]
      apply (simp add: fs_at_def)
     apply (simp add: fs_at_active journal_tasks_def)
    apply (rule io_triple_bind, rule io_triple_write_state
        [where Q = "\<lambda>_ s. cache_inv J r s \<and> listing s = L \<and> ?K \<subseteq> recorded J s"])
       apply (auto simp: sched_free_def journal_tasks_def)[1]
      apply (simp add: fs_at_def)
     apply (simp add: fs_at_def recorded_def journal_tasks_def image_Un Un_ac)
    apply (rule io_triple_conseq [OF apply_if_too_large_triple [OF J]])
      apply assumption
    by (simp_all add: safe_in_def task_key_def)
  have journal: "io_triple ?P
      (write_tasks_to_journal J env (filter (\<lambda>t. ti_endtime t \<noteq> None) new) active ok st)
      (\<lambda>_. ?R) ?E" for active st
    apply (rule io_triple_conseq [OF write_journal_triple [OF J]])
      apply assumption
     apply (simp only: accepted_def case_prod_beta simp_thms)
    by (simp add: fs_at_def)
  show ?thesis
    unfolding update_cache_def Let_def
    apply (rule io_triple_bind [where R = "\<lambda>_. ?P"])
     apply (rule io_triple_conseq [OF io_triple_inv [OF io_inv_get_active [OF free]]])
       apply (assumption, assumption, erule PE)
    apply (rule io_triple_bind [OF io_triple_read_state [OF free]])
    apply (rule io_triple_bind [OF journal])
    by (simp only: case_prod_beta) (rule rest)
qed

section \<open>Cutoff timestamps\<close>

definition task_at :: "upid_env \<Rightarrow> str \<Rightarrow> str \<Rightarrow> task_item \<Rightarrow> bool" where
  "task_at env remote node t \<longleftrightarrow> ru_remote (ti_upid t) = remote \<and> success_node env (ti_upid t) = Some node"

lemma task_at_parses: "task_at env r n t \<Longrightarrow> parses env t"
  by (auto simp: task_at_def parses_def success_node_def split: sum.splits)

lemma cutoff_raise:
  "cutoff_timestamp (raise_cutoff env ok t st) r n =
     (if task_at env r n t \<and> node_successful ok r n
      then Some (max (case cutoff_timestamp st r n of None \<Rightarrow> 0 | Some c \<Rightarrow> c) (ti_starttime t))
      else cutoff_timestamp st r n)"
  by (auto simp: raise_cutoff_def task_at_def cutoff_update_cutoff split: option.splits)

lemma cutoff_lower:
  "cutoff_timestamp (lower_cutoff env ok t st) r n =
     (if task_at env r n t \<and> node_successful ok r n
      then Some (min (case cutoff_timestamp st r n of None \<Rightarrow> i64_max | Some c \<Rightarrow> c) (ti_starttime t))
      else cutoff_timestamp st r n)"
  by (auto simp: lower_cutoff_def task_at_def cutoff_update_cutoff split: option.splits)

lemma cutoff_fold_other:
  "\<not> node_successful ok r n \<or> (\<forall>t \<in> set ts. \<not> task_at env r n t) \<Longrightarrow>
   cutoff_timestamp (fold (raise_cutoff env ok) ts st) r n = cutoff_timestamp st r n"
  "\<not> node_successful ok r n \<or> (\<forall>t \<in> set ts. \<not> task_at env r n t) \<Longrightarrow>
   cutoff_timestamp (fold (lower_cutoff env ok) ts st) r n = cutoff_timestamp st r n"
  by (induction ts arbitrary: st) (auto simp: cutoff_raise cutoff_lower)

lemma cutoff_fold_raise:
  "node_successful ok r n \<Longrightarrow> (\<exists>t \<in> set ts. task_at env r n t) \<or> (\<exists>c. cutoff_timestamp st r n = Some c \<and> b \<le> c) \<Longrightarrow>
   \<exists>c. cutoff_timestamp (fold (raise_cutoff env ok) ts st) r n = Some c \<and>
       (\<forall>t \<in> set ts. task_at env r n t \<longrightarrow> ti_starttime t \<le> c) \<and>
       (\<forall>c0. cutoff_timestamp st r n = Some c0 \<longrightarrow> c0 \<le> c)"
proof (induction ts arbitrary: st b)
  case (Cons t ts)
  show ?case
  proof (cases "task_at env r n t")
    case True
    let ?c = "max (case cutoff_timestamp st r n of None \<Rightarrow> 0 | Some c \<Rightarrow> c) (ti_starttime t)"
    have "cutoff_timestamp (raise_cutoff env ok t st) r n = Some ?c"
      using True Cons.prems by (simp add: cutoff_raise)
    with Cons.IH [of "raise_cutoff env ok t st" ?c] Cons.prems(1) show ?thesis
      by (fastforce split: option.splits)
  next
    case False
    then have "cutoff_timestamp (raise_cutoff env ok t st) r n = cutoff_timestamp st r n"
      by (simp add: cutoff_raise)
    with Cons.IH [of "raise_cutoff env ok t st" b] Cons.prems False show ?thesis by auto
  qed
qed auto

lemma cutoff_fold_lower:
  "node_successful ok r n \<Longrightarrow> (\<exists>t \<in> set ts. task_at env r n t) \<or> (\<exists>c. cutoff_timestamp st r n = Some c \<and> c \<le> b) \<Longrightarrow>
   \<exists>c. cutoff_timestamp (fold (lower_cutoff env ok) ts st) r n = Some c \<and>
       (\<forall>t \<in> set ts. task_at env r n t \<longrightarrow> c \<le> ti_starttime t) \<and>
       (\<forall>c0. cutoff_timestamp st r n = Some c0 \<longrightarrow> c \<le> c0)"
proof (induction ts arbitrary: st b)
  case (Cons t ts)
  show ?case
  proof (cases "task_at env r n t")
    case True
    let ?c = "min (case cutoff_timestamp st r n of None \<Rightarrow> i64_max | Some c \<Rightarrow> c) (ti_starttime t)"
    have "cutoff_timestamp (lower_cutoff env ok t st) r n = Some ?c"
      using True Cons.prems by (simp add: cutoff_lower)
    with Cons.IH [of "lower_cutoff env ok t st" ?c] Cons.prems(1) show ?thesis
      by (fastforce split: option.splits)
  next
    case False
    then have "cutoff_timestamp (lower_cutoff env ok t st) r n = cutoff_timestamp st r n"
      by (simp add: cutoff_lower)
    with Cons.IH [of "lower_cutoff env ok t st" b] Cons.prems False show ?thesis by auto
  qed
qed auto

text \<open>What \<open>write_tasks_to_journal\<close> computes, on any journal.\<close>

lemma journal_step_result:
  "journal_step J env ok t (active, st) s = (Inr acc, s') \<Longrightarrow>
   acc = (al_del (ti_upid t) active, if parses env t then raise_cutoff env ok t st else st)"
  by (cases "native_upid env (ti_upid t)")
    (auto simp: journal_step_def parses_def Let_def io_return_def io_bind_eq_Inr)

lemma journal_fold_result:
  "io_fold (journal_step J env ok) ts (active, st) s = (Inr acc, s') \<Longrightarrow>
   acc = (fold (\<lambda>t. al_del (ti_upid t)) ts active,
          fold (raise_cutoff env ok) (filter (parses env) ts) st)"
proof (induction ts arbitrary: active st s)
  case Nil
  then show ?case by (simp add: io_simps)
next
  case (Cons t ts)
  from Cons.prems obtain a s1 where "journal_step J env ok t (active, st) s = (Inr a, s1)"
    "io_fold (journal_step J env ok) ts a s1 = (Inr acc, s')"
    by (auto simp: io_bind_eq_Inr)
  moreover from this(1) have "a = (al_del (ti_upid t) active,
      if parses env t then raise_cutoff env ok t st else st)" by (rule journal_step_result)
  ultimately have "io_fold (journal_step J env ok) ts (al_del (ti_upid t) active,
      if parses env t then raise_cutoff env ok t st else st) s1 = (Inr acc, s')" by simp
  from Cons.IH [OF this] show ?case by simp
qed

lemma write_journal_result:
  "write_tasks_to_journal J env ts active ok st s = (Inr (active', st'), s') \<Longrightarrow>
   active' = fold (\<lambda>t. al_del (ti_upid t)) ts active \<and>
   st' = fold (lower_cutoff env ok) (map snd active')
           (fold (raise_cutoff env ok) (filter (parses env) ts) st)"
  unfolding write_tasks_to_journal_def
  by (auto simp: io_bind_eq_Inr io_return_def split: prod.splits dest!: journal_fold_result)

section \<open>Reading in order\<close>

lemma key_less_start: "ti_starttime u < ti_starttime t \<Longrightarrow> task_key t < task_key u"
  by (simp add: task_key_def)

text \<open>Collecting the archive files, newest first: \<open>above\<close> says that the tasks collected so far are not
  older than a file that is newer than all files still to come.\<close>

definition above :: "archive_file set \<Rightarrow> archive_file list \<Rightarrow> task_item list \<Rightarrow> bool" where
  "above F fs ts \<longleftrightarrow>
     sorted_tasks ts \<and>
     (\<forall>t \<in> set ts. \<exists>g \<in> F. af_starttime g \<le> ti_starttime t \<and> (\<forall>f \<in> set fs. af_starttime f < af_starttime g))"

lemma above_step:
  assumes inv: "cache_inv J True s" and f: "(f, ls) \<in> archives s"
    and sorted: "sorted_wrt (\<lambda>f g. af_starttime g < af_starttime f) (f # fs)"
    and ab: "above (fst ` archives s) (f # fs) ts"
  shows "above (fst ` archives s) fs (ts @ file_tasks J ls)"
proof -
  from cache_inv_file [OF inv f] have ok: "sorted_tasks (file_tasks J ls)"
    "\<forall>t \<in> set (file_tasks J ls). af_starttime f \<le> ti_starttime t"
    by (auto simp: file_ok_def)
  have less: "task_key t < task_key u" if "t \<in> set ts" "u \<in> set (file_tasks J ls)" for t u
  proof -
    from ab that(1) obtain g where g: "g \<in> fst ` archives s" "af_starttime g \<le> ti_starttime t"
      "af_starttime f < af_starttime g" unfolding above_def by fastforce
    from cache_inv_below [OF inv _ f g(1,3) that(2)] g(2) show ?thesis
      by (intro key_less_start) simp
  qed
  from ab have old: "\<forall>t \<in> set ts. \<exists>g \<in> fst ` archives s. af_starttime g \<le> ti_starttime t \<and>
      (\<forall>f \<in> set fs. af_starttime f < af_starttime g)" "sorted_tasks ts"
    by (auto simp: above_def)
  have "f \<in> fst ` archives s" using f by force
  with ok(2) sorted have "\<forall>t \<in> set (file_tasks J ls). \<exists>g \<in> fst ` archives s.
      af_starttime g \<le> ti_starttime t \<and> (\<forall>f \<in> set fs. af_starttime f < af_starttime g)"
    by auto
  with old less ok(1) show ?thesis
    by (auto simp: above_def sorted_tasks_append intro: less_imp_le)
qed

lemma drain_fold_sorted:
  assumes "sorted_wrt (\<lambda>f g. af_starttime g < af_starttime f) fs" and "set fs \<subseteq> F"
    and "above F fs (oks (fst acc))"
  shows "io_triple (\<lambda>s. cache_inv J True s \<and> fst ` archives s = F) (io_fold (drain_file J) fs acc)
           (\<lambda>acc' _. sorted_tasks (oks (fst acc'))) (\<lambda>_. True)"
    (is "io_triple ?P _ _ _")
  using assms
proof (induction fs arbitrary: acc)
  case Nil
  then show ?case by (auto simp: above_def intro: io_triple_return)
next
  case (Cons f fs)
  have free: "sched_free ?P" by (simp add: sched_free_def)
  have skip: "above F fs (oks (fst acc))"
    using Cons.prems(3) by (fastforce simp: above_def)
  let ?R = "\<lambda>acc' s. above F fs (oks (fst acc')) \<and> ?P s"
  have "io_triple ?P (drain_file J f acc) ?R (\<lambda>_. True)"
    unfolding drain_file_def
  proof (rule io_triple_bind [OF io_triple_try [OF io_triple_iter [OF free, where E = ?P]]])
    fix r
    let ?S = "\<lambda>s. case r of Inl _ \<Rightarrow> ?P s | Inr it \<Rightarrow> ?P s \<and> (\<forall>items. it = Some items \<longrightarrow>
      (\<exists>ls. al_get (fs_dir s) (af_name f) = Some ls \<and> items = archive_items J ls))"
    show "io_triple ?S
       (case r of Inl _ \<Rightarrow> io_return acc | Inr None \<Rightarrow> io_return acc
        | Inr (Some items) \<Rightarrow> io_return (fst acc @ items,
            snd acc @ (if af_starttime f \<noteq> 0 then replicate (errors items) f else [])))
       ?R (\<lambda>_. True)"
    proof (cases r)
      case (Inr it)
      show ?thesis
      proof (cases it)
        case (Some items)
        have "?R (fst acc @ items, x) s" if "?S s" for s x
        proof -
          from that Inr Some obtain ls where ls: "al_get (fs_dir s) (af_name f) = Some ls"
            "items = archive_items J ls" and P: "?P s" by auto
          from P Cons.prems(2) have "(f, ls) \<in> archives s" using ls(1) by (auto simp: archives_def)
          with P Cons.prems above_step [of J s f ls fs "oks (fst acc)"] ls(2) show ?thesis
            by (auto simp: file_tasks_def)
        qed
        then show ?thesis unfolding Inr Some sum.case option.case by (rule io_triple_return)
      qed (use skip Inr in \<open>auto intro: io_triple_return\<close>)
    qed (use skip in \<open>auto intro: io_triple_return\<close>)
  qed simp
  then show ?case
    unfolding io_fold.simps
    by (rule io_triple_bind) (rule io_triple_pure, rule Cons.IH, use Cons.prems in auto)
qed

text \<open>Without failing calls, draining files that exist yields all their items.\<close>

lemma sys_ok: "fs_sched s = [] \<Longrightarrow> sys call r w s = (Inr (r s), w s)"
  by (simp add: sys_def)

lemma file_iter_ok:
  "fs_sched s = [] \<Longrightarrow> al_get (fs_dir s) (af_name f) = Some ls \<Longrightarrow>
   file_iter J f s = (Inr (Some (archive_items J ls)), s)"
  by (simp add: file_iter_def io_bind_def sys_ok io_return_def)

lemma drain_fold_ok:
  assumes "fs_sched s = []" and "\<forall>f \<in> set fs. al_get (fs_dir s) (af_name f) \<noteq> None"
  shows "\<exists>c. io_fold (drain_file J) fs acc s =
           (Inr (fst acc @ concat (map (\<lambda>f. archive_items J (the (al_get (fs_dir s) (af_name f)))) fs), c), s)"
  using assms(2)
proof (induction fs arbitrary: acc)
  case Nil
  then show ?case by (simp add: io_return_def) (metis prod.collapse)
next
  case (Cons f fs)
  then obtain ls where ls: "al_get (fs_dir s) (af_name f) = Some ls" by auto
  obtain c' where "drain_file J f acc s = (Inr (fst acc @ archive_items J ls, c'), s)"
    by (simp add: drain_file_def io_bind_def io_try_def file_iter_ok [OF assms(1) ls] io_return_def)
  moreover obtain c where "io_fold (drain_file J) fs (fst acc @ archive_items J ls, c') s =
      (Inr ((fst acc @ archive_items J ls) @
        concat (map (\<lambda>f. archive_items J (the (al_get (fs_dir s) (af_name f)))) fs), c), s)"
    using Cons.IH [of "(fst acc @ archive_items J ls, c')"] Cons.prems by auto
  ultimately show ?case by (simp add: io_bind_def ls)
qed

lemma oks_concat: "oks (concat xss) = concat (map oks xss)"
  by (induction xss) simp_all

lemma listed_exists: "f \<in> set (listing s) \<Longrightarrow> \<exists>ls. al_get (fs_dir s) (af_name f) = Some ls"
  using set_listing_subset [of s] by (auto simp: archives_def)

lemma drain_listing:
  assumes "fs_sched s = []"
  shows "\<exists>items c. drain_files J (rev (listing s)) s = (Inr (items, c), s) \<and>
           set (oks items) = archived J s \<and> (cache_inv J True s \<longrightarrow> sorted_tasks (oks items))"
proof -
  obtain c where run: "drain_files J (rev (listing s)) s = (Inr (concat (map (\<lambda>f.
      archive_items J (the (al_get (fs_dir s) (af_name f)))) (listing s)), c), s)"
    using drain_fold_ok [OF assms, of "listing s" J "([], [])"] listed_exists
    by (fastforce simp: drain_files_def)
  let ?items = "concat (map (\<lambda>f. archive_items J (the (al_get (fs_dir s) (af_name f)))) (listing s))"
  have "t \<in> set (oks ?items) \<longleftrightarrow> t \<in> archived J s" for t
    using listed_exists [of _ s] by (force simp: oks_concat archived_def file_tasks_def)
  then have "set (oks ?items) = archived J s" by blast
  moreover have "sorted_tasks (oks ?items)" if "cache_inv J True s"
    using io_triple_InrD [OF drain_fold_sorted [where J = J and acc = "([], [])" and
          F = "fst ` archives s" and fs = "listing s"], of s] that run
    by (auto simp: drain_files_def above_def sorted_listing set_listing_subset)
  ultimately show ?thesis using run by blast
qed

lemma get_archived_ok:
  assumes "fs_sched s = []"
  shows "\<exists>ts c. get_tasks_impl J Archived s = (Inr (ts, c), s) \<and>
           task_key ` set ts = recorded J s \<and> (cache_inv J True s \<longrightarrow> sorted_tasks ts)"
proof -
  obtain items c where d: "drain_files J (rev (listing s)) s = (Inr (items, c), s)"
    "set (oks items) = archived J s" "cache_inv J True s \<longrightarrow> sorted_tasks (oks items)"
    using drain_listing [OF assms] by blast
  let ?ts = "case fs_journal s of None \<Rightarrow> oks items
             | Some (ls, _) \<Rightarrow> merge_tasks (journal_items J ls) (oks items)"
  have "get_tasks_impl J Archived s = (Inr (?ts, c), s)"
    using d(1) by (simp add: get_tasks_impl_def archive_files_def archive_files_with_dupes_def
        io_bind_def sys_ok [OF assms] io_return_def task_archive_iterator_def listing_def [symmetric])
  moreover have "task_key ` set ?ts = recorded J s"
    by (auto simp: recorded_def journal_tasks_def keys_merge_tasks d(2) split: option.splits)
  moreover have "sorted_tasks ?ts" if "cache_inv J True s"
    using d(3) that by (auto simp: sorted_merge_tasks sorted_journal_items split: option.splits)
  ultimately show ?thesis by blast
qed

section \<open>Properties\<close>

definition sample_task :: "str \<Rightarrow> int \<Rightarrow> int option \<Rightarrow> task_item" where
  "sample_task upid start end =
     \<lparr>ti_upid = \<lparr>ru_remote = ''r1'', ru_type = Pve, ru_upid = upid\<rparr>, ti_starttime = start,
      ti_status = None, ti_endtime = end\<rparr>"

definition sample_fs :: "task_item option list task_fs" where
  "sample_fs =
     \<lparr>fs_dir = [(''archive.5'', [Text [Some (sample_task ''UPID:pve:a'' 7 (Some 8))]])],
      fs_journal = Some ([Text [Some (sample_task ''UPID:pve:b'' 9 (Some 10))]], False),
      fs_state = NoState, fs_sched = []\<rparr>"

lemma archives_sample: "archives sample_fs =
  {(\<lparr>af_name = ''archive.5'', af_compressed = False, af_starttime = 5\<rparr>,
    [Text [Some (sample_task ''UPID:pve:a'' 7 (Some 8))]])}"
proof -
  have "parse_archive_filename ''archive.5'' =
      Some \<lparr>af_name = ''archive.5'', af_compressed = False, af_starttime = 5\<rparr>"
    by code_simp
  then show ?thesis
    by (auto simp: archives_def sample_fs_def split: if_splits dest: parse_archive_name)
qed

lemma cache_inv_sample: "cache_inv frag_json r sample_fs"
proof -
  have "file_tasks frag_json [Text [Some t]] = [t]" for t
    by (simp add: file_tasks_def frag_json_def)
  moreover have "''archive.5'' = archive_path 5 False" by code_simp
  moreover have "al_keys_distinct (fs_dir sample_fs)"
    by (simp add: sample_fs_def al_keys_distinct_def)
  ultimately show ?thesis
    by (auto simp: cache_inv_def archives_sample file_ok_def below_newer_def canonical_def
        in_i64_def sample_task_def)
qed

text \<open>
  C1. Whatever sequence of cache operations runs on an initially empty directory, with any clock
  values and with any system calls failing at any point, every archive file has a canonical name,
  its readable tasks are sorted (newest first, ties by UPID) and none is older than the file's
  lower bound.
\<close>

theorem archive_always_well_formed:
  assumes "json_ok J" and "cache_reachable J env cfg s" and "(f, ls) \<in> archives s"
  shows "af_name f = archive_path (af_starttime f) (af_compressed f) \<and>
         sorted_tasks (file_tasks J ls) \<and>
         (\<forall>t \<in> set (file_tasks J ls). af_starttime f \<le> ti_starttime t)"
  using cache_inv_file [OF reachable_inv [OF assms(1,2)] assms(3)]
  by (auto simp: file_ok_def canonical_def)

definition sample_cfg :: cache_cfg where
  "sample_cfg = \<lparr>max_files = 2, uncompressed_files = 1, rotate_after = 10, journal_max_size = 100\<rparr>"

definition empty_fs :: "task_item option list task_fs" where
  "empty_fs = \<lparr>fs_dir = [], fs_journal = None, fs_state = NoState, fs_sched = []\<rparr>"

theorem archive_always_well_formed_witness:
  "let s = snd (run_op frag_json ascii_upid_env sample_cfg (Init 15) (empty_fs\<lparr>fs_sched := []\<rparr>));
       f = \<lparr>af_name = ''archive.5.zst'', af_compressed = True, af_starttime = 5\<rparr>
   in cache_reachable frag_json ascii_upid_env sample_cfg s \<and> (f, []) \<in> archives s \<and>
      af_name f = archive_path (af_starttime f) (af_compressed f)"
proof -
  let ?s = "snd (run_op frag_json ascii_upid_env sample_cfg (Init 15) (empty_fs\<lparr>fs_sched := []\<rparr>))"
  let ?f = "\<lparr>af_name = ''archive.5.zst'', af_compressed = True, af_starttime = 5\<rparr>"
  have reach: "cache_reachable frag_json ascii_upid_env sample_cfg ?s"
    by (rule cache_reachable.step [OF cache_reachable.start]) (simp_all add: archives_def empty_fs_def al_keys_distinct_def)
  have "al_get (fs_dir ?s) ''archive.5.zst'' = Some []" by code_simp
  moreover have "parse_archive_filename ''archive.5.zst'' = Some ?f" by code_simp
  ultimately have "(?f, []) \<in> archives ?s" by (simp add: archives_def)
  with archive_always_well_formed [OF json_ok_frag reach this] reach show ?thesis
    unfolding Let_def by blast
qed

text \<open>
  C11. Applying the journal loses nothing, whether it succeeds or is cut off by a failing call
  anywhere: every task that could be read from the archive or the journal before can be read from
  one of them afterwards, unless it is older than every archive file. The set of archive files
  stays the same.
\<close>

theorem apply_journal_loses_nothing:
  assumes "json_ok J" and "cache_inv J ranged s"
  shows "listing (snd (apply_journal J s)) = listing s \<and>
         safe_in J (archived J s \<union> set (journal_tasks J s)) (listing s) (snd (apply_journal J s))"
proof -
  have "cache_inv J ranged s \<and> listing s = listing s \<and> recorded J s \<subseteq> recorded J s"
    using assms(2) by simp
  from io_triple_sndD [OF apply_journal_triple [OF assms(1)] this] show ?thesis
    by (simp add: safe_in_keys recorded_def image_Un)
qed

theorem apply_journal_loses_nothing_witness:
  "safe_in frag_json (archived frag_json sample_fs \<union> set (journal_tasks frag_json sample_fs))
     (listing sample_fs) (snd (apply_journal frag_json sample_fs))"
  using apply_journal_loses_nothing [OF json_ok_frag cache_inv_sample [of False]] by simp


lemma clean_sample: "clean_journal sample_fs"
  by (simp add: clean_journal_def sample_fs_def)


text \<open>
  C14. The cutoff timestamps that \<^verbatim>\<open>update\<close> stores. For a node whose tasks were fetched
  successfully, the new cutoff is not later than the start of any task that is still running
  there; if none is running, it is not earlier than the start of any finished task that was just
  recorded for it. The cutoffs of all other nodes do not change.
\<close>

theorem cutoffs_cover_running_tasks:
  assumes "write_tasks_to_journal J env finished active ok st s = (Inr (active', st'), s')"
  shows "(\<forall>remote node t. node_successful ok remote node \<longrightarrow> t \<in> snd ` set active' \<longrightarrow>
            task_at env remote node t \<longrightarrow>
            (\<exists>c. cutoff_timestamp st' remote node = Some c \<and> c \<le> ti_starttime t)) \<and>
         (\<forall>remote node t. node_successful ok remote node \<longrightarrow> t \<in> set finished \<longrightarrow>
            task_at env remote node t \<longrightarrow> (\<forall>u \<in> snd ` set active'. \<not> task_at env remote node u) \<longrightarrow>
            (\<exists>c. cutoff_timestamp st' remote node = Some c \<and> ti_starttime t \<le> c)) \<and>
         (\<forall>remote node. \<not> node_successful ok remote node \<longrightarrow>
            cutoff_timestamp st' remote node = cutoff_timestamp st remote node)"
    (is "?running \<and> ?finished \<and> ?other")
proof -
  let ?st1 = "fold (raise_cutoff env ok) (filter (parses env) finished) st"
  have st': "st' = fold (lower_cutoff env ok) (map snd active') ?st1"
    using write_journal_result [OF assms] by simp
  have ?running
    using cutoff_fold_lower [where ts = "map snd active'" and st = ?st1] unfolding st' by fastforce
  moreover have ?finished
  proof (intro allI impI)
    fix remote node t
    assume *: "node_successful ok remote node" "t \<in> set finished" "task_at env remote node t"
      "\<forall>u \<in> snd ` set active'. \<not> task_at env remote node u"
    then have "cutoff_timestamp st' remote node = cutoff_timestamp ?st1 remote node"
      unfolding st' by (intro cutoff_fold_other) auto
    moreover have t: "t \<in> set (filter (parses env) finished)" using * by (simp add: task_at_parses)
    moreover from t *(3) obtain c where "cutoff_timestamp ?st1 remote node = Some c"
      "\<forall>u \<in> set (filter (parses env) finished). task_at env remote node u \<longrightarrow> ti_starttime u \<le> c"
      using cutoff_fold_raise [OF *(1), where ts = "filter (parses env) finished"] by blast
    ultimately show "\<exists>c. cutoff_timestamp st' remote node = Some c \<and> ti_starttime t \<le> c"
      using *(3) by (intro exI [of _ c]) simp
  qed
  moreover have ?other unfolding st' by (simp add: cutoff_fold_other)
  ultimately show ?thesis by blast
qed

theorem cutoffs_cover_running_tasks_witness:
  "let run = sample_task ''UPID:pve:r'' 20 None; fin = sample_task ''UPID:pve:f'' 30 (Some 31);
       ok = set_node_success ''r1'' ''pve'' Map.empty;
       r = write_tasks_to_journal frag_json ascii_upid_env [fin] [(ti_upid run, run)] ok default_state sample_fs
   in \<exists>active st. fst r = Inr (active, st) \<and> snd ` set active = {run} \<and>
      task_at ascii_upid_env ''r1'' ''pve'' run \<and>
      (\<exists>c. cutoff_timestamp st ''r1'' ''pve'' = Some c \<and> c \<le> 20)"
proof -
  define run where "run = sample_task ''UPID:pve:r'' 20 None"
  define fin where "fin = sample_task ''UPID:pve:f'' 30 (Some 31)"
  define ok where "ok = set_node_success ''r1'' ''pve'' Map.empty"
  let ?r = "write_tasks_to_journal frag_json ascii_upid_env [fin] [(ti_upid run, run)] ok default_state sample_fs"
  have "map_option fst (case fst ?r of Inl _ \<Rightarrow> None | Inr x \<Rightarrow> Some x) = Some [(ti_upid run, run)]"
    unfolding run_def fin_def ok_def by code_simp
  then obtain st s' where r: "?r = (Inr ([(ti_upid run, run)], st), s')"
    by (cases ?r; cases "fst ?r") auto
  have "node_successful ok ''r1'' ''pve''"
    by (simp add: ok_def node_successful_def set_node_success_def)
  moreover have at: "task_at ascii_upid_env ''r1'' ''pve'' run"
    unfolding task_at_def run_def by code_simp
  ultimately have "\<exists>c. cutoff_timestamp st ''r1'' ''pve'' = Some c \<and> c \<le> ti_starttime run"
    using cutoffs_cover_running_tasks [OF r] by auto
  with r at show ?thesis
    unfolding Let_def run_def [symmetric] fin_def [symmetric] ok_def [symmetric]
    by (auto simp: run_def sample_task_def)
qed

text \<open>
  C19. Reading the archived tasks when no system call fails: the iterator returns exactly the tasks
  recorded in the archive files and the journal (by start time and UPID), and when the time ranges
  of the files do not overlap it returns them sorted, newest first.
\<close>

theorem archived_tasks_complete_and_sorted:
  assumes "fs_sched s = []"
  shows "\<exists>ts corrupted. get_tasks_impl J Archived s = (Inr (ts, corrupted), s) \<and>
           task_key ` set ts = task_key ` archived J s \<union> task_key ` set (journal_tasks J s) \<and>
           (cache_inv J True s \<longrightarrow> sorted_tasks ts)"
  using get_archived_ok [OF assms, of J] by (simp add: recorded_def)

theorem archived_tasks_complete_and_sorted_witness:
  "\<exists>ts corrupted. get_tasks_impl frag_json Archived sample_fs = (Inr (ts, corrupted), sample_fs) \<and>
     sorted_tasks ts \<and> map ti_starttime ts = [9, 7]"
proof -
  have "fs_sched sample_fs = []" by (simp add: sample_fs_def)
  from archived_tasks_complete_and_sorted [OF this, of frag_json] cache_inv_sample [of True]
  obtain ts corrupted where r: "get_tasks_impl frag_json Archived sample_fs = (Inr (ts, corrupted), sample_fs)"
    "sorted_tasks ts" by auto
  have "map_sum (\<lambda>_. ()) (\<lambda>r. map ti_starttime (fst r)) (fst (get_tasks_impl frag_json Archived sample_fs)) =
      Inr [9, 7]" by code_simp
  with r show ?thesis by simp
qed

text \<open>
  A failed append that leaves part of a line behind makes the next successful \<^verbatim>\<open>update\<close> lose the
  first task it records: the task's text continues the torn line and cannot be decoded, and the
  cutoff timestamp moves past it.
\<close>

lemma torn_journal_loses_task:
  "let t = sample_task ''UPID:pve:c'' 12 (Some 14);
       ok = set_node_success ''r1'' ''pve'' Map.empty;
       start = empty_fs\<lparr>fs_dir := [(''archive.5'', [])],
                        fs_sched := [Succeed, Succeed, Succeed, Fail (Some (Text [None]))]\<rparr>;
       failed = update_cache frag_json ascii_upid_env sample_cfg [t] ok [] start;
       again = update_cache frag_json ascii_upid_env sample_cfg [t] ok [] (snd failed)
   in isl (fst failed) \<and> \<not> isl (fst again) \<and>
      map_sum id fst (fst (get_tasks_impl frag_json All (snd again))) = Inr [] \<and>
      (case fs_state (snd again) of
         GoodState st \<Rightarrow> cutoff_timestamp st ''r1'' ''pve'' = Some 12 | _ \<Rightarrow> False)"
  by code_simp

text \<open>
  The active tasks are put in front of the archived ones without regard to the order, so merging
  with the journal may return the same finished task twice.
\<close>

lemma all_tasks_may_repeat:
  "let t = sample_task ''UPID:pve:c'' 12 (Some 14); running = sample_task ''UPID:pve:r'' 10 None;
       s = empty_fs\<lparr>fs_dir := [(''archive.5'', [Text [Some t]]), (''active'', [Text [Some running]])],
                    fs_journal := Some ([Text [Some t]], False)\<rparr>
   in map_sum id fst (fst (get_tasks_impl frag_json All s)) = Inr [t, running, t]"
  by code_simp

end
