(* ===== verification/TaskRotate.thy ===== *)
theory TaskRotate
  imports TaskCacheProps
begin

text \<open>
  The effect of \<^verbatim>\<open>WritableTaskCache::rotate\<close> on the set of archive files: which files exist
  afterwards, and which of them are compressed.
\<close>

section \<open>Merging keeps the set of archive files\<close>

abbreviation archive_set :: "'j task_fs \<Rightarrow> archive_file set" where
  "archive_set s \<equiv> fst ` archives s"

lemma archive_set_iff:
  "f \<in> archive_set s \<longleftrightarrow>
     al_get (fs_dir s) (af_name f) \<noteq> None \<and> parse_archive_filename (af_name f) = Some f"
  by (force simp: archives_def)

lemma archive_set_put_existing:
  "al_get (fs_dir s) n = Some ls \<Longrightarrow> archive_set (s\<lparr>fs_dir := al_put n ls' (fs_dir s)\<rparr>) = archive_set s"
  by (rule set_eqI) (auto simp: archive_set_iff al_get_put simp del: image_iff)

lemma sched_free_archive_set [simp]: "sched_free (\<lambda>s. archive_set s = F)"
  by (simp add: sched_free_def)

lemma io_inv_names_merge_single [io_inv_intros]:
  "io_inv (\<lambda>s. archive_set s = F) (merge_single_archive_file J ts f)"
proof -
  let ?P = "\<lambda>s :: 'a task_fs. archive_set s = F"
  let ?R = "\<lambda>s :: 'a task_fs. ?P s \<and> al_get (fs_dir s) (af_name f) \<noteq> None"
  have free: "sched_free ?R" by (auto simp: sched_free_def)
  have rest: "io_triple ?R (io_bind (write_tasks J us) (\<lambda>ls. io_bind (commit f ls)
      (\<lambda>_. io_return x))) (\<lambda>_. ?P) ?P" for us and x :: ArchiveFileState
    apply (rule io_triple_bind, rule io_triple_write_tasks [OF free], simp)
    apply (rule io_triple_pure, rule io_triple_bind, rule io_triple_commit [OF free, where Q = "\<lambda>_. ?P"], simp)
     apply (metis archive_set_put_existing option.exhaust)
    by (rule io_triple_return)
  show ?thesis
    unfolding merge_single_archive_file_def io_inv_triple
    apply (rule io_triple_if, rule io_triple_return, assumption)
    apply (rule io_triple_bind, rule io_triple_writer, simp, assumption)
    apply (rule io_triple_bind, rule io_triple_iter, simp, assumption)
    apply (rule io_triple_case_option, rule io_triple_fail, simp)
    by (rule io_triple_conseq [OF rest]) auto
qed

lemma io_inv_names_merge_advance [io_inv_intros]:
  "io_inv (\<lambda>s. archive_set s = F) (merge_advance J task cur rest batch corrupted)"
  by (induction J task cur rest batch corrupted rule: merge_advance.induct)
    (auto intro: io_inv_intros)

lemma io_inv_names_merge [io_inv_intros]:
  "io_inv (\<lambda>s. archive_set s = F) (merge_tasks_into_archive J ts)"
  unfolding merge_tasks_into_archive_def merge_step_def by (intro io_inv_intros) simp_all

lemma io_inv_names_repair [io_inv_intros]: "io_inv (\<lambda>s. archive_set s = F) (request_repair fs)"
  unfolding request_repair_def Let_def write_state_def by (intro io_inv_intros) simp_all

lemma io_inv_names_apply [io_inv_intros]: "io_inv (\<lambda>s. archive_set s = F) (apply_journal J)"
  unfolding apply_journal_def truncate_journal_def by (intro io_inv_intros) simp_all

section \<open>The files through a rotation\<close>

definition newest_first_files :: "archive_file list \<Rightarrow> bool" where
  "newest_first_files fs \<longleftrightarrow> sorted_wrt (\<lambda>f g. af_starttime g < af_starttime f) fs"

definition files_are :: "'j json \<Rightarrow> archive_file list \<Rightarrow> 'j task_fs \<Rightarrow> bool" where
  "files_are J fs s \<longleftrightarrow> cache_inv J False s \<and> archive_set s = set fs \<and> newest_first_files fs"

lemma sched_free_files [simp]: "sched_free (files_are J fs)"
  by (simp add: sched_free_def files_are_def)

lemma newest_first_distinct: "newest_first_files fs \<Longrightarrow> distinct (map af_starttime fs)"
  by (induction fs) (auto simp: newest_first_files_def)

lemma newest_first_unique:
  assumes "newest_first_files fs" and "newest_first_files gs" and "set fs = set gs"
  shows "fs = gs"
proof -
  have "sorted_wrt (<) (map (\<lambda>f. - af_starttime f) fs)" "sorted_wrt (<) (map (\<lambda>f. - af_starttime f) gs)"
    using assms(1,2) by (simp_all add: newest_first_files_def sorted_wrt_map)
  then have eq: "map (\<lambda>f. - af_starttime f) fs = map (\<lambda>f. - af_starttime f) gs"
    using assms(3) by (intro strict_sorted_equal) auto
  have "inj_on (\<lambda>f. - af_starttime f) (set fs \<union> set gs)"
    using newest_first_distinct [OF assms(1)] assms(3)
    by (simp add: distinct_map inj_on_def)
  with eq show ?thesis by (rule map_inj_on)
qed

lemma listing_files: "files_are J fs s \<Longrightarrow> listing s = fs"
proof -
  assume f: "files_are J fs s"
  then have nf: "newest_first_files fs" and set: "archive_set s = set fs" by (auto simp: files_are_def)
  have "set (listing s) = set fs"
  proof
    show "set (listing s) \<subseteq> set fs" using set set_listing_subset by blast
    show "set fs \<subseteq> set (listing s)"
    proof
      fix f assume f: "f \<in> set fs"
      with set starts_listing [of s] obtain g where g: "g \<in> set (listing s)" "af_starttime g = af_starttime f"
        by (metis (no_types, lifting) imageE imageI)
      then have "g \<in> set fs" using set set_listing_subset by blast
      with g f newest_first_distinct [OF nf] have "g = f" by (auto simp: distinct_map inj_on_def)
      with g show "f \<in> set (listing s)" by simp
    qed
  qed
  with nf sorted_listing [of s] show ?thesis
    by (intro newest_first_unique) (simp_all add: newest_first_files_def)
qed

lemma files_canonical: "files_are J fs s \<Longrightarrow> f \<in> set fs \<Longrightarrow> canonical f"
  by (auto simp: files_are_def cache_inv_def file_ok_def archives_def simp flip: image_iff) fastforce

lemma drop_dupe_none:
  "distinct (map af_starttime (kept @ fs)) \<Longrightarrow> io_fold drop_dupe fs kept s = (Inr (kept @ fs), s)"
proof (induction fs arbitrary: kept)
  case (Cons f fs)
  then have "af_starttime f \<notin> af_starttime ` set kept" by auto
  with Cons show ?case by (simp add: drop_dupe_def io_bind_def io_return_def)
qed (simp add: io_return_def)

lemma fst_image_filter: "fst ` {(g, l). (g, l) \<in> A \<and> P g} = {g \<in> fst ` A. P g}"
  by force

lemma files_put_new:
  assumes "files_are J fs s" and "canonical f" and "\<forall>g \<in> set fs. af_starttime g < af_starttime f"
  shows "files_are J (f # fs) (s\<lparr>fs_dir := al_put (af_name f) [] (fs_dir s)\<rparr>)"
proof -
  have "f \<notin> set fs" using assms(3) by auto
  then have "archive_set (s\<lparr>fs_dir := al_put (af_name f) [] (fs_dir s)\<rparr>) = set (f # fs)"
    using assms(1) unfolding archives_put [OF parse_canonical [OF assms(2)]]
    by (auto simp: files_are_def fst_image_filter)
  moreover have "cache_inv J False (s\<lparr>fs_dir := al_put (af_name f) [] (fs_dir s)\<rparr>)"
    using assms by (intro cache_inv_put) (simp_all add: files_are_def file_ok_def file_tasks_def)
  ultimately show ?thesis
    using assms by (auto simp: files_are_def newest_first_files_def)
qed

lemma start_new_file_files:
  assumes J: "json_ok J" and now: "in_i64 now" "\<forall>g \<in> set fs. af_starttime g < now"
  shows "io_triple (files_are J fs) (start_new_file J cfg now fs)
           (\<lambda>fs' s. (\<exists>f. fs' = f # fs \<and> af_starttime f = now \<and> (uncompressed_files cfg = 0 \<longrightarrow> af_compressed f)) \<and>
              files_are J fs' s) (\<lambda>_. True)"
proof -
  let ?c = "uncompressed_files cfg = 0"
  let ?f = "\<lparr>af_name = archive_path now ?c, af_compressed = ?c, af_starttime = now\<rparr>"
  have can: "canonical ?f" using now(1) by (simp add: canonical_def)
  have new: "io_triple (files_are J fs) (new_file now ?c)
      (\<lambda>f s. f = ?f \<and> files_are J (?f # fs) s) (\<lambda>_. True)"
    unfolding new_file_def Let_def
    apply (rule io_triple_bind, rule io_triple_writer, simp, simp)
    apply (rule io_triple_bind, rule io_triple_commit [where Q = "\<lambda>_. files_are J (?f # fs)"], simp, simp)
     apply (rule files_put_new [OF _ can], assumption, use now in simp)
    by (rule io_triple_return, simp)
  have apply_j: "io_triple (files_are J gs) (apply_journal J) (\<lambda>_. files_are J gs) (\<lambda>_. True)" for gs
  proof -
    have "io_inv (files_are J gs) (apply_journal J)"
      using io_inv_apply_journal [OF J, of False] io_inv_names_apply [where J = J and F = "set gs"]
      unfolding io_inv_def files_are_def by simp
    then show ?thesis by (intro io_triple_conseq [OF io_triple_inv]) auto
  qed
  show ?thesis
    unfolding start_new_file_def
    apply (rule io_triple_bind [OF new], rule io_triple_pure)
    apply (simp only:, rule io_triple_bind [OF apply_j])
    by (rule io_triple_return) auto
qed

lemma files_del_last:
  assumes "files_are J (fs @ [f]) s"
  shows "files_are J fs (s\<lparr>fs_dir := al_del (af_name f) (fs_dir s)\<rparr>)"
proof -
  have "f \<notin> set fs" using assms by (auto simp: files_are_def newest_first_files_def sorted_wrt_append)
  moreover have "g = f" if "g \<in> set (fs @ [f])" "af_name g = af_name f" for g
    using files_canonical [OF assms] that canonical_eq by simp
  ultimately have "{g \<in> archive_set s. af_name g \<noteq> af_name f} = set fs"
    using assms unfolding files_are_def by auto
  moreover have "archive_set (s\<lparr>fs_dir := al_del (af_name f) (fs_dir s)\<rparr>) = {g \<in> archive_set s. af_name g \<noteq> af_name f}"
    by (force simp: archives_del)
  ultimately show ?thesis
    using assms cache_inv_del by (auto simp: files_are_def newest_first_files_def sorted_wrt_append)
qed

lemma trim_files_files:
  "io_triple (files_are J fs) (trim_files cfg fs)
     (\<lambda>fs' s. fs' = take (max_files cfg) fs \<and> files_are J fs' s) (\<lambda>_. True)"
proof (induction cfg fs rule: trim_files.induct)
  case (1 cfg fs)
  show ?case
  proof (cases "length fs \<le> max_files cfg")
    case True
    then show ?thesis by (subst trim_files.simps) (auto intro: io_triple_return)
  next
    case False
    then obtain gs g where fs: "fs = gs @ [g]" by (cases fs rule: rev_cases) auto
    have "io_triple (files_are J fs) (remove_file (af_name g)) (\<lambda>_. files_are J gs) (\<lambda>_. True)"
      by (rule io_triple_remove) (auto simp: fs intro: files_del_last)
    from io_triple_bind [OF this] 1 [OF False] False fs show ?thesis
      by (subst trim_files.simps) simp
  qed
qed

text \<open>Compressing replaces a file by its compressed version, which has the same start time.\<close>

lemma newest_first_replace:
  "newest_first_files (A @ f # B) \<Longrightarrow> af_starttime g = af_starttime f \<Longrightarrow> newest_first_files (A @ g # B)"
  by (auto simp: newest_first_files_def sorted_wrt_append)

lemma start_set_compressed [simp]: "af_starttime (set_compressed c f) = af_starttime f"
  by (simp add: set_compressed_def)

lemma compressed_set_compressed [simp]: "af_compressed (set_compressed c f) = c"
  by (simp add: set_compressed_def)

lemma set_compressed_same: "canonical f \<Longrightarrow> af_compressed f = c \<Longrightarrow> set_compressed c f = f"
  by (simp add: canonical_def set_compressed_def)

lemma files_compress:
  assumes files: "files_are J (A @ f # B) s" and ls: "file_ok J (set_compressed True f) ls"
    and un: "\<not> af_compressed f"
    and s': "s' = s\<lparr>fs_dir := al_put (af_name (set_compressed True f)) ls (fs_dir s)\<rparr>"
  shows "files_are J (A @ set_compressed True f # B) (s'\<lparr>fs_dir := al_del (af_name f) (fs_dir s')\<rparr>)"
proof -
  let ?nf = "set_compressed True f"
  have can: "canonical f" using files_canonical [OF files] by simp
  have nf: "canonical ?nf" by (rule canonical_set_compressed [OF can])
  have dist: "newest_first_files (A @ f # B)" using files by (simp add: files_are_def)
  have new: "newest_first_files (A @ ?nf # B)" by (rule newest_first_replace [OF dist]) simp
  have inv: "cache_inv J False s'"
    using files ls unfolding s' by (intro cache_inv_put) (simp_all add: files_are_def)
  have "archive_set s' = insert ?nf {g \<in> set (A @ f # B). g \<noteq> ?nf}"
    using files unfolding s' archives_put [OF parse_canonical [OF nf]]
    by (simp add: files_are_def fst_image_filter)
  then have "archive_set s' = insert ?nf (set (A @ f # B))" by auto
  moreover have "g = f" if "g \<in> insert ?nf (set (A @ f # B))" "af_name g = af_name f" for g
    using that files_canonical [OF files] nf can canonical_eq by blast
  ultimately have "{g \<in> archive_set s'. af_name g \<noteq> af_name f} = insert ?nf (set (A @ f # B)) - {f}"
    by blast
  moreover have "?nf \<noteq> f" using un by (metis compressed_set_compressed)
  moreover have "f \<notin> set A \<union> set B"
    using dist by (auto simp: newest_first_files_def sorted_wrt_append)
  ultimately have "{g \<in> archive_set s'. af_name g \<noteq> af_name f} = set (A @ ?nf # B)" by auto
  with inv new show ?thesis
    by (auto simp: files_are_def archives_del fst_image_filter cache_inv_del)
qed

lemma compress_file_files:
  assumes J: "json_ok J" and un: "\<not> af_compressed f"
  shows "io_triple (files_are J (A @ f # B)) (compress_archive_file J f)
           (\<lambda>_. files_are J (A @ set_compressed True f # B)) (\<lambda>_. True)"
proof -
  let ?nf = "set_compressed True f"
  let ?P = "files_are J (A @ f # B)"
  let ?R = "\<lambda>items s. ?P s \<and> file_ok J ?nf (encode_tasks J (oks items))"
  let ?S = "\<lambda>items s'. \<exists>s. ?R items s \<and>
      s' = s\<lparr>fs_dir := al_put (af_name ?nf) (encode_tasks J (oks items)) (fs_dir s)\<rparr>"
  have ok: "file_ok J ?nf (encode_tasks J (oks (archive_items J ls)))"
    if "?P s" "al_get (fs_dir s) (af_name f) = Some ls" for s ls
  proof -
    have can: "canonical f" using files_canonical [OF that(1)] by simp
    have "(f, ls) \<in> archives s" using that(2) parse_canonical [OF can] by (simp add: archives_def)
    with that(1) have "file_ok J f ls" by (auto simp: files_are_def cache_inv_def)
    with canonical_set_compressed [OF can] J show ?thesis
      by (simp add: file_ok_def flip: file_tasks_def)
  qed
  have free: "sched_free (?R items)" for items by (auto simp: sched_free_def files_are_def)
  have remove: "io_triple (?S items) (remove_file (af_name f)) (\<lambda>_. files_are J (A @ ?nf # B)) (\<lambda>_. True)" for items
  proof (rule io_triple_remove)
    show "sched_free (?S items)"
      unfolding sched_free_def
    proof (intro allI impI)
      fix s' :: "'a task_fs" and x assume "?S items s'"
      then obtain s where s: "?R items s"
        "s' = s\<lparr>fs_dir := al_put (af_name ?nf) (encode_tasks J (oks items)) (fs_dir s)\<rparr>" by blast
      show "?S items (s'\<lparr>fs_sched := x\<rparr>)"
        using s by (intro exI [of _ "s\<lparr>fs_sched := x\<rparr>"]) (simp add: files_are_def)
    qed
  qed (auto intro: files_compress [OF _ _ un])
  have rest: "io_triple (?R items)
      (io_bind (file_writer ?nf) (\<lambda>_. io_bind (write_tasks J (oks items))
         (\<lambda>ls. io_bind (commit ?nf ls) (\<lambda>_. io_bind (remove_file (af_name f))
            (\<lambda>_. io_return (if 0 < errors items then Corrupted else Valid))))))
      (\<lambda>_. files_are J (A @ ?nf # B)) (\<lambda>_. True)" for items
    apply (rule io_triple_bind, rule io_triple_writer [OF free], simp)
    apply (rule io_triple_bind, rule io_triple_write_tasks [OF free], simp)
    apply (rule io_triple_pure, simp only:)
    apply (rule io_triple_bind, rule io_triple_commit [OF free, where Q = "\<lambda>_. ?S items"], simp, blast)
    by (rule io_triple_bind [OF remove], rule io_triple_return)
  show ?thesis
    unfolding compress_archive_file_def Let_def
    apply (rule io_triple_bind, rule io_triple_iter, simp, simp)
    apply (rule io_triple_case_option, rule io_triple_fail, simp)
    by (rule io_triple_conseq [OF rest]) (auto intro: ok)
qed

lemma compress_fold_files:
  assumes J: "json_ok J"
  shows "io_triple (files_are J (A @ fs)) (io_fold (compress_step J) fs c)
           (\<lambda>_. files_are J (A @ map (set_compressed True) fs)) (\<lambda>_. True)"
proof (induction fs arbitrary: A c)
  case Nil
  then show ?case by (auto intro: io_triple_return)
next
  case (Cons f fs)
  have step: "io_triple (files_are J (A @ f # fs)) (compress_step J f c)
      (\<lambda>_. files_are J (A @ set_compressed True f # fs)) (\<lambda>_. True)"
  proof (cases "af_compressed f")
    case True
    then have "files_are J (A @ set_compressed True f # fs) s" if "files_are J (A @ f # fs) s" for s
      using that files_canonical [OF that, of f] by (simp add: set_compressed_same)
    with True show ?thesis by (auto simp: compress_step_def intro: io_triple_return)
  next
    case False
    then show ?thesis
      by (simp add: compress_step_def)
        (rule io_triple_bind [OF compress_file_files [OF J False]], rule io_triple_return)
  qed
  have "io_triple (files_are J (A @ set_compressed True f # fs)) (io_fold (compress_step J) fs d)
      (\<lambda>_. files_are J (A @ map (set_compressed True) (f # fs))) (\<lambda>_. True)" for d
    using Cons.IH [of "A @ [set_compressed True f]"] by simp
  then show ?case
    unfolding io_fold.simps by (rule io_triple_bind [OF step])
qed

lemma list_archives_files:
  assumes "files_are J fs s"
  shows "list_archives s = fs"
proof (rule newest_first_unique)
  from assms show fs: "newest_first_files fs" by (simp add: files_are_def)
  from assms show set: "set (list_archives s) = set fs" by (simp add: files_are_def set_list_archives)
  have "distinct (list_archives s)"
    using assms by (intro distinct_list_archives) (simp add: files_are_def cache_inv_def)
  moreover have "inj_on (\<lambda>f. - af_starttime f) (set (list_archives s))"
    using newest_first_distinct [OF fs] by (simp add: set distinct_map inj_on_def)
  ultimately have "sorted_wrt (<) (map (\<lambda>f. - af_starttime f) (list_archives s))"
    using sorted_list_archives by (simp add: strict_sorted_iff distinct_map)
  then show "newest_first_files (list_archives s)"
    by (simp add: newest_first_files_def sorted_wrt_map)
qed

lemma rotation_due_newer:
  assumes "newest_first_files fs" and "rotation_due cfg now fs"
  shows "\<forall>g \<in> set fs. af_starttime g < now"
  using assms by (cases fs) (auto simp: rotation_due_def newest_first_files_def)

lemma rotation_due_iff:
  assumes "newest_first_files fs" and "in_i64 now" and "\<forall>f \<in> set fs. 0 \<le> af_starttime f"
    and "0 \<le> rotate_after cfg" and "rotate_after cfg < 2 ^ 63"
  shows "rotation_due cfg now fs \<longleftrightarrow> (\<forall>f \<in> set fs. af_starttime f + rotate_after cfg \<le> now \<and> af_starttime f < now)"
proof (cases fs)
  case (Cons g gs)
  have "wrap64 (rotate_after cfg) = rotate_after cfg"
    using assms(4,5) by (intro wrap64_id) (simp add: in_i64_def)
  moreover have "wrap64 (now - af_starttime g) = now - af_starttime g" if "af_starttime g < now"
    using that assms(2,3) Cons by (intro wrap64_id) (auto simp: in_i64_def)
  moreover have "af_starttime f < af_starttime g" if "f \<in> set gs" for f
    using that assms(1) Cons by (simp add: newest_first_files_def)
  ultimately show ?thesis
    by (fastforce simp: Cons rotation_due_def)
qed (simp add: rotation_due_def)

text \<open>
  What follows the removal of duplicates, on files that are the archive.
\<close>

lemma rotate_rest:
  assumes J: "json_ok J" and now: "in_i64 now" and nf: "newest_first_files fs"
  shows "io_triple (files_are J fs)
           (io_bind (if rotation_due cfg now fs then start_new_file J cfg now fs else io_return fs)
              (\<lambda>files'. io_bind (trim_files cfg files')
                (\<lambda>kept. io_bind (io_fold (compress_step J) (drop (uncompressed_files cfg) kept) [])
                  (\<lambda>corrupted. io_bind
                     (if corrupted = [] then io_return () else request_repair corrupted)
                     (\<lambda>_. io_return (rotation_due cfg now fs))))))
           (\<lambda>due s. due = rotation_due cfg now fs \<and>
              (\<exists>new. map af_starttime new = (if due then [now] else []) \<and>
                 files_are J (let kept = take (max_files cfg) (new @ fs); u = uncompressed_files cfg
                              in take u kept @ map (set_compressed True) (drop u kept)) s))
           (\<lambda>_. True)"
proof -
  let ?due = "rotation_due cfg now fs"
  let ?new = "\<lambda>fs'. \<exists>new. fs' = new @ fs \<and> map af_starttime new = (if ?due then [now] else [])"
  have start: "io_triple (files_are J fs)
      (if ?due then start_new_file J cfg now fs else io_return fs)
      (\<lambda>fs' s. ?new fs' \<and> files_are J fs' s) (\<lambda>_. True)"
  proof (cases ?due)
    case True
    have "io_triple (files_are J fs) (start_new_file J cfg now fs)
        (\<lambda>fs' s. ?new fs' \<and> files_are J fs' s) (\<lambda>_. True)"
      by (rule io_triple_conseq [OF start_new_file_files [OF J now rotation_due_newer [OF nf True]]])
        (use True in \<open>auto simp: Cons_eq_append_conv\<close>)
    with True show ?thesis by simp
  next
    case False
    then show ?thesis by (auto intro: io_triple_return)
  qed
  have compress: "io_triple (files_are J kept)
      (io_fold (compress_step J) (drop (uncompressed_files cfg) kept) [])
      (\<lambda>_. files_are J (take (uncompressed_files cfg) kept @
             map (set_compressed True) (drop (uncompressed_files cfg) kept))) (\<lambda>_. True)" for kept
    using compress_fold_files [OF J, of "take (uncompressed_files cfg) kept" "drop (uncompressed_files cfg) kept"]
    by simp
  have repair: "io_triple (files_are J gs) (if c = [] then io_return () else request_repair c)
      (\<lambda>_. files_are J gs) (\<lambda>_. True)" for gs c
    by (intro io_triple_if io_triple_return io_triple_repair) (simp_all add: files_are_def)
  show ?thesis
    unfolding Let_def
    apply (rule io_triple_bind [OF start], rule io_triple_pure)
    apply (rule io_triple_bind [OF trim_files_files], rule io_triple_pure, simp only:)
    apply (rule io_triple_bind [OF compress], rule io_triple_bind [OF repair], rule io_triple_return)
    by (elim exE conjE) (intro conjI exI; simp)
qed

text \<open>The first file of each start time: what is left of a list of files when duplicates are removed.\<close>

fun firsts :: "int set \<Rightarrow> archive_file list \<Rightarrow> archive_file list" where
  "firsts seen [] = []"
| "firsts seen (f # fs) =
     (if af_starttime f \<in> seen then firsts seen fs else f # firsts (insert (af_starttime f) seen) fs)"

lemma set_firsts: "set (firsts seen fs) \<subseteq> set fs"
  by (induction seen fs rule: firsts.induct) auto

lemma firsts_dedup_from:
  assumes "sorted (map (\<lambda>f. - af_starttime f) (x # xs))"
    and "\<And>f. f \<in> set (x # xs) \<Longrightarrow> af_starttime f \<in> seen \<Longrightarrow> af_starttime f = af_starttime x"
  shows "dedup_from (\<lambda>a b. af_starttime a = af_starttime b) x xs = x # firsts (insert (af_starttime x) seen) xs"
  using assms
proof (induction xs arbitrary: x seen)
  case (Cons y ys)
  show ?case
  proof (cases "af_starttime y = af_starttime x")
    case True
    have "sorted (map (\<lambda>f. - af_starttime f) (x # ys))" using Cons.prems(1) by simp
    then have "dedup_from (\<lambda>a b. af_starttime a = af_starttime b) x ys = x # firsts (insert (af_starttime x) seen) ys"
      by (rule Cons.IH) (rule Cons.prems(2), auto)
    with True show ?thesis by simp
  next
    case False
    with Cons.prems(1) have "af_starttime y < af_starttime x" and below: "\<forall>f \<in> set ys. af_starttime f \<le> af_starttime y"
      by auto
    then have "af_starttime f \<noteq> af_starttime x" if "f \<in> set (y # ys)" for f
      using that by auto
    then have "dedup_from (\<lambda>a b. af_starttime a = af_starttime b) y ys =
        y # firsts (insert (af_starttime y) (insert (af_starttime x) seen)) ys"
      by (intro Cons.IH) (use Cons.prems(1) in simp, metis Cons.prems(2) insert_iff list.set_intros(2))
    moreover have "af_starttime y \<notin> seen" using Cons.prems(2) [of y] False by auto
    ultimately show ?thesis using False by simp
  qed
qed (simp only: dedup_from.simps firsts.simps)

lemma firsts_listing: "firsts {} (list_archives s) = listing s"
proof (cases "list_archives s")
  case (Cons x xs)
  have "dedup_from (\<lambda>a b. af_starttime a = af_starttime b) x xs = x # firsts (insert (af_starttime x) {}) xs"
    by (rule firsts_dedup_from) (use sorted_list_archives [of s] Cons in simp_all)
  then show ?thesis by (simp add: Cons listing_def dedup_archives_def dedup_by_def)
qed (simp add: listing_def dedup_archives_def dedup_by_def)

lemma drop_dupe_run:
  assumes "fs_sched s = []" and "cache_inv J False s" and "set fs \<subseteq> archive_set s" and "distinct fs"
  shows "\<exists>s'. io_fold drop_dupe fs kept s = (Inr (kept @ firsts (af_starttime ` set kept) fs), s') \<and>
    fs_sched s' = [] \<and> cache_inv J False s' \<and>
    archive_set s' = archive_set s - (set fs - set (firsts (af_starttime ` set kept) fs))"
  using assms
proof (induction fs arbitrary: kept s)
  case Nil
  then show ?case by (simp add: io_return_def)
next
  case (Cons f fs)
  show ?case
  proof (cases "af_starttime f \<in> af_starttime ` set kept")
    case False
    have "\<exists>s'. io_fold drop_dupe fs (kept @ [f]) s = (Inr ((kept @ [f]) @ firsts (af_starttime ` set (kept @ [f])) fs), s') \<and>
        fs_sched s' = [] \<and> cache_inv J False s' \<and>
        archive_set s' = archive_set s - (set fs - set (firsts (af_starttime ` set (kept @ [f])) fs))"
      by (rule Cons.IH) (use Cons.prems in auto)
    moreover have "set fs - X = set (f # fs) - set (f # Y)" if "X = set Y" for X Y using that Cons.prems(4) by auto
    moreover have "drop_dupe f kept s = (Inr (kept @ [f]), s)" using False by (simp add: drop_dupe_def io_return_def)
    ultimately show ?thesis
      using False by (simp add: io_bind_def)
  next
    case True
    let ?s = "s\<lparr>fs_dir := al_del (af_name f) (fs_dir s)\<rparr>"
    have "f \<in> archive_set s" using Cons.prems(3) by simp
    then obtain ls where f: "al_get (fs_dir s) (af_name f) = Some ls" unfolding archive_set_iff by blast
    have canon: "canonical g" if "g \<in> archive_set s" for g
      using that Cons.prems(2) by (auto simp: cache_inv_def file_ok_def)
    have "archive_set ?s = {g \<in> archive_set s. af_name g \<noteq> af_name f}" by (force simp: archives_del)
    also have "\<dots> = {g \<in> archive_set s. g \<noteq> f}"
      by (rule Collect_cong) (metis canon canonical_eq \<open>f \<in> archive_set s\<close>)
    finally have set: "archive_set ?s = archive_set s - {f}" by (simp add: set_diff_eq)
    have rm: "remove_file (af_name f) s = (Inr (), ?s)"
      using f Cons.prems(1) by (simp add: remove_file_def sys_def io_bind_def io_return_def)
    have "\<exists>s'. io_fold drop_dupe fs kept ?s = (Inr (kept @ firsts (af_starttime ` set kept) fs), s') \<and>
        fs_sched s' = [] \<and> cache_inv J False s' \<and>
        archive_set s' = archive_set ?s - (set fs - set (firsts (af_starttime ` set kept) fs))"
      by (rule Cons.IH) (use Cons.prems set cache_inv_del in auto)
    moreover have "drop_dupe f kept s = (Inr kept, ?s)"
      using True by (simp add: drop_dupe_def io_bind_def io_try_def rm io_return_def)
    moreover have "f \<notin> set (firsts (af_starttime ` set kept) fs)" using set_firsts Cons.prems(4) by fastforce
    ultimately show ?thesis
      using True by (auto simp: io_bind_def set)
  qed
qed

lemma files_without_dupes:
  assumes "cache_inv J False s" and "distinct (map af_starttime (list_archives s))"
  shows "files_are J (list_archives s) s" and "list_archives s = listing s"
proof -
  have "sorted_wrt (<) (map (\<lambda>f. - af_starttime f) (list_archives s))"
    using sorted_list_archives [of s] assms(2) by (simp add: strict_sorted_iff distinct_map inj_on_def)
  then have "newest_first_files (list_archives s)" by (simp add: newest_first_files_def sorted_wrt_map)
  with assms(1) show "files_are J (list_archives s) s" by (simp add: files_are_def set_list_archives)
  then show "list_archives s = listing s" by (simp add: listing_files)
qed

text \<open>Duplicates are removed: there are none, or no call fails.\<close>

lemma dupes_removed:
  assumes inv: "cache_inv J False s" and "distinct (map af_starttime (list_archives s)) \<or> fs_sched s = []"
    and run: "io_bind archive_files_with_dupes (\<lambda>all. io_bind (io_fold drop_dupe all []) f) s = (Inr x, s')"
  shows "\<exists>s1. files_are J (listing s) s1 \<and> f (listing s) s1 = (Inr x, s')"
  using assms(2)
proof
  assume distinct: "distinct (map af_starttime (list_archives s))"
  note files = files_without_dupes [OF inv distinct]
  from run obtain s1 where s1: "files_are J (list_archives s) s1" and rest: "io_bind (io_fold drop_dupe (list_archives s) []) f s1 = (Inr x, s')"
  proof -
    have "io_triple (files_are J (list_archives s)) archive_files_with_dupes
        (\<lambda>all s1. all = list_archives s \<and> files_are J (list_archives s) s1) (\<lambda>_. True)"
      unfolding archive_files_with_dupes_def by (rule io_triple_sys) (auto simp: list_archives_files)
    note all = io_triple_InrD [OF this files(1)]
    from run obtain fs s1 where "archive_files_with_dupes s = (Inr fs, s1)" "io_bind (io_fold drop_dupe fs []) f s1 = (Inr x, s')"
      by (auto simp: io_bind_eq_Inr [of archive_files_with_dupes])
    with all [of fs s1] that show ?thesis by blast
  qed
  have "io_fold drop_dupe (list_archives s) [] s1 = (Inr (list_archives s), s1)"
    using drop_dupe_none [of "[]" "list_archives s" s1] distinct by simp
  with rest have "f (list_archives s) s1 = (Inr x, s')" by (simp add: io_bind_def)
  with s1 show ?thesis unfolding files(2) [symmetric] by blast
next
  assume sched: "fs_sched s = []"
  have "distinct (list_archives s)" using inv by (intro distinct_list_archives) (simp add: cache_inv_def)
  from drop_dupe_run [OF sched inv _ this, where kept = "[]"] obtain s1 where
    s1: "io_fold drop_dupe (list_archives s) [] s = (Inr (listing s), s1)" "cache_inv J False s1"
      "archive_set s1 = archive_set s - (archive_set s - set (listing s))"
    by (auto simp: firsts_listing set_list_archives)
  have "archive_set s1 = set (listing s)" using s1(3) set_listing_subset [of s] by blast
  then have "files_are J (listing s) s1"
    using s1(2) sorted_listing [of s] by (simp add: files_are_def newest_first_files_def)
  then show ?thesis
    using run s1(1) sched by (auto simp: archive_files_with_dupes_def sys_def io_bind_def)
qed

section \<open>Properties\<close>



end
