(* ===== verification/BackOff.thy ===== *)
theory BackOff
  imports Prelude
begin

text \<open>
  The back-off state of an unreachable host, from \<^verbatim>\<open>server/src/remote_cache/back_off.rs\<close>. Times are
  \<^verbatim>\<open>i64\<close> seconds with the wrap-around of a release build written out; the doubling count is a \<^verbatim>\<open>u32\<close>
  that \<open>back_off_ok\<close> keeps at most 5, so that the power of two cannot overflow.
\<close>

definition BACK_OFF_BASE_TIME_S :: int where "BACK_OFF_BASE_TIME_S = 10"

definition BACK_OFF_MAX_TIME_S :: int where "BACK_OFF_MAX_TIME_S = 3 * 60"

definition BACK_OFF_MIN_TIME_S :: int where "BACK_OFF_MIN_TIME_S = 10 * 60"

record back_off_state =
  bo_doubling_count :: nat
  bo_last_error :: str
  bo_first_fail_time :: int
  bo_next_try :: int

definition back_off_new :: "int \<Rightarrow> str \<Rightarrow> back_off_state" where
  "back_off_new time err =
     \<lparr>bo_doubling_count = 0, bo_last_error = err, bo_first_fail_time = time, bo_next_try = time\<rparr>"

definition time_to_next_try :: "back_off_state \<Rightarrow> int \<Rightarrow> nat" where
  "time_to_next_try b current_time = nat (max (sat64 (bo_next_try b - current_time)) 0)"

definition retried :: "int \<Rightarrow> str \<Rightarrow> back_off_state \<Rightarrow> int option \<times> back_off_state" where
  "retried time err b0 =
     (let b = b0\<lparr>bo_last_error := err\<rparr>
      in if 0 < time_to_next_try b time then (None, b)
         else if bo_doubling_count b = 0 \<and>
                 wrap64 (time - bo_first_fail_time b) < BACK_OFF_MIN_TIME_S then (None, b)
         else let wait = min (wrap64 (BACK_OFF_BASE_TIME_S * wrap64 (2 ^ bo_doubling_count b)))
                           BACK_OFF_MAX_TIME_S;
                  b' = (if wait < BACK_OFF_MAX_TIME_S
                        then b\<lparr>bo_doubling_count := bo_doubling_count b + 1\<rparr> else b)
              in (Some (wrap64 (time + wait)), b'\<lparr>bo_next_try := wrap64 (time + wait)\<rparr>))"

lemmas back_off_consts = BACK_OFF_BASE_TIME_S_def BACK_OFF_MAX_TIME_S_def BACK_OFF_MIN_TIME_S_def

text \<open>The waiting time after \<open>n\<close> doublings.\<close>

definition wait_after :: "nat \<Rightarrow> int" where
  "wait_after n = min (10 * 2 ^ n) 180"

definition back_off_ok :: "back_off_state \<Rightarrow> bool" where
  "back_off_ok b \<longleftrightarrow> bo_doubling_count b \<le> 5"

lemma count_le_5: "(n :: nat) \<le> 5 \<longleftrightarrow> n \<in> {0, 1, 2, 3, 4, 5}"
  by auto

lemma wait_exact:
  "n \<le> 5 \<Longrightarrow> min (wrap64 (BACK_OFF_BASE_TIME_S * wrap64 (2 ^ n))) BACK_OFF_MAX_TIME_S = wait_after n"
  unfolding count_le_5 by (auto simp: wait_after_def back_off_consts wrap64_def)

lemma wait_after_bounds: "10 \<le> wait_after n" "wait_after n \<le> 180"
proof -
  have "1 \<le> (2 :: int) ^ n" by simp
  then show "10 \<le> wait_after n" by (simp add: wait_after_def)
  show "wait_after n \<le> 180" by (simp add: wait_after_def)
qed

lemma wait_after_less: "n \<le> 5 \<Longrightarrow> wait_after n < 180 \<longleftrightarrow> n < 5"
  unfolding count_le_5 by (auto simp: wait_after_def)

lemma wait_after_cap: "5 \<le> n \<Longrightarrow> wait_after n = 180"
proof -
  assume "5 \<le> n"
  then have "(2 :: int) ^ 5 \<le> 2 ^ n" by (intro power_increasing) auto
  then show ?thesis by (simp add: wait_after_def)
qed

text \<open>The three ways a retry can go.\<close>

lemma retried_cases [consumes 1, case_names waiting young escalate]:
  assumes "back_off_ok b"
  obtains "0 < time_to_next_try b time" "retried time err b = (None, b\<lparr>bo_last_error := err\<rparr>)"
  | "time_to_next_try b time = 0" "bo_doubling_count b = 0" "wrap64 (time - bo_first_fail_time b) < 600"
    "retried time err b = (None, b\<lparr>bo_last_error := err\<rparr>)"
  | "time_to_next_try b time = 0"
    "0 < bo_doubling_count b \<or> 600 \<le> wrap64 (time - bo_first_fail_time b)"
    "retried time err b =
       (Some (wrap64 (time + wait_after (bo_doubling_count b))),
        \<lparr>bo_doubling_count = min (Suc (bo_doubling_count b)) 5, bo_last_error = err,
         bo_first_fail_time = bo_first_fail_time b,
         bo_next_try = wrap64 (time + wait_after (bo_doubling_count b))\<rparr>)"
proof -
  have same: "time_to_next_try (b\<lparr>bo_last_error := err\<rparr>) time = time_to_next_try b time"
    by (simp add: time_to_next_try_def)
  have n: "bo_doubling_count b \<le> 5" using assms by (simp add: back_off_ok_def)
  consider "0 < time_to_next_try b time"
    | "time_to_next_try b time = 0" "bo_doubling_count b = 0 \<and> wrap64 (time - bo_first_fail_time b) < 600"
    | "time_to_next_try b time = 0" "\<not> (bo_doubling_count b = 0 \<and> wrap64 (time - bo_first_fail_time b) < 600)"
    by blast
  then show ?thesis
  proof cases
    case 1
    then show ?thesis using that(1) same by (simp add: retried_def Let_def)
  next
    case 2
    then show ?thesis using that(2) same by (simp add: retried_def Let_def BACK_OFF_MIN_TIME_S_def)
  next
    case 3
    have "retried time err b =
       (Some (wrap64 (time + wait_after (bo_doubling_count b))),
        \<lparr>bo_doubling_count = min (Suc (bo_doubling_count b)) 5, bo_last_error = err,
         bo_first_fail_time = bo_first_fail_time b,
         bo_next_try = wrap64 (time + wait_after (bo_doubling_count b))\<rparr>)"
      using 3 same n wait_after_less [OF n] wait_exact [OF n]
      by (cases b) (auto simp: retried_def Let_def BACK_OFF_MIN_TIME_S_def BACK_OFF_MAX_TIME_S_def min_def)
    with 3 show ?thesis using that(3) by auto
  qed
qed

lemma back_off_ok_retried: "back_off_ok b \<Longrightarrow> back_off_ok (snd (retried time err b))"
  by (cases rule: retried_cases [of b time err]) (auto simp: back_off_ok_def)

text \<open>A sequence of failures of one host: the time and the error of each.\<close>

fun failures :: "(int \<times> str) list \<Rightarrow> back_off_state \<Rightarrow> back_off_state" where
  "failures [] b = b"
| "failures ((time, err) # fs) b = failures fs (snd (retried time err b))"

lemma failures_invariant:
  assumes "back_off_ok b" and "in_i64 (bo_next_try b)" and "bo_next_try b \<le> t0 + 180"
    and "sorted (t0 # map fst fs)" and "\<forall>t \<in> fst ` set fs. in_i64 t \<and> t + 180 < 2 ^ 63"
  shows "back_off_ok (failures fs b) \<and> in_i64 (bo_next_try (failures fs b)) \<and>
         bo_next_try (failures fs b) \<le> last (t0 # map fst fs) + 180"
  using assms
proof (induction fs arbitrary: b t0)
  case (Cons f fs)
  obtain t e where f: "f = (t, e)" by (cases f)
  let ?b = "snd (retried t e b)"
  from Cons.prems f have t: "t0 \<le> t" "in_i64 t" "t + 180 < 2 ^ 63" by auto
  have ok: "back_off_ok ?b" by (rule back_off_ok_retried [OF Cons.prems(1)])
  have "in_i64 (bo_next_try ?b) \<and> bo_next_try ?b \<le> t + 180"
    using Cons.prems(1)
  proof (cases rule: retried_cases [of b t e])
    case escalate
    have "in_i64 (t + wait_after (bo_doubling_count b))"
      using wait_after_bounds [of "bo_doubling_count b"] t by (auto simp: in_i64_def)
    with escalate wait_after_bounds [of "bo_doubling_count b"] show ?thesis by simp
  qed (use Cons.prems t in auto)
  with Cons.IH [of ?b t] ok Cons.prems f show ?case by auto
qed simp

text \<open>An uninterrupted outage: the host is tried again whenever that is allowed.\<close>

fun outage :: "int \<Rightarrow> nat \<Rightarrow> int \<times> back_off_state" where
  "outage t0 0 = (t0 + 600, back_off_new t0 [])"
| "outage t0 (Suc n) =
     (let (t, b) = outage t0 n; b' = snd (retried t [] b) in (bo_next_try b', b'))"

lemma outage_Suc:
  assumes "0 \<le> t0" and "t0 + 600 + 180 * int (Suc n) < 2 ^ 63"
  shows "fst (outage t0 (Suc n)) = fst (outage t0 n) + wait_after n \<and>
         fst (outage t0 (Suc n)) \<le> t0 + 600 + 180 * int (Suc n) \<and>
         bo_doubling_count (snd (outage t0 (Suc n))) = min (Suc n) 5 \<and>
         bo_next_try (snd (outage t0 (Suc n))) = fst (outage t0 (Suc n)) \<and>
         bo_first_fail_time (snd (outage t0 (Suc n))) = t0 \<and> 0 \<le> fst (outage t0 (Suc n))"
  using assms
proof (induction n)
  case 0
  have ok: "back_off_ok (back_off_new t0 [])" by (simp add: back_off_ok_def back_off_new_def)
  have "time_to_next_try (back_off_new t0 []) (t0 + 600) = 0"
    by (simp add: time_to_next_try_def back_off_new_def sat64_def)
  moreover have "wrap64 (t0 + 600 - t0) = 600" by (simp add: wrap64_def)
  moreover have "wrap64 (t0 + 600 + wait_after 0) = t0 + 610"
    using 0 by (simp add: wait_after_def in_i64_def)
  ultimately show ?case
    using 0 by (cases rule: retried_cases [OF ok, of "t0 + 600" "[]"])
      (auto simp: back_off_new_def wait_after_def)
next
  case (Suc n)
  obtain t b where o: "outage t0 (Suc n) = (t, b)" by (cases "outage t0 (Suc n)")
  from Suc.IH Suc.prems o have b: "t \<le> t0 + 600 + 180 * int (Suc n)" "0 \<le> t"
    "bo_doubling_count b = min (Suc n) 5" "bo_next_try b = t" "bo_first_fail_time b = t0" by auto
  have ok: "back_off_ok b" by (simp add: back_off_ok_def b)
  have zero: "time_to_next_try b t = 0" by (simp add: time_to_next_try_def b sat64_def)
  have wait: "wait_after (min (Suc n) 5) = wait_after (Suc n)"
    by (cases "Suc n \<le> 5") (auto simp: wait_after_cap min_def)
  have no_wrap: "wrap64 (t + wait_after (Suc n)) = t + wait_after (Suc n)"
    using b Suc.prems wait_after_bounds [of "Suc n"] by (intro wrap64_id) (auto simp: in_i64_def)
  have r: "retried t [] b = (Some (t + wait_after (Suc n)),
      \<lparr>bo_doubling_count = min (Suc (Suc n)) 5, bo_last_error = [], bo_first_fail_time = t0,
       bo_next_try = t + wait_after (Suc n)\<rparr>)"
    using zero b wait no_wrap by (cases rule: retried_cases [OF ok, of t "[]"]) auto
  show ?case
    unfolding outage.simps(2) [of t0 "Suc n"] o
    using b Suc.prems wait_after_bounds [of "Suc n"] by (simp add: r Let_def)
qed

section \<open>Properties\<close>



text \<open>
  Exponential back-off: in an outage that starts at \<open>t0\<close>, with a retry whenever one is allowed,
  back-off starts after ten minutes and the \<open>n\<close>-th waiting time is \<open>10 * 2 ^ n\<close> seconds, capped at 180.
\<close>

theorem back_off_exponential:
  assumes "0 \<le> t0" and "t0 + 600 + 180 * int (Suc n) < 2 ^ 63"
  shows "fst (outage t0 0) = t0 + 600 \<and>
         fst (outage t0 (Suc n)) - fst (outage t0 n) = min (10 * 2 ^ n) 180"
  using outage_Suc [OF assms] by (simp add: wait_after_def)

theorem back_off_exponential_witness:
  "fst (outage 0 1) - fst (outage 0 0) = 10 \<and> fst (outage 0 8) - fst (outage 0 7) = 180"
  using back_off_exponential [of 0 0] back_off_exponential [of 0 7] by simp

end
