(* ===== verification/RemoteCache.thy ===== *)
theory RemoteCache
  imports BackOff RemoteUpid
begin

text \<open>
  The remote mapping cache, from \<^verbatim>\<open>server/src/remote_cache/mod.rs\<close>: host names and node names of the
  remotes, the reachability of their hosts with back-off, and the canary remote that is queried
  while everything is offline. \<^verbatim>\<open>HashMap\<close>s that are iterated are association lists. The clock
  (\<^verbatim>\<open>epoch_i64\<close>) is an argument; the notification that \<^verbatim>\<open>mark_host_reachable\<close> sends is returned.
\<close>

section \<open>Hosts and remotes\<close>

datatype ConnectionState = Reachable | Unreachable str

record host_info =
  hi_hostname :: str
  hi_node_name :: "str option"
  hi_back_off :: "back_off_state option"

record remote_mapping =
  rm_ty :: RemoteType
  rm_hosts :: "(str, host_info) alist"
  rm_node_to_host :: "str \<rightharpoonup> str"

record mapping_cache =
  mc_remotes :: "(str, remote_mapping) alist"
  mc_canary :: "str option"

definition host_info_new :: "str \<Rightarrow> host_info" where
  "host_info_new hostname = \<lparr>hi_hostname = hostname, hi_node_name = None, hi_back_off = None\<rparr>"

definition host_set_reachable :: "int \<Rightarrow> ConnectionState \<Rightarrow> host_info \<Rightarrow> int option \<times> host_info" where
  "host_set_reachable now cs info =
     (case cs of
        Reachable \<Rightarrow> (None, info\<lparr>hi_back_off := None\<rparr>)
      | Unreachable err \<Rightarrow>
          (case hi_back_off info of
             Some b \<Rightarrow> (case retried now err b of (r, b') \<Rightarrow> (r, info\<lparr>hi_back_off := Some b'\<rparr>))
           | None \<Rightarrow> (None, info\<lparr>hi_back_off := Some (back_off_new now err)\<rparr>)))"

definition host_info_is_reachable :: "host_info \<Rightarrow> bool" where
  "host_info_is_reachable info \<longleftrightarrow> hi_back_off info = None"

definition remote_mapping_new :: "RemoteType \<Rightarrow> remote_mapping" where
  "remote_mapping_new ty = \<lparr>rm_ty = ty, rm_hosts = [], rm_node_to_host = Map.empty\<rparr>"

definition mapping_set_node_name :: "str \<Rightarrow> str option \<Rightarrow> remote_mapping \<Rightarrow> remote_mapping" where
  "mapping_set_node_name hostname node_name rm =
     (case al_get (rm_hosts rm) hostname of
        None \<Rightarrow> rm
      | Some info \<Rightarrow>
          (let removed = (case hi_node_name info of
                            Some old \<Rightarrow> (rm_node_to_host rm)(old := None)
                          | None \<Rightarrow> rm_node_to_host rm);
               added = (case node_name of Some new \<Rightarrow> removed(new \<mapsto> hostname) | None \<Rightarrow> removed)
           in rm\<lparr>rm_hosts := al_put hostname (info\<lparr>hi_node_name := node_name\<rparr>) (rm_hosts rm),
                 rm_node_to_host := added\<rparr>))"

definition mapping_is_reachable :: "remote_mapping \<Rightarrow> bool" where
  "mapping_is_reachable rm \<longleftrightarrow>
     (if rm_hosts rm = [] then True else list_ex (\<lambda>(_, h). host_info_is_reachable h) (rm_hosts rm))"

definition reset_back_off :: "remote_mapping \<Rightarrow> remote_mapping" where
  "reset_back_off rm =
     rm\<lparr>rm_hosts := map (\<lambda>(k, h). (k, snd (host_set_reachable 0 Reachable h))) (rm_hosts rm)\<rparr>"

section \<open>The cache\<close>

definition node_name_to_hostname :: "mapping_cache \<Rightarrow> str \<Rightarrow> str \<Rightarrow> str option" where
  "node_name_to_hostname c remote node =
     Option.bind (al_get (mc_remotes c) remote) (\<lambda>rm. rm_node_to_host rm node)"

definition info_by_node_name :: "mapping_cache \<Rightarrow> str \<Rightarrow> str \<Rightarrow> host_info option" where
  "info_by_node_name c remote node =
     Option.bind (al_get (mc_remotes c) remote)
       (\<lambda>rm. Option.bind (rm_node_to_host rm node) (\<lambda>host. al_get (rm_hosts rm) host))"

definition info_by_hostname :: "mapping_cache \<Rightarrow> str \<Rightarrow> str \<Rightarrow> host_info option" where
  "info_by_hostname c remote hostname =
     Option.bind (al_get (mc_remotes c) remote) (\<lambda>rm. al_get (rm_hosts rm) hostname)"

text \<open>Writing through the mutable reference that \<^verbatim>\<open>info_by_hostname_mut\<close> returns.\<close>

definition put_host :: "str \<Rightarrow> str \<Rightarrow> host_info \<Rightarrow> mapping_cache \<Rightarrow> mapping_cache" where
  "put_host remote hostname info c =
     (case al_get (mc_remotes c) remote of
        None \<Rightarrow> c
      | Some rm \<Rightarrow>
          c\<lparr>mc_remotes := al_put remote (rm\<lparr>rm_hosts := al_put hostname info (rm_hosts rm)\<rparr>) (mc_remotes c)\<rparr>)"

definition reset_all_back_off_states :: "mapping_cache \<Rightarrow> mapping_cache" where
  "reset_all_back_off_states c =
     c\<lparr>mc_canary := None, mc_remotes := map (\<lambda>(k, rm). (k, reset_back_off rm)) (mc_remotes c)\<rparr>"

definition canary_is_needed :: "mapping_cache \<Rightarrow> bool \<times> mapping_cache" where
  "canary_is_needed c =
     (let c' = (case mc_canary c of
                  Some canary \<Rightarrow>
                    if al_get (mc_remotes c) canary \<noteq> None then c else c\<lparr>mc_canary := None\<rparr>
                | None \<Rightarrow> c)
      in if mc_canary c' \<noteq> None then (False, c')
         else (list_all (\<lambda>(_, rm). \<not> mapping_is_reachable rm) (mc_remotes c'), c'))"

definition set_or_reset_canary :: "str \<Rightarrow> bool \<Rightarrow> mapping_cache \<Rightarrow> mapping_cache" where
  "set_or_reset_canary remote unreachable c =
     (let c1 = (if unreachable
                then (case canary_is_needed c of
                        (needed, c') \<Rightarrow> if needed then c'\<lparr>mc_canary := Some remote\<rparr> else c')
                else c)
      in if \<not> unreachable \<and> mc_canary c1 \<noteq> None then reset_all_back_off_states c1 else c1)"

definition is_unreachable :: "ConnectionState \<Rightarrow> bool" where
  "is_unreachable cs = (case cs of Unreachable _ \<Rightarrow> True | Reachable \<Rightarrow> False)"

definition mark_host_reachable ::
  "int \<Rightarrow> str \<Rightarrow> str \<Rightarrow> ConnectionState \<Rightarrow> mapping_cache \<Rightarrow> (str \<times> str \<times> str) option \<times> mapping_cache" where
  "mark_host_reachable now remote hostname cs c =
     (case info_by_hostname c remote hostname of
        None \<Rightarrow> (None, c)
      | Some info \<Rightarrow>
          (let was_reachable = host_info_is_reachable info;
               c' = put_host remote hostname (snd (host_set_reachable now cs info)) c;
               notify = (case cs of
                           Unreachable err \<Rightarrow> if was_reachable then Some (remote, hostname, err) else None
                         | Reachable \<Rightarrow> None)
           in (notify, set_or_reset_canary remote (is_unreachable cs) c')))"

definition mark_node_reachable :: "int \<Rightarrow> str \<Rightarrow> str \<Rightarrow> ConnectionState \<Rightarrow> mapping_cache \<Rightarrow> mapping_cache" where
  "mark_node_reachable now remote node cs c =
     (case node_name_to_hostname c remote node of
        None \<Rightarrow> c
      | Some hostname \<Rightarrow>
          (case info_by_hostname c remote hostname of
             None \<Rightarrow> c
           | Some info \<Rightarrow>
               set_or_reset_canary remote (is_unreachable cs)
                 (put_host remote hostname (snd (host_set_reachable now cs info)) c)))"

definition set_node_name :: "str \<Rightarrow> str \<Rightarrow> str option \<Rightarrow> mapping_cache \<Rightarrow> mapping_cache" where
  "set_node_name remote hostname node_name c =
     (case al_get (mc_remotes c) remote of
        None \<Rightarrow> c
      | Some rm \<Rightarrow>
          c\<lparr>mc_remotes := al_put remote (mapping_set_node_name hostname node_name rm) (mc_remotes c)\<rparr>)"

definition host_is_reachable :: "mapping_cache \<Rightarrow> str \<Rightarrow> str \<Rightarrow> bool" where
  "host_is_reachable c remote hostname =
     (case info_by_hostname c remote hostname of
        None \<Rightarrow> True | Some info \<Rightarrow> host_info_is_reachable info)"

definition host_time_to_next_try :: "mapping_cache \<Rightarrow> str \<Rightarrow> str \<Rightarrow> int \<Rightarrow> (nat \<times> str) option" where
  "host_time_to_next_try c remote hostname now =
     (if mc_canary c = Some remote then None
      else map_option (\<lambda>b. (time_to_next_try b now, bo_last_error b))
             (Option.bind (info_by_hostname c remote hostname) hi_back_off))"

text \<open>\<open>least_wait\<close> is the loop over the hosts: \<open>None\<close> as soon as a reachable host is found, otherwise
  the least waiting time (starting from \<^verbatim>\<open>u64::MAX\<close>) and its error.\<close>

fun least_wait :: "int \<Rightarrow> (str \<times> host_info) list \<Rightarrow> nat \<Rightarrow> str \<Rightarrow> (nat \<times> str) option" where
  "least_wait now [] time err = Some (time, err)"
| "least_wait now ((_, info) # hosts) time err =
     (case hi_back_off info of
        None \<Rightarrow> None
      | Some b \<Rightarrow>
          if time_to_next_try b now < time
          then least_wait now hosts (time_to_next_try b now) (bo_last_error b)
          else least_wait now hosts time err)"

definition remote_time_to_next_try :: "mapping_cache \<Rightarrow> str \<Rightarrow> int \<Rightarrow> (nat \<times> str) option" where
  "remote_time_to_next_try c remote now =
     (if mc_canary c = Some remote then None
      else case al_get (mc_remotes c) remote of
             None \<Rightarrow> None
           | Some rm \<Rightarrow>
               (case least_wait now (rm_hosts rm) (u64_max) [] of
                  None \<Rightarrow> None
                | Some (time, err) \<Rightarrow> if time = u64_max then None else Some (time, err)))"

section \<open>The cache invariant\<close>

text \<open>
  Dictionary keys are distinct; a node name leads to a known host that carries this node name;
  and a canary is designated only while no remote is reachable.
\<close>

definition mapping_ok :: "remote_mapping \<Rightarrow> bool" where
  "mapping_ok rm \<longleftrightarrow>
     al_keys_distinct (rm_hosts rm) \<and>
     (\<forall>n h. rm_node_to_host rm n = Some h \<longrightarrow>
        (\<exists>info. al_get (rm_hosts rm) h = Some info \<and> hi_node_name info = Some n))"

definition all_offline :: "mapping_cache \<Rightarrow> bool" where
  "all_offline c \<longleftrightarrow> (\<forall>(_, rm) \<in> set (mc_remotes c). \<not> mapping_is_reachable rm)"

definition mapping_cache_ok :: "mapping_cache \<Rightarrow> bool" where
  "mapping_cache_ok c \<longleftrightarrow>
     al_keys_distinct (mc_remotes c) \<and>
     (\<forall>(_, rm) \<in> set (mc_remotes c). mapping_ok rm) \<and>
     (mc_canary c \<noteq> None \<longrightarrow> all_offline c)"

lemma mapping_is_reachable_iff:
  "mapping_is_reachable rm \<longleftrightarrow>
     rm_hosts rm = [] \<or> (\<exists>(_, h) \<in> set (rm_hosts rm). hi_back_off h = None)"
  by (auto simp: mapping_is_reachable_def list_ex_iff host_info_is_reachable_def)

lemma host_set_reachable_simps [simp]:
  "hi_node_name (snd (host_set_reachable now cs info)) = hi_node_name info"
  "hi_hostname (snd (host_set_reachable now cs info)) = hi_hostname info"
  "hi_back_off (snd (host_set_reachable now cs info)) = None \<longleftrightarrow> cs = Reachable"
  by (auto simp: host_set_reachable_def split: ConnectionState.splits option.splits prod.splits)

lemma mapping_ok_put_host:
  assumes "mapping_ok rm" and "al_get (rm_hosts rm) h = Some info"
    and "hi_node_name info' = hi_node_name info"
  shows "mapping_ok (rm\<lparr>rm_hosts := al_put h info' (rm_hosts rm)\<rparr>)"
  using assms by (fastforce simp: mapping_ok_def al.ok_put al_get_put)

lemma mapping_ok_set_node_name:
  assumes ok: "mapping_ok rm"
  shows "mapping_ok (mapping_set_node_name hostname node_name rm)"
proof (cases "al_get (rm_hosts rm) hostname")
  case None
  with ok show ?thesis by (simp add: mapping_set_node_name_def)
next
  case (Some info)
  have link: "\<exists>info. al_get (rm_hosts rm) h = Some info \<and> hi_node_name info = Some n"
    if "rm_node_to_host rm n = Some h" for n h
    using ok that by (auto simp: mapping_ok_def)
  show ?thesis
    unfolding mapping_ok_def
  proof (intro conjI allI impI)
    show "al_keys_distinct (rm_hosts (mapping_set_node_name hostname node_name rm))"
      using ok Some by (simp add: mapping_set_node_name_def Let_def mapping_ok_def al.ok_put)
  next
    fix n h assume nh: "rm_node_to_host (mapping_set_node_name hostname node_name rm) n = Some h"
    show "\<exists>info. al_get (rm_hosts (mapping_set_node_name hostname node_name rm)) h = Some info \<and>
              hi_node_name info = Some n"
    proof (cases "node_name = Some n")
      case True
      with nh Some show ?thesis by (auto simp: mapping_set_node_name_def Let_def split: if_splits)
    next
      case False
      with nh Some have old: "rm_node_to_host rm n = Some h" "hi_node_name info \<noteq> Some n"
        by (auto simp: mapping_set_node_name_def Let_def split: option.splits if_splits)
      from link [OF old(1)] old(2) Some have "h \<noteq> hostname" by auto
      with link [OF old(1)] Some show ?thesis
        by (simp add: mapping_set_node_name_def Let_def al_get_put)
    qed
  qed
qed

lemma reachable_put_host:
  assumes "al_keys_distinct (rm_hosts rm)" and "al_get (rm_hosts rm) h = Some info"
  shows "mapping_is_reachable (rm\<lparr>rm_hosts := al_put h info' (rm_hosts rm)\<rparr>) \<longleftrightarrow>
           hi_back_off info' = None \<or> (\<exists>k v. (k, v) \<in> set (rm_hosts rm) \<and> k \<noteq> h \<and> hi_back_off v = None)"
proof -
  have "al_put h info' (rm_hosts rm) \<noteq> []" by (cases "rm_hosts rm") (auto split: if_splits)
  then show ?thesis
    using assms(1) by (auto simp: mapping_is_reachable_iff al.items_put)
qed

lemma reachable_same_back_off:
  assumes d: "al_keys_distinct (rm_hosts rm)" and info: "al_get (rm_hosts rm) h = Some info"
    and same: "hi_back_off info' = hi_back_off info"
  shows "mapping_is_reachable (rm\<lparr>rm_hosts := al_put h info' (rm_hosts rm)\<rparr>) \<longleftrightarrow> mapping_is_reachable rm"
proof -
  have mem: "(h, v) \<in> set (rm_hosts rm) \<longleftrightarrow> v = info" for v
    using al.items_get [OF d, of h v] info by (simp only:) (metis option.inject)
  have "rm_hosts rm \<noteq> []" using info by auto
  then have "mapping_is_reachable rm \<longleftrightarrow> (\<exists>k v. (k, v) \<in> set (rm_hosts rm) \<and> hi_back_off v = None)"
    unfolding mapping_is_reachable_iff by (simp add: Bex_def split_paired_Ex)
  also have "\<dots> \<longleftrightarrow>
      hi_back_off info = None \<or> (\<exists>k v. (k, v) \<in> set (rm_hosts rm) \<and> k \<noteq> h \<and> hi_back_off v = None)"
    by (metis mem)
  finally have "mapping_is_reachable rm \<longleftrightarrow>
      hi_back_off info = None \<or> (\<exists>k v. (k, v) \<in> set (rm_hosts rm) \<and> k \<noteq> h \<and> hi_back_off v = None)" .
  then show ?thesis by (simp add: reachable_put_host [OF d info] same)
qed

lemma reachable_set_node_name:
  assumes "mapping_ok rm"
  shows "mapping_is_reachable (mapping_set_node_name hostname node_name rm) \<longleftrightarrow> mapping_is_reachable rm"
proof (cases "al_get (rm_hosts rm) hostname")
  case None
  then show ?thesis by (simp add: mapping_set_node_name_def)
next
  case (Some info)
  have "mapping_is_reachable (rm\<lparr>rm_hosts := hs, rm_node_to_host := m\<rparr>) = mapping_is_reachable (rm\<lparr>rm_hosts := hs\<rparr>)" for hs m
    by (simp add: mapping_is_reachable_def)
  then show ?thesis
    using assms Some reachable_same_back_off [of rm hostname info "info\<lparr>hi_node_name := node_name\<rparr>"]
    by (simp add: mapping_set_node_name_def Let_def mapping_ok_def)
qed

lemma all_offline_put:
  assumes "al_keys_distinct (mc_remotes c)" and "all_offline c" and "\<not> mapping_is_reachable rm"
  shows "all_offline (c\<lparr>mc_remotes := al_put r rm (mc_remotes c)\<rparr>)"
  using assms by (auto simp: all_offline_def al.items_put)

lemma al_get_map_snd: "al_get (map (\<lambda>(k, v). (k, f v)) xs) k = map_option f (al_get xs k)"
  by (induction xs) auto

lemma al_keys_map_snd: "al_keys_distinct (map (\<lambda>(k, v). (k, f v)) xs) = al_keys_distinct xs"
  by (simp add: al_keys_distinct_def comp_def case_prod_beta)

lemma reset_back_off_ok:
  assumes "mapping_ok rm"
  shows "mapping_ok (reset_back_off rm)"
proof -
  have "\<exists>info. al_get (rm_hosts (reset_back_off rm)) h = Some info \<and> hi_node_name info = Some n"
    if "rm_node_to_host rm n = Some h" for n h
  proof -
    from assms that obtain info where "al_get (rm_hosts rm) h = Some info" "hi_node_name info = Some n"
      by (auto simp: mapping_ok_def)
    then show ?thesis by (simp add: reset_back_off_def al_get_map_snd)
  qed
  with assms show ?thesis
    by (simp add: mapping_ok_def reset_back_off_def al_keys_map_snd)
qed

text \<open>After a reset every host is reachable and there is no canary.\<close>

lemma reset_all_reachable:
  "mc_canary (reset_all_back_off_states c) = None"
  "(r, rm) \<in> set (mc_remotes (reset_all_back_off_states c)) \<Longrightarrow> (h, info) \<in> set (rm_hosts rm) \<Longrightarrow>
   hi_back_off info = None"
  by (auto simp: reset_all_back_off_states_def reset_back_off_def)

lemma reset_all_ok:
  assumes "al_keys_distinct (mc_remotes c)" and "\<forall>(_, rm) \<in> set (mc_remotes c). mapping_ok rm"
  shows "mapping_cache_ok (reset_all_back_off_states c)"
  using assms
  by (auto simp: mapping_cache_ok_def reset_all_back_off_states_def al_keys_map_snd
      intro!: reset_back_off_ok)

lemma set_or_reset_canary_ok:
  assumes d: "al_keys_distinct (mc_remotes c)" and ok: "\<forall>(_, rm) \<in> set (mc_remotes c). mapping_ok rm"
    and can: "unreachable \<Longrightarrow> mc_canary c \<noteq> None \<Longrightarrow> all_offline c"
  shows "mapping_cache_ok (set_or_reset_canary remote unreachable c)"
proof (cases unreachable)
  case True
  have same: "mc_remotes (snd (canary_is_needed c)) = mc_remotes c"
    by (simp add: canary_is_needed_def Let_def split: option.splits)
  have needed: "fst (canary_is_needed c) \<Longrightarrow> all_offline c"
    by (auto simp: canary_is_needed_def Let_def all_offline_def list_all_iff split: option.splits if_splits)
  have old: "mc_canary (snd (canary_is_needed c)) \<noteq> None \<Longrightarrow> mc_canary c \<noteq> None"
    by (auto simp: canary_is_needed_def Let_def split: option.splits if_splits)
  have eq: "set_or_reset_canary remote unreachable c =
      (if fst (canary_is_needed c) then (snd (canary_is_needed c))\<lparr>mc_canary := Some remote\<rparr>
       else snd (canary_is_needed c))"
    using True by (simp add: set_or_reset_canary_def case_prod_beta)
  show ?thesis
  proof (cases "fst (canary_is_needed c)")
    case True
    with d ok needed same show ?thesis
      unfolding eq by (simp add: mapping_cache_ok_def all_offline_def)
  next
    case False
    with d ok can [OF True] old same show ?thesis
      unfolding eq by (simp add: mapping_cache_ok_def all_offline_def)
  qed
next
  case False
  then show ?thesis
    using d ok reset_all_ok [OF d ok] by (auto simp: set_or_reset_canary_def mapping_cache_ok_def)
qed

lemma put_host_remotes:
  assumes "al_get (mc_remotes c) r = Some rm"
  shows "put_host r h info c = c\<lparr>mc_remotes := al_put r (rm\<lparr>rm_hosts := al_put h info (rm_hosts rm)\<rparr>) (mc_remotes c)\<rparr>"
  using assms by (simp add: put_host_def)

text \<open>Marking a known host, whichever way it was found.\<close>

lemma mark_ok:
  assumes ok: "mapping_cache_ok c" and info: "info_by_hostname c remote h = Some info"
  shows "mapping_cache_ok (set_or_reset_canary remote (is_unreachable cs)
           (put_host remote h (snd (host_set_reachable now cs info)) c))"
proof -
  from info obtain rm where rm: "al_get (mc_remotes c) remote = Some rm"
    and h: "al_get (rm_hosts rm) h = Some info"
    by (auto simp: info_by_hostname_def bind_eq_Some_conv)
  let ?info = "snd (host_set_reachable now cs info)"
  let ?rm = "rm\<lparr>rm_hosts := al_put h ?info (rm_hosts rm)\<rparr>"
  have d: "al_keys_distinct (mc_remotes c)" using ok by (simp add: mapping_cache_ok_def)
  have in_c: "(remote, rm) \<in> set (mc_remotes c)" using rm by (rule map_of_SomeD)
  then have rm_ok: "mapping_ok rm" using ok by (auto simp: mapping_cache_ok_def)
  have new_ok: "mapping_ok ?rm" by (rule mapping_ok_put_host [OF rm_ok h]) simp
  show ?thesis
    unfolding put_host_remotes [OF rm]
  proof (rule set_or_reset_canary_ok)
    show "al_keys_distinct (mc_remotes (c\<lparr>mc_remotes := al_put remote ?rm (mc_remotes c)\<rparr>))"
      using d by (simp add: al.ok_put)
    show "\<forall>(_, rm) \<in> set (mc_remotes (c\<lparr>mc_remotes := al_put remote ?rm (mc_remotes c)\<rparr>)). mapping_ok rm"
      using d ok new_ok by (auto simp: al.items_put mapping_cache_ok_def)
    assume un: "is_unreachable cs" and "mc_canary (c\<lparr>mc_remotes := al_put remote ?rm (mc_remotes c)\<rparr>) \<noteq> None"
    then have off: "all_offline c" using ok by (simp add: mapping_cache_ok_def)
    then have "\<not> mapping_is_reachable rm" using in_c by (auto simp: all_offline_def)
    then have others: "\<not> (\<exists>k v. (k, v) \<in> set (rm_hosts rm) \<and> k \<noteq> h \<and> hi_back_off v = None)"
      by (auto simp: mapping_is_reachable_iff)
    have "hi_back_off ?info \<noteq> None" using un by (auto simp: is_unreachable_def split: ConnectionState.splits)
    with others have "\<not> mapping_is_reachable ?rm"
      using rm_ok h by (subst reachable_put_host) (auto simp: mapping_ok_def)
    with d off show "all_offline (c\<lparr>mc_remotes := al_put remote ?rm (mc_remotes c)\<rparr>)"
      by (rule all_offline_put)
  qed
qed

lemma set_node_name_ok:
  assumes ok: "mapping_cache_ok c"
  shows "mapping_cache_ok (set_node_name remote h n c)"
proof (cases "al_get (mc_remotes c) remote")
  case None
  with ok show ?thesis by (simp add: set_node_name_def)
next
  case (Some rm)
  have d: "al_keys_distinct (mc_remotes c)" using ok by (simp add: mapping_cache_ok_def)
  have in_c: "(remote, rm) \<in> set (mc_remotes c)" using Some by (rule map_of_SomeD)
  then have rm_ok: "mapping_ok rm" using ok by (auto simp: mapping_cache_ok_def)
  let ?rm = "mapping_set_node_name h n rm"
  have "all_offline (c\<lparr>mc_remotes := al_put remote ?rm (mc_remotes c)\<rparr>)" if "mc_canary c \<noteq> None"
  proof -
    have off: "all_offline c" using ok that by (simp add: mapping_cache_ok_def)
    moreover have "\<not> mapping_is_reachable ?rm"
      using off in_c by (auto simp: all_offline_def reachable_set_node_name [OF rm_ok])
    ultimately show ?thesis using d by (intro all_offline_put)
  qed
  with Some d ok mapping_ok_set_node_name [OF rm_ok] show ?thesis
    by (auto simp: set_node_name_def mapping_cache_ok_def al.ok_put al.items_put)
qed

datatype mapping_op =
    MarkHost int str str ConnectionState
  | MarkNode int str str ConnectionState
  | SetNodeName str str "str option"

fun run_mapping_op :: "mapping_op \<Rightarrow> mapping_cache \<Rightarrow> mapping_cache" where
  "run_mapping_op (MarkHost now r h cs) c = snd (mark_host_reachable now r h cs c)"
| "run_mapping_op (MarkNode now r n cs) c = mark_node_reachable now r n cs c"
| "run_mapping_op (SetNodeName r h n) c = set_node_name r h n c"

lemma run_mapping_op_ok: "mapping_cache_ok c \<Longrightarrow> mapping_cache_ok (run_mapping_op op c)"
  by (cases op) (auto simp: mark_host_reachable_def mark_node_reachable_def mark_ok set_node_name_ok
      Let_def split: option.splits)

lemma run_mapping_ops_ok: "mapping_cache_ok c \<Longrightarrow> mapping_cache_ok (fold run_mapping_op ops c)"
  by (induction ops arbitrary: c) (simp_all add: run_mapping_op_ok)

section \<open>Waiting times of a remote\<close>

lemma time_to_next_try_bound: "time_to_next_try b now < u64_max"
  by (simp add: time_to_next_try_def sat64_def u64_max_def)

lemma least_wait_None: "least_wait now hosts time err = None \<longleftrightarrow> (\<exists>(_, h) \<in> set hosts. hi_back_off h = None)"
  by (induction now hosts time err rule: least_wait.induct) (auto split: option.splits)

lemma least_wait_Some:
  "least_wait now hosts time err = Some (t, e) \<Longrightarrow>
   t \<le> time \<and> (\<forall>(_, h) \<in> set hosts. \<exists>b. hi_back_off h = Some b \<and> t \<le> time_to_next_try b now) \<and>
   ((t, e) = (time, err) \<or>
    (\<exists>(_, h) \<in> set hosts. \<exists>b. hi_back_off h = Some b \<and> t = time_to_next_try b now \<and> e = bo_last_error b))"
proof (induction now hosts time err rule: least_wait.induct)
  case (2 now k info hosts time err)
  then obtain b where b: "hi_back_off info = Some b" by (auto split: option.splits)
  show ?case
  proof (cases "time_to_next_try b now < time")
    case True
    with 2 b show ?thesis by fastforce
  next
    case False
    with 2 b show ?thesis by fastforce
  qed
qed simp

section \<open>Sharing the cache between processes\<close>

text \<open>
  Each process keeps its last copy together with the generation number it belongs to; the
  generation counter is in shared memory. \<open>cache_state_get\<close> and \<open>cache_state_update\<close> are
  \<^verbatim>\<open>CacheState::get\<close> and \<^verbatim>\<open>CacheState::update\<close> with the counter (if it could be opened) and the file
  contents as arguments.
\<close>

record 'd cache_state =
  cs_cache :: 'd
  cs_generation :: nat

definition cache_state_get :: "nat option \<Rightarrow> 'd \<Rightarrow> 'd cache_state option \<Rightarrow> 'd cache_state" where
  "cache_state_get version loaded current =
     (case (current, version) of
        (Some c, Some v) \<Rightarrow>
          if cs_generation c = v then c else \<lparr>cs_cache = loaded, cs_generation = v\<rparr>
      | (_, v) \<Rightarrow> \<lparr>cs_cache = loaded, cs_generation = (case v of Some g \<Rightarrow> g | None \<Rightarrow> 0)\<rparr>)"

definition cache_state_update :: "nat option \<Rightarrow> 'd \<Rightarrow> 'd cache_state \<times> nat option" where
  "cache_state_update version cache =
     (let version' = map_option Suc version
      in (\<lparr>cs_cache = cache, cs_generation = (case version' of Some g \<Rightarrow> g | None \<Rightarrow> 0)\<rparr>, version'))"

text \<open>
  Processes running concurrently. Reading the counter and reading the file are separate steps; a
  writer holds the lock file from \<^verbatim>\<open>write\<close> until it has saved the file and increased the counter,
  which are separate steps too.
\<close>

datatype 'd write_phase = Unlocked | Editing nat 'd | Saved nat 'd

record 'd shared =
  sh_file :: 'd
  sh_generation :: nat
  sh_current :: "nat \<Rightarrow> 'd cache_state option"
  sh_reading :: "nat \<Rightarrow> nat option"
  sh_writer :: "'d write_phase"

inductive shared_step :: "'d shared \<Rightarrow> 'd shared \<Rightarrow> bool" where
  read_version: "shared_step s (s\<lparr>sh_reading := (sh_reading s)(p := Some (sh_generation s))\<rparr>)"
| read_file: "sh_reading s p = Some v \<Longrightarrow>
    shared_step s (s\<lparr>sh_reading := (sh_reading s)(p := None),
      sh_current := (sh_current s)(p := Some (cache_state_get (Some v) (sh_file s) (sh_current s p)))\<rparr>)"
| lock_read_version: "sh_writer s = Unlocked \<Longrightarrow> sh_reading s p = None \<Longrightarrow>
    c = cache_state_get (Some (sh_generation s)) (sh_file s) (sh_current s p) \<Longrightarrow>
    shared_step s (s\<lparr>sh_writer := Editing p (cs_cache c), sh_current := (sh_current s)(p := Some c)\<rparr>)"
| edit: "sh_writer s = Editing p d \<Longrightarrow> shared_step s (s\<lparr>sh_writer := Editing p d'\<rparr>)"
| unlock: "sh_writer s = Editing p d \<Longrightarrow> shared_step s (s\<lparr>sh_writer := Unlocked\<rparr>)"
| save_file: "sh_writer s = Editing p d \<Longrightarrow> shared_step s (s\<lparr>sh_file := d, sh_writer := Saved p d\<rparr>)"
| bump: "sh_writer s = Saved p d \<Longrightarrow>
    shared_step s (s\<lparr>sh_writer := Unlocked,
      sh_generation := Suc (sh_generation s),
      sh_current := (sh_current s)(p := Some (fst (cache_state_update (Some (sh_generation s)) d)))\<rparr>)"

inductive_cases shared_stepE: "shared_step s s'"

definition shared_inv :: "'d shared \<Rightarrow> bool" where
  "shared_inv s \<longleftrightarrow>
     (\<forall>p v. sh_reading s p = Some v \<longrightarrow> v \<le> sh_generation s) \<and>
     (\<forall>p c. sh_current s p = Some c \<longrightarrow> cs_generation c \<le> sh_generation s) \<and>
     (case sh_writer s of
        Saved p d \<Rightarrow> sh_file s = d
      | _ \<Rightarrow> \<forall>p c. sh_current s p = Some c \<longrightarrow> cs_generation c = sh_generation s \<longrightarrow> cs_cache c = sh_file s)"

lemma cache_state_get_props:
  "cs_generation (cache_state_get (Some v) d cur) = v"
  "cs_cache (cache_state_get (Some v) d cur) =
     (case cur of Some c \<Rightarrow> if cs_generation c = v then cs_cache c else d | None \<Rightarrow> d)"
  by (auto simp: cache_state_get_def split: option.splits)

lemma shared_inv_step:
  assumes "shared_step s s'" and "shared_inv s"
  shows "shared_inv s'"
  using assms
proof cases
  case (read_file p v)
  with assms(2) show ?thesis
    by (auto simp: shared_inv_def cache_state_get_props split: write_phase.splits option.splits if_splits)
next
  case (lock_read_version p c)
  with assms(2) show ?thesis
    by (auto simp: shared_inv_def cache_state_get_props split: write_phase.splits option.splits if_splits)
next
  case (bump p d)
  with assms(2) show ?thesis
    by (auto simp: shared_inv_def cache_state_update_def split: write_phase.splits if_splits)
       (metis Suc_n_not_le_n le_SucI)+
qed (auto simp: shared_inv_def split: write_phase.splits if_splits)

section \<open>Properties\<close>

lemma mark_host_known:
  assumes "info_by_hostname c remote h = Some info"
  shows "mark_host_reachable now remote h cs c =
           (case cs of Unreachable err \<Rightarrow> if hi_back_off info = None then Some (remote, h, err) else None
                     | Reachable \<Rightarrow> None,
            set_or_reset_canary remote (is_unreachable cs)
              (put_host remote h (snd (host_set_reachable now cs info)) c))"
  using assms by (simp add: mark_host_reachable_def Let_def host_info_is_reachable_def)

lemma canary_put_host [simp]: "mc_canary (put_host r h info c) = mc_canary c"
  by (simp add: put_host_def split: option.splits)

text \<open>
  C25. Whatever sequence of reachability marks and node name updates is applied to a consistent
  cache, a node name always leads to a known host that carries this node name, and a canary
  remote is designated only while no remote is reachable.
\<close>

theorem mapping_cache_consistent:
  assumes "mapping_cache_ok c"
  shows "(\<forall>remote node h. node_name_to_hostname (fold run_mapping_op ops c) remote node = Some h \<longrightarrow>
            (\<exists>info. info_by_hostname (fold run_mapping_op ops c) remote h = Some info \<and>
                    hi_node_name info = Some node)) \<and>
         (mc_canary (fold run_mapping_op ops c) \<noteq> None \<longrightarrow>
            (\<forall>(remote, rm) \<in> set (mc_remotes (fold run_mapping_op ops c)). \<not> mapping_is_reachable rm))"
proof -
  have ok: "mapping_cache_ok (fold run_mapping_op ops c)" by (rule run_mapping_ops_ok [OF assms])
  have "mapping_ok rm" if "al_get (mc_remotes (fold run_mapping_op ops c)) r = Some rm" for r rm
    using ok map_of_SomeD [OF that] by (auto simp: mapping_cache_ok_def)
  with ok show ?thesis
    by (fastforce simp: mapping_cache_ok_def all_offline_def node_name_to_hostname_def info_by_hostname_def
        mapping_ok_def bind_eq_Some_conv)
qed

definition sample_cache :: mapping_cache where
  "sample_cache =
     \<lparr>mc_remotes = [(''a'', \<lparr>rm_ty = Pve, rm_hosts = [(''h1'', host_info_new ''h1'')], rm_node_to_host = Map.empty\<rparr>)],
      mc_canary = None\<rparr>"

lemma sample_cache_ok: "mapping_cache_ok sample_cache"
  by (simp add: mapping_cache_ok_def sample_cache_def mapping_ok_def al_keys_distinct_def)

theorem mapping_cache_consistent_witness:
  "let c = fold run_mapping_op [SetNodeName ''a'' ''h1'' (Some ''n1''), MarkHost 5 ''a'' ''h1'' (Unreachable ''err'')] sample_cache
   in mc_canary c = Some ''a'' \<and> node_name_to_hostname c ''a'' ''n1'' = Some ''h1'' \<and>
      (\<exists>info. info_by_hostname c ''a'' ''h1'' = Some info \<and> hi_node_name info = Some ''n1'')"
proof -
  let ?c = "fold run_mapping_op [SetNodeName ''a'' ''h1'' (Some ''n1''), MarkHost 5 ''a'' ''h1'' (Unreachable ''err'')] sample_cache"
  have "node_name_to_hostname ?c ''a'' ''n1'' = Some ''h1''" by code_simp
  moreover have "mc_canary ?c = Some ''a''" by code_simp
  ultimately show ?thesis
    using mapping_cache_consistent [OF sample_cache_ok, of "[SetNodeName ''a'' ''h1'' (Some ''n1''), MarkHost 5 ''a'' ''h1'' (Unreachable ''err'')]"]
    unfolding Let_def by blast
qed

text \<open>
  Marking a known host. A notification is sent exactly when the host was reachable and is now
  marked unreachable, so once per outage. Marking a host reachable while a canary is designated
  clears the canary and the back-off of every host of every remote.
\<close>

theorem mark_host_notifies_and_recovers:
  assumes "info_by_hostname c remote h = Some info"
  shows "(fst (mark_host_reachable now remote h (Unreachable err) c) =
            (if hi_back_off info = None then Some (remote, h, err) else None)) \<and>
         fst (mark_host_reachable now remote h Reachable c) = None \<and>
         (mc_canary c \<noteq> None \<longrightarrow>
            mc_canary (snd (mark_host_reachable now remote h Reachable c)) = None \<and>
            (\<forall>(r, rm) \<in> set (mc_remotes (snd (mark_host_reachable now remote h Reachable c))).
               \<forall>(k, i) \<in> set (rm_hosts rm). hi_back_off i = None))"
proof -
  let ?c = "put_host remote h (snd (host_set_reachable now Reachable info)) c"
  have "snd (mark_host_reachable now remote h Reachable c) = reset_all_back_off_states ?c"
    if "mc_canary c \<noteq> None"
    using that by (simp add: mark_host_known [OF assms] set_or_reset_canary_def is_unreachable_def)
  moreover have "\<forall>(r, rm) \<in> set (mc_remotes (reset_all_back_off_states ?c)).
      \<forall>(k, i) \<in> set (rm_hosts rm). hi_back_off i = None"
    using reset_all_reachable(2) by blast
  ultimately show ?thesis
    by (simp add: mark_host_known [OF assms] reset_all_reachable(1))
qed

theorem mark_host_notifies_and_recovers_witness:
  "let c = snd (mark_host_reachable 5 ''a'' ''h1'' (Unreachable ''err'') sample_cache)
   in mc_canary c = Some ''a'' \<and>
      mc_canary (snd (mark_host_reachable 9 ''a'' ''h1'' Reachable c)) = None \<and>
      fst (mark_host_reachable 5 ''a'' ''h1'' (Unreachable ''err'') sample_cache) = Some (''a'', ''h1'', ''err'')"
proof -
  let ?c = "snd (mark_host_reachable 5 ''a'' ''h1'' (Unreachable ''err'') sample_cache)"
  have can: "mc_canary ?c = Some ''a''" by code_simp
  have "info_by_hostname sample_cache ''a'' ''h1'' = Some (host_info_new ''h1'')" by code_simp
  note first = mark_host_notifies_and_recovers [OF this, of 5 "''err''"]
  have "map_option hi_hostname (info_by_hostname ?c ''a'' ''h1'') = Some ''h1''" by code_simp
  then obtain info where "info_by_hostname ?c ''a'' ''h1'' = Some info" by auto
  from mark_host_notifies_and_recovers [OF this, of 9] can first show ?thesis
    by (simp add: Let_def host_info_new_def)
qed

text \<open>
  The waiting time of a remote that is not the canary: none if the remote is unknown, has no
  hosts or has a reachable host; otherwise the least waiting time of its hosts, with the last
  error of a host that has it.
\<close>

theorem remote_wait_is_least:
  assumes "mc_canary c \<noteq> Some remote"
  shows "(remote_time_to_next_try c remote now = None \<longleftrightarrow>
            (\<forall>rm. al_get (mc_remotes c) remote = Some rm \<longrightarrow> mapping_is_reachable rm)) \<and>
         (\<forall>time err. remote_time_to_next_try c remote now = Some (time, err) \<longrightarrow>
            (\<exists>rm. al_get (mc_remotes c) remote = Some rm \<and>
               (\<forall>(_, h) \<in> set (rm_hosts rm). \<exists>b. hi_back_off h = Some b \<and> time \<le> time_to_next_try b now) \<and>
               (\<exists>(_, h) \<in> set (rm_hosts rm). \<exists>b. hi_back_off h = Some b \<and>
                  time = time_to_next_try b now \<and> err = bo_last_error b)))"
proof (cases "al_get (mc_remotes c) remote")
  case None
  with assms show ?thesis by (simp add: remote_time_to_next_try_def)
next
  case (Some rm)
  show ?thesis
  proof (cases "mapping_is_reachable rm")
    case True
    then have "remote_time_to_next_try c remote now = None"
      using Some assms least_wait_None [of now "rm_hosts rm" u64_max "[]"]
      by (auto simp: remote_time_to_next_try_def mapping_is_reachable_iff)
    with True Some show ?thesis by simp
  next
    case False
    then have none: "least_wait now (rm_hosts rm) u64_max [] \<noteq> None" and ne: "rm_hosts rm \<noteq> []"
      by (auto simp: least_wait_None mapping_is_reachable_iff)
    then obtain t e where te: "least_wait now (rm_hosts rm) u64_max [] = Some (t, e)" by auto
    from least_wait_Some [OF te] have all: "\<forall>(_, h) \<in> set (rm_hosts rm). \<exists>b. hi_back_off h = Some b \<and> t \<le> time_to_next_try b now"
      and some: "(t, e) = (u64_max, []) \<or> (\<exists>(_, h) \<in> set (rm_hosts rm). \<exists>b. hi_back_off h = Some b \<and>
                   t = time_to_next_try b now \<and> e = bo_last_error b)" by blast+
    from ne obtain k h hs where "rm_hosts rm = (k, h) # hs" by (cases "rm_hosts rm") auto
    with all obtain b where "t \<le> time_to_next_try b now" by auto
    with time_to_next_try_bound [of b now] have t: "t \<noteq> u64_max" by simp
    then have r: "remote_time_to_next_try c remote now = Some (t, e)"
      using Some assms te by (simp add: remote_time_to_next_try_def)
    from t some have "\<exists>(_, h) \<in> set (rm_hosts rm). \<exists>b. hi_back_off h = Some b \<and>
                   t = time_to_next_try b now \<and> e = bo_last_error b" by simp
    with r Some all False show ?thesis by simp
  qed
qed

theorem remote_wait_is_least_witness:
  "remote_time_to_next_try sample_cache ''a'' 7 = None \<and> mc_canary sample_cache \<noteq> Some ''a''"
proof -
  have c: "mc_canary sample_cache \<noteq> Some ''a''" by (simp add: sample_cache_def)
  have "mapping_is_reachable rm" if "al_get (mc_remotes sample_cache) ''a'' = Some rm" for rm
    using that by (auto simp: sample_cache_def mapping_is_reachable_iff host_info_new_def)
  with remote_wait_is_least [OF c, of 7] c show ?thesis by blast
qed

text \<open>
  C2. Coherence of the cached copies. However readers and lock-holding writers of any number of
  processes interleave, unless a writer is between saving the file and increasing the generation
  counter, a copy of the current generation is what the file holds; and whenever nobody holds the
  lock, \<^verbatim>\<open>get\<close> returns the contents of the file, so that a writer never edits an outdated copy.
\<close>

theorem cache_copies_coherent:
  assumes "shared_step\<^sup>*\<^sup>* s0 s"
    and "sh_writer s0 = Unlocked" and "sh_current s0 = (\<lambda>_. None)" and "sh_reading s0 = (\<lambda>_. None)"
  shows "((\<forall>p d. sh_writer s \<noteq> Saved p d) \<longrightarrow>
            (\<forall>p c. sh_current s p = Some c \<longrightarrow> cs_generation c = sh_generation s \<longrightarrow> cs_cache c = sh_file s)) \<and>
         (sh_writer s = Unlocked \<longrightarrow>
            (\<forall>p. cs_cache (cache_state_get (Some (sh_generation s)) (sh_file s) (sh_current s p)) = sh_file s))"
proof -
  have "shared_inv s"
    using assms(1)
  proof induction
    case base
    then show ?case using assms(2-4) by (simp add: shared_inv_def)
  next
    case (step y z)
    then show ?case using shared_inv_step by blast
  qed
  then show ?thesis
    by (auto simp: shared_inv_def cache_state_get_props split: write_phase.splits option.splits)
qed

theorem cache_copies_coherent_witness:
  "\<exists>s. shared_step\<^sup>*\<^sup>* \<lparr>sh_file = 1 :: int, sh_generation = 0, sh_current = (\<lambda>_. None), sh_reading = (\<lambda>_. None),
          sh_writer = Unlocked\<rparr> s \<and> sh_writer s = Unlocked \<and> sh_file s = 2 \<and> sh_generation s = 1 \<and>
      cs_cache (cache_state_get (Some (sh_generation s)) (sh_file s) (sh_current s 0)) = 2"
proof -
  define s0 :: "int shared" where
    "s0 = \<lparr>sh_file = 1, sh_generation = 0, sh_current = (\<lambda>_. None), sh_reading = (\<lambda>_. None), sh_writer = Unlocked\<rparr>"
  define c where "c = cache_state_get (Some (sh_generation s0)) (sh_file s0) (sh_current s0 0)"
  define s1 where "s1 = s0\<lparr>sh_writer := Editing 0 (cs_cache c), sh_current := (sh_current s0)(0 := Some c)\<rparr>"
  define s2 where "s2 = s1\<lparr>sh_writer := Editing 0 2\<rparr>"
  define s3 where "s3 = s2\<lparr>sh_file := 2, sh_writer := Saved 0 2\<rparr>"
  define s4 where "s4 = s3\<lparr>sh_writer := Unlocked, sh_generation := Suc (sh_generation s3),
      sh_current := (sh_current s3)(0 := Some (fst (cache_state_update (Some (sh_generation s3)) 2)))\<rparr>"
  have "shared_step s0 s1" unfolding s1_def by (rule shared_step.lock_read_version) (simp_all add: s0_def c_def)
  moreover have "shared_step s1 s2" unfolding s2_def by (rule shared_step.edit) (simp add: s1_def)
  moreover have "shared_step s2 s3" unfolding s3_def by (rule shared_step.save_file) (simp add: s2_def)
  moreover have "shared_step s3 s4" unfolding s4_def by (rule shared_step.bump) (simp add: s3_def)
  ultimately have run: "shared_step\<^sup>*\<^sup>* s0 s4"
    by (blast intro: converse_rtranclp_into_rtranclp)
  have s4: "sh_writer s4 = Unlocked" "sh_file s4 = 2" "sh_generation s4 = 1"
    by (simp_all add: s4_def s3_def s2_def s1_def s0_def)
  have "cs_cache (cache_state_get (Some (sh_generation s4)) (sh_file s4) (sh_current s4 0)) = sh_file s4"
    using cache_copies_coherent [OF run] s4 by (simp add: s0_def)
  with run s4 show ?thesis unfolding s0_def by (intro exI [of _ s4]) simp
qed

text \<open>
  Two hosts of a remote may carry the same node name; clearing the name of one of them then also
  removes the entry that leads to the other.
\<close>

lemma shared_node_name_loses_mapping:
  "let rm = \<lparr>rm_ty = Pve, rm_hosts = [(''h1'', host_info_new ''h1''), (''h2'', host_info_new ''h2'')],
             rm_node_to_host = Map.empty\<rparr>;
       both = mapping_set_node_name ''h2'' (Some ''n'') (mapping_set_node_name ''h1'' (Some ''n'') rm);
       cleared = mapping_set_node_name ''h1'' None both
   in rm_node_to_host both ''n'' = Some ''h2'' \<and> rm_node_to_host cleared ''n'' = None \<and>
      map_option hi_node_name (al_get (rm_hosts cleared) ''h2'') = Some (Some ''n'')"
  by code_simp

end
