(* ===== verification/MultiClient.thy ===== *)
theory MultiClient
  imports RemoteCache "HOL-Library.Word"
begin

text \<open>
  Requests to a remote with several nodes, from \<^verbatim>\<open>server/src/connection.rs\<close>: the client with failover and
  its strategy for choosing the next node. The position \<^verbatim>\<open>current\<close> is a \<^verbatim>\<open>usize\<close> that all requests of a
  remote share; a client is identified by the index of its entry. A request runs against a list of
  events, one per pass through the retry loop: what other requests do to the shared position (they only
  advance it) and to the remote mapping cache, the time, and the outcome of the request. Errors carry
  their displayed text. Logging is left out, and an overflow of \<^verbatim>\<open>current + 1\<close> wraps as in release builds.
\<close>

section \<open>The shared position\<close>

record multi_state =
  ms_current :: "64 word"
  ms_remote :: str
  ms_entries :: "str list"

definition ms_index :: "multi_state \<Rightarrow> 64 word \<Rightarrow> nat" where
  "ms_index s at = unat at mod length (ms_entries s)"

definition get_at :: "multi_state \<Rightarrow> 64 word \<Rightarrow> str" where
  "get_at s at = ms_entries s ! ms_index s at"

definition get_entry :: "multi_state \<Rightarrow> str" where
  "get_entry s = get_at s (ms_current s)"

definition ms_next :: "multi_state \<Rightarrow> multi_state" where
  "ms_next s = s\<lparr>ms_current := ms_current s + 1\<rparr>"

primrec skip_loop :: "(str \<Rightarrow> bool) \<Rightarrow> nat \<Rightarrow> multi_state \<Rightarrow> multi_state" where
  "skip_loop reach 0 s = s"
| "skip_loop reach (Suc n) s = (if \<not> reach (get_entry s) then skip_loop reach n (ms_next s) else s)"

definition skip_unreachable :: "(str \<Rightarrow> bool) \<Rightarrow> multi_state \<Rightarrow> multi_state" where
  "skip_unreachable reach s = skip_loop reach (length (ms_entries s)) s"

definition multi_state_new :: "(str \<Rightarrow> bool) \<Rightarrow> str \<Rightarrow> str list \<Rightarrow> multi_state" where
  "multi_state_new reach remote entries =
     skip_unreachable reach \<lparr>ms_current = 0, ms_remote = remote, ms_entries = entries\<rparr>"

definition tried_clients :: "multi_state \<Rightarrow> 64 word \<Rightarrow> 64 word" where
  "tried_clients s start = ms_current s - start"

definition tried_all_since :: "multi_state \<Rightarrow> 64 word \<Rightarrow> bool" where
  "tried_all_since s start \<longleftrightarrow> length (ms_entries s) \<le> unat (tried_clients s start)"

section \<open>Choosing clients\<close>

record TryClient =
  tc_client :: nat
  tc_reachable :: bool
  tc_hostname :: str

definition try_unreachable_at :: "multi_state \<Rightarrow> 64 word \<Rightarrow> TryClient" where
  "try_unreachable_at s at = \<lparr>tc_client = ms_index s at, tc_reachable = False, tc_hostname = get_at s at\<rparr>"

definition try_client_for_entry :: "(str \<Rightarrow> bool) \<Rightarrow> multi_state \<Rightarrow> 64 word \<Rightarrow> TryClient" where
  "try_client_for_entry reach s at =
     \<lparr>tc_client = ms_index s at, tc_reachable = reach (get_at s at), tc_hostname = get_at s at\<rparr>"

text \<open>The variables that the iterator of \<^verbatim>\<open>try_clients\<close> captures; \<open>ts_fused\<close> is set once it has returned \<^verbatim>\<open>None\<close>.\<close>

record try_state =
  ts_start :: "(64 word \<times> 64 word) option"
  ts_skipped :: "64 word list"
  ts_unreachable :: "64 word list option"
  ts_fused :: bool

definition try_clients :: try_state where
  "try_clients = \<lparr>ts_start = None, ts_skipped = [], ts_unreachable = None, ts_fused = False\<rparr>"

text \<open>The loop that remembers the skipped positions.\<close>

function word_upto :: "64 word \<Rightarrow> 64 word \<Rightarrow> 64 word list" where
  "word_upto at to = (if at = to then [] else at # word_upto (at + 1) to)"
  by pat_completeness auto
termination
proof (relation "measure (\<lambda>(at, to). unat (to - at))")
  fix at to :: "64 word"
  assume "at \<noteq> to"
  then have "to - at \<noteq> 0" by simp
  moreover have "to - (at + 1) = to - at - 1" by (simp add: algebra_simps)
  ultimately have "unat (to - (at + 1)) < unat (to - at)" using measure_unat [of "to - at"] by metis
  then show "((at + 1, to), at, to) \<in> measure (\<lambda>(at, to). unat (to - at))" by simp
qed simp

declare word_upto.simps [simp del]

definition try_next :: "(str \<Rightarrow> bool) \<Rightarrow> multi_state \<Rightarrow> try_state \<Rightarrow> TryClient option \<times> multi_state \<times> try_state" where
  "try_next reach s t =
     (if ts_fused t then (None, s, t)
      else case ts_unreachable t of
        Some [] \<Rightarrow> (None, s, t\<lparr>ts_fused := True\<rparr>)
      | Some (at # rest) \<Rightarrow> (Some (try_unreachable_at s at), s, t\<lparr>ts_unreachable := Some rest\<rparr>)
      | None \<Rightarrow>
          (case ts_start t of
             None \<Rightarrow>
               (Some (try_client_for_entry reach s (ms_current s)), s, t\<lparr>ts_start := Some (ms_current s, ms_current s)\<rparr>)
           | Some (start, current) \<Rightarrow>
               let s = (if ms_current s = current then skip_unreachable reach (ms_next s) else s)
               in if tried_all_since s start then
                    (case ts_skipped t of
                       [] \<Rightarrow> (None, s, t\<lparr>ts_skipped := [], ts_unreachable := Some [], ts_fused := True\<rparr>)
                     | at # rest \<Rightarrow> (Some (try_unreachable_at s at), s, t\<lparr>ts_skipped := [], ts_unreachable := Some rest\<rparr>))
                  else
                    let new_current = ms_current s
                    in (Some (try_client_for_entry reach s new_current), s,
                        t\<lparr>ts_start := Some (start, new_current),
                          ts_skipped := ts_skipped t @ word_upto (current + 1) new_current\<rparr>)))"

section \<open>The retry loop\<close>

datatype client_error = ConnectError str | ClientError str | OtherError str

text \<open>\<open>Answer\<close> is an answer of the remote or any other error of the client; \<open>TimedOut\<close> an expired timeout.\<close>

datatype 'r outcome = FailedToConnect str | FailedAfterConnect str | Answer "client_error + 'r" | TimedOut

record 'r try_event =
  te_others :: nat
  te_cache_before :: "mapping_cache \<Rightarrow> mapping_cache"
  te_cache_during :: "mapping_cache \<Rightarrow> mapping_cache"
  te_now :: int
  te_outcome :: "'r outcome"
  te_saved :: bool

record 'r world =
  w_state :: multi_state
  w_cache :: mapping_cache
  w_sent :: "(nat \<times> 'r outcome) list"

record request_state =
  rq_last_err :: "client_error option"
  rq_timed_out :: bool
  rq_connect_retry :: "(nat \<times> str) option"
  rq_first :: bool

definition request_start :: request_state where
  "request_start = \<lparr>rq_last_err = None, rq_timed_out = False, rq_connect_retry = None, rq_first = True\<rparr>"

text \<open>\<open>te_saved\<close> says whether the cache could be locked and saved; both errors are ignored.\<close>

definition mark_host :: "'r try_event \<Rightarrow> str \<Rightarrow> ConnectionState \<Rightarrow> 'r world \<Rightarrow> 'r world" where
  "mark_host ev hostname cs w =
     (if te_saved ev
      then w\<lparr>w_cache := snd (mark_host_reachable (te_now ev) (ms_remote (w_state w)) hostname cs (w_cache w))\<rparr> else w)"

definition others :: "'r try_event \<Rightarrow> 'r world \<Rightarrow> 'r world" where
  "others ev w =
     w\<lparr>w_state := (w_state w)\<lparr>ms_current := ms_current (w_state w) + of_nat (te_others ev)\<rparr>,
       w_cache := te_cache_before ev (w_cache w)\<rparr>"

definition send :: "nat \<Rightarrow> 'r try_event \<Rightarrow> 'r world \<Rightarrow> 'r world" where
  "send client ev w = w\<lparr>w_sent := w_sent w @ [(client, te_outcome ev)], w_cache := te_cache_during ev (w_cache w)\<rparr>"

definition error_text :: "client_error \<Rightarrow> str" where
  "error_text e = (case e of ConnectError m \<Rightarrow> m | ClientError m \<Rightarrow> m | OtherError m \<Rightarrow> m)"

definition fail_text :: "request_state \<Rightarrow> str option" where
  "fail_text r =
     (if rq_timed_out r then Some ''request timed out'' else map_option error_text (rq_last_err r))"

datatype ('r) try_result = Returned "client_error + 'r" | Exhausted | Continue

text \<open>The end of a pass whose request failed, the request itself, and the pass through the loop.\<close>

definition failed_attempt :: "'r try_event \<Rightarrow> str \<Rightarrow> 'r world \<Rightarrow> request_state \<Rightarrow> 'r try_result \<times> 'r world \<times> request_state" where
  "failed_attempt ev hostname w r =
     (let r = r\<lparr>rq_first := False\<rparr>
      in (Continue,
          (case fail_text r of Some err \<Rightarrow> mark_host ev hostname (Unreachable err) w | None \<Rightarrow> w), r))"

definition attempt :: "bool \<Rightarrow> 'r try_event \<Rightarrow> TryClient \<Rightarrow> 'r world \<Rightarrow> request_state \<Rightarrow> 'r try_result \<times> 'r world \<times> request_state" where
  "attempt idempotent ev c w r =
     (let r = r\<lparr>rq_last_err := None, rq_timed_out := False\<rparr>;
          w = send (tc_client c) ev w
      in case te_outcome ev of
           FailedToConnect m \<Rightarrow>
             failed_attempt ev (tc_hostname c) w
               (r\<lparr>rq_connect_retry := (if rq_first r then Some (tc_client c, tc_hostname c) else rq_connect_retry r),
                  rq_last_err := Some (ConnectError m)\<rparr>)
         | FailedAfterConnect m \<Rightarrow>
             if idempotent then failed_attempt ev (tc_hostname c) w (r\<lparr>rq_last_err := Some (ClientError m)\<rparr>)
             else (Returned (Inl (ClientError m)), w, r)
         | Answer result \<Rightarrow>
             (Returned result, (if \<not> tc_reachable c then mark_host ev (tc_hostname c) Reachable w else w), r)
         | TimedOut \<Rightarrow> failed_attempt ev (tc_hostname c) w (r\<lparr>rq_timed_out := True\<rparr>))"

definition try_step ::
  "bool \<Rightarrow> 'r try_event \<Rightarrow> 'r world \<Rightarrow> try_state \<Rightarrow> request_state \<Rightarrow> 'r try_result \<times> 'r world \<times> try_state \<times> request_state" where
  "try_step idempotent ev w0 t r =
     (let w = others ev w0;
          remote = ms_remote (w_state w)
      in case try_next (host_is_reachable (w_cache w) remote) (w_state w) t of
           (None, s, t') \<Rightarrow> (Exhausted, w\<lparr>w_state := s\<rparr>, t', r)
         | (Some c, s, t') \<Rightarrow>
             let w = w\<lparr>w_state := s\<rparr>
             in if (case host_time_to_next_try (w_cache w) remote (tc_hostname c) (te_now ev) of
                      Some (back_off_time, _) \<Rightarrow> 0 < back_off_time | None \<Rightarrow> False)
                then (Continue, w, t', r)
                else case attempt idempotent ev c w r of (k, w', r') \<Rightarrow> (k, w', t', r'))"

text \<open>What follows the loop: one more attempt on the first endpoint if it failed to connect, and the final error.\<close>

definition give_up :: "request_state \<Rightarrow> client_error + 'r" where
  "give_up r =
     (case rq_last_err r of
        Some err \<Rightarrow> Inl err
      | None \<Rightarrow>
          if rq_timed_out r then Inl (OtherError ''failed to perform API request: timed out'')
          else Inl (OtherError ''failed to perform API request: unknown error''))"

definition after_loop :: "'r try_event \<Rightarrow> 'r world \<Rightarrow> request_state \<Rightarrow> (client_error + 'r) \<times> 'r world" where
  "after_loop ev w r =
     (case rq_connect_retry r of
        None \<Rightarrow> (give_up r, w)
      | Some (client, hostname) \<Rightarrow>
          let w = send client ev w
          in case te_outcome ev of
               TimedOut \<Rightarrow> (give_up r, w)
             | FailedToConnect m \<Rightarrow> (Inl (ConnectError m), w)
             | FailedAfterConnect m \<Rightarrow> (Inl (ClientError m), w)
             | Answer (Inl err) \<Rightarrow> (Inl err, w)
             | Answer (Inr x) \<Rightarrow> (Inr x, mark_host ev hostname Reachable w))"

text \<open>The loop consumes an event per pass; without further events there is no result.\<close>

fun try_loop ::
  "bool \<Rightarrow> 'r try_event \<Rightarrow> 'r try_event list \<Rightarrow> 'r world \<Rightarrow> try_state \<Rightarrow> request_state \<Rightarrow> ((client_error + 'r) \<times> 'r world) option" where
  "try_loop idempotent final [] w t r = None"
| "try_loop idempotent final (ev # evs) w t r =
     (case try_step idempotent ev w t r of
        (Returned x, w', _) \<Rightarrow> Some (x, w')
      | (Exhausted, w', _, r') \<Rightarrow> Some (after_loop final w' r')
      | (Continue, w', t', r') \<Rightarrow> try_loop idempotent final evs w' t' r')"

text \<open>\<open>params\<close> is the result of serialising the parameters.\<close>

definition try_request ::
  "bool \<Rightarrow> str + unit \<Rightarrow> int \<Rightarrow> 'r try_event \<Rightarrow> 'r try_event list \<Rightarrow> 'r world \<Rightarrow> ((client_error + 'r) \<times> 'r world) option" where
  "try_request idempotent params now final evs w =
     (case remote_time_to_next_try (w_cache w) (ms_remote (w_state w)) now of
        Some (Suc _, last_error) \<Rightarrow> Some (Inl (ConnectError last_error), w)
      | _ \<Rightarrow>
          (case params of
             Inl err \<Rightarrow> Some (Inl (OtherError err), w)
           | Inr _ \<Rightarrow> try_loop idempotent final evs w try_clients request_start))"

section \<open>Positions\<close>

lemma skip_loop_current:
  "\<exists>j \<le> m. skip_loop reach m s = s\<lparr>ms_current := ms_current s + of_nat j\<rparr>"
proof (induction m arbitrary: s)
  case (Suc m)
  show ?case
  proof (cases "reach (get_entry s)")
    case True
    then show ?thesis by (intro exI [of _ 0]) simp
  next
    case False
    from Suc.IH [of "ms_next s"] obtain j where "j \<le> m"
      "skip_loop reach m (ms_next s) = (ms_next s)\<lparr>ms_current := ms_current (ms_next s) + of_nat j\<rparr>" by blast
    with False show ?thesis by (intro exI [of _ "Suc j"]) (simp add: ms_next_def algebra_simps)
  qed
qed simp

lemma skip_unreachable_next:
  obtains j where "1 \<le> j" "j \<le> length (ms_entries s) + 1"
    "skip_unreachable reach (ms_next s) = s\<lparr>ms_current := ms_current s + of_nat j\<rparr>"
proof -
  obtain i where "i \<le> length (ms_entries s)"
    "skip_unreachable reach (ms_next s) = (ms_next s)\<lparr>ms_current := ms_current (ms_next s) + of_nat i\<rparr>"
    using skip_loop_current [of "length (ms_entries (ms_next s))" reach "ms_next s"]
    by (auto simp: skip_unreachable_def ms_next_def)
  with that [of "Suc i"] show thesis by (simp add: ms_next_def algebra_simps)
qed

lemma unat_plus_of_nat: "unat (x :: 64 word) + j < 2 ^ 64 \<Longrightarrow> unat (x + of_nat j) = unat x + j"
  by (simp add: unat_word_ariths unat_of_nat)

lemma word_upto_unat: "unat at \<le> unat to \<Longrightarrow> map unat (word_upto at to) = [unat at..<unat to]"
proof (induction at to rule: word_upto.induct)
  case (1 at to)
  show ?case
  proof (cases "at = to")
    case False
    with 1(2) have less: "unat at < unat to" by (simp add: word_unat_eq_iff)
    then have "unat (at + 1) = Suc (unat at)" using unat_plus_of_nat [of at 1] unsigned_less [of to, where 'a = nat] by simp
    with 1(1) [OF False] less False show ?thesis by (simp add: word_upto.simps [of at] upt_conv_Cons)
  qed (simp add: word_upto.simps)
qed

section \<open>The strategy\<close>

text \<open>
  The positions handed out so far (\<open>Y\<close>) and those still remembered are distinct and lie in a window of
  as many positions as there are clients. Before the second round, none is beyond the last client tried,
  which is not beyond the shared position.
\<close>

definition pend :: "try_state \<Rightarrow> nat list" where
  "pend t = map unat (case ts_unreachable t of Some xs \<Rightarrow> xs | None \<Rightarrow> ts_skipped t)"

definition in_window :: "nat \<Rightarrow> nat \<Rightarrow> nat list \<Rightarrow> bool" where
  "in_window start n ps \<longleftrightarrow> distinct ps \<and> (\<forall>p \<in> set ps. start \<le> p \<and> p < start + n)"

definition first_round :: "nat \<Rightarrow> nat list \<Rightarrow> multi_state \<Rightarrow> try_state \<Rightarrow> bool" where
  "first_round n Y s t \<longleftrightarrow>
     (\<exists>start current. ts_start t = Some (start, current) \<and> unat start \<le> unat current \<and> unat current < unat start + n \<and>
        unat current \<le> unat (ms_current s) \<and> in_window (unat start) n (Y @ pend t) \<and> (\<forall>p \<in> set (Y @ pend t). p \<le> unat current))"

definition try_inv :: "nat \<Rightarrow> nat list \<Rightarrow> multi_state \<Rightarrow> try_state \<Rightarrow> bool" where
  "try_inv n Y s t \<longleftrightarrow>
     length (ms_entries s) = n \<and> 0 < n \<and>
     (if ts_fused t \<or> ts_unreachable t \<noteq> None then \<exists>start. in_window start n (Y @ pend t)
      else Y = [] \<and> t = try_clients \<or> first_round n Y s t)"

lemma in_window_length: "in_window start n ps \<Longrightarrow> length ps \<le> n"
  using card_mono [of "{start..<start + n}" "set ps"] distinct_card [of ps]
  by (auto simp: in_window_def subset_iff)

lemma in_window_mod: "in_window start n ps \<Longrightarrow> distinct (map (\<lambda>p. p mod n) ps)"
proof (induction ps)
  case (Cons p ps)
  have "p mod n \<noteq> q mod n" if "q \<in> set ps" for q
  proof
    assume eq: "p mod n = q mod n"
    have "p < q + n" "q < p + n" "p \<noteq> q" using Cons.prems that by (auto simp: in_window_def)
    moreover have "n dvd p - q" "n dvd q - p"
      using eq by (cases p q rule: linorder_le_cases; simp add: mod_eq_dvd_iff_nat [symmetric])+
    ultimately show False using dvd_imp_le [of n "p - q"] dvd_imp_le [of n "q - p"] by linarith
  qed
  with Cons show ?case by (auto simp: in_window_def)
qed simp

lemma try_inv_window:
  assumes "try_inv n Y s t"
  shows "length Y \<le> n" and "distinct (map (\<lambda>p. p mod n) Y)"
proof -
  obtain start where "in_window start n Y"
    using assms unfolding try_inv_def first_round_def in_window_def by (auto split: if_splits)
  then show "length Y \<le> n" "distinct (map (\<lambda>p. p mod n) Y)" by (rule in_window_length, rule in_window_mod)
qed

lemma try_inv_advance:
  assumes "try_inv n Y s t" and "unat (ms_current s) \<le> unat (ms_current s')" and "ms_entries s' = ms_entries s"
  shows "try_inv n Y s' t"
  using assms unfolding try_inv_def first_round_def by (auto split: if_splits intro: order_trans)

text \<open>The positions that the retry loop has seen are those of \<open>Y\<close>; \<open>next_ok\<close> is what one call of the iterator does to them.\<close>

definition next_ok :: "nat \<Rightarrow> nat list \<Rightarrow> multi_state \<Rightarrow> TryClient option \<times> multi_state \<times> try_state \<Rightarrow> bool" where
  "next_ok n Y s =
     (\<lambda>(c, s', t').
        unat (ms_current s) \<le> unat (ms_current s') \<and> unat (ms_current s') \<le> unat (ms_current s) + n + 1 \<and>
        (case c of None \<Rightarrow> True | Some c \<Rightarrow> \<exists>p. tc_client c = p mod n \<and> try_inv n (Y @ [p]) s' t'))"

lemma next_unreachable_ok:
  assumes "try_inv n Y s t" "\<not> ts_fused t" "ts_unreachable t = Some xs"
  shows "next_ok n Y s (try_next reach s t)"
proof (cases xs)
  case (Cons at rest)
  with assms have "try_inv n (Y @ [unat at]) s (t\<lparr>ts_unreachable := Some rest\<rparr>)"
    by (auto simp: try_inv_def pend_def)
  moreover have "length (ms_entries s) = n" using assms(1) by (simp add: try_inv_def)
  ultimately show ?thesis using Cons assms(2,3)
    by (auto simp: next_ok_def try_next_def try_unreachable_at_def ms_index_def intro!: exI [of _ "unat at"])
qed (use assms in \<open>simp add: next_ok_def try_next_def\<close>)

lemma next_first_ok:
  assumes "try_inv n [] s try_clients"
  shows "next_ok n [] s (try_next reach s try_clients)"
  using assms
  by (auto simp: next_ok_def try_next_def try_inv_def pend_def try_clients_def try_client_for_entry_def ms_index_def
      first_round_def in_window_def intro!: exI [of _ "unat (ms_current s)"])

lemma advance_or_stay:
  assumes "unat (ms_current s) + length (ms_entries s) + 1 < 2 ^ 64"
    and "unat current \<le> unat (ms_current s)"
  obtains j where "j \<le> length (ms_entries s) + 1"
    "(if ms_current s = current then skip_unreachable reach (ms_next s) else s) = s\<lparr>ms_current := ms_current s + of_nat j\<rparr>"
    "unat (ms_current s + of_nat j) = unat (ms_current s) + j" "unat current < unat (ms_current s) + j"
proof (cases "ms_current s = current")
  case True
  obtain j where "1 \<le> j" "j \<le> length (ms_entries s) + 1"
    "skip_unreachable reach (ms_next s) = s\<lparr>ms_current := ms_current s + of_nat j\<rparr>" by (rule skip_unreachable_next)
  with True assms that [of j] show thesis by (simp add: unat_plus_of_nat)
next
  case False
  with assms(2) that [of 0] show thesis by (simp add: word_unat_eq_iff)
qed

lemma tried_all_since_unat:
  "unat start \<le> unat (ms_current s) \<Longrightarrow>
   tried_all_since s start \<longleftrightarrow> unat start + length (ms_entries s) \<le> unat (ms_current s)"
  by (auto simp: tried_all_since_def tried_clients_def unat_sub word_le_nat_alt)

lemma in_window_extend:
  assumes "in_window start n (Y @ P)" and upto: "\<forall>p \<in> set (Y @ P). p \<le> c" and "start \<le> c" "c < m" "m < start + n"
  shows "in_window start n (Y @ [m] @ P @ [Suc c..<m])"
proof -
  have "p \<le> c" if "p \<in> set Y \<or> p \<in> set P" for p using upto that by auto
  then have "m \<notin> set Y" "m \<notin> set P" "set Y \<inter> {Suc c..<m} = {}" "set P \<inter> {Suc c..<m} = {}"
    using \<open>c < m\<close> by (force simp: disjoint_iff)+
  with assms show ?thesis by (auto simp: in_window_def)
qed

lemma next_round_ok:
  assumes inv: "try_inv n Y s t" and first: "first_round n Y s t" "\<not> ts_fused t" "ts_unreachable t = None"
    and bound: "unat (ms_current s) + n + 1 < 2 ^ 64"
  shows "next_ok n Y s (try_next reach s t)"
proof -
  from first(1) obtain start current where
    c: "ts_start t = Some (start, current)" "unat start \<le> unat current" "unat current \<le> unat (ms_current s)"
    and win: "in_window (unat start) n (Y @ pend t)" and upto: "\<forall>p \<in> set (Y @ pend t). p \<le> unat current"
    by (auto simp: first_round_def)
  from inv have n: "length (ms_entries s) = n" "0 < n" by (auto simp: try_inv_def)
  obtain j where j: "j \<le> n + 1"
    "(if ms_current s = current then skip_unreachable reach (ms_next s) else s) = s\<lparr>ms_current := ms_current s + of_nat j\<rparr>"
    "unat (ms_current s + of_nat j) = unat (ms_current s) + j" "unat current < unat (ms_current s) + j"
    using advance_or_stay [of s current reach thesis] bound c(3) n by auto
  define s1 where "s1 = s\<lparr>ms_current := ms_current s + of_nat j\<rparr>"
  have s1: "unat (ms_current s1) = unat (ms_current s) + j" "length (ms_entries s1) = n"
    using j n by (simp_all add: s1_def)
  have all: "tried_all_since s1 start \<longleftrightarrow> unat start + n \<le> unat (ms_current s1)"
    using tried_all_since_unat [of start s1] s1 c j(4) by simp
  show ?thesis
  proof (cases "tried_all_since s1 start")
    case True
    show ?thesis
    proof (cases "ts_skipped t")
      case (Cons at rest)
      with win first n have "try_inv n (Y @ [unat at]) s1 (t\<lparr>ts_skipped := [], ts_unreachable := Some rest\<rparr>)"
        by (auto simp: try_inv_def pend_def s1_def)
      with Cons True first c j s1 show ?thesis
        by (auto simp: next_ok_def try_next_def Let_def s1_def [symmetric] try_unreachable_at_def ms_index_def
            intro!: exI [of _ "unat at"])
    qed (use True first c j s1 in \<open>auto simp: next_ok_def try_next_def Let_def s1_def [symmetric]\<close>)
  next
    case False
    let ?skip = "word_upto (current + 1) (ms_current s1)"
    have "unat (current + 1) = Suc (unat current)"
      using unat_plus_of_nat [of current 1] bound c(3) by simp
    then have skip: "map unat ?skip = [Suc (unat current)..<unat (ms_current s1)]"
      using word_upto_unat [of "current + 1" "ms_current s1"] j(4) s1 by simp
    have "in_window (unat start) n (Y @ [unat (ms_current s1)] @ pend t @ map unat ?skip)"
      unfolding skip using win upto c(2) by (rule in_window_extend) (use False all s1 j(4) in simp_all)
    moreover have "p \<le> unat (ms_current s1)" if "p \<in> set Y \<or> p \<in> set (pend t)" for p
      using bspec [OF upto, of p] that s1 j(4) by auto
    ultimately have "try_inv n (Y @ [unat (ms_current s1)]) s1
        (t\<lparr>ts_start := Some (start, ms_current s1), ts_skipped := ts_skipped t @ ?skip\<rparr>)"
      using first n False all s1 c j(4) by (auto simp: try_inv_def pend_def first_round_def skip)
    with False first c j s1 show ?thesis
      by (auto simp: next_ok_def try_next_def Let_def s1_def [symmetric] try_client_for_entry_def ms_index_def
          intro!: exI [of _ "unat (ms_current s1)"])
  qed
qed

lemma try_next_ok:
  assumes inv: "try_inv n Y s t" and bound: "unat (ms_current s) + n + 1 < 2 ^ 64"
  shows "next_ok n Y s (try_next reach s t)"
proof (cases "ts_fused t")
  case True
  then show ?thesis by (simp add: next_ok_def try_next_def)
next
  case False
  show ?thesis
  proof (cases "ts_unreachable t")
    case None
    with False inv have "Y = [] \<and> t = try_clients \<or> first_round n Y s t" by (simp add: try_inv_def)
    with False None inv bound show ?thesis using next_first_ok next_round_ok by blast
  qed (use False inv next_unreachable_ok in blast)
qed

section \<open>Requests\<close>

lemma world_simps [simp]:
  "w_state (mark_host ev h cs w) = w_state w" "w_sent (mark_host ev h cs w) = w_sent w"
  "w_state (send c ev w) = w_state w" "w_sent (send c ev w) = w_sent w @ [(c, te_outcome ev)]"
  "w_sent (others ev w) = w_sent w"
  by (simp_all add: mark_host_def send_def others_def)

lemma failed_attempt_simps [simp]:
  "fst (failed_attempt ev h w r) = Continue" "w_state (fst (snd (failed_attempt ev h w r))) = w_state w"
  "w_sent (fst (snd (failed_attempt ev h w r))) = w_sent w"
  "snd (snd (failed_attempt ev h w r)) = r\<lparr>rq_first := False\<rparr>"
  by (simp_all add: failed_attempt_def Let_def split: option.split)

lemma attempt_world [simp]:
  "w_state (fst (snd (attempt idem ev c w r))) = w_state w"
  "w_sent (fst (snd (attempt idem ev c w r))) = w_sent w @ [(tc_client c, te_outcome ev)]"
  "fst (attempt idem ev c w r) \<noteq> Exhausted"
  by (simp_all add: attempt_def Let_def split: outcome.split)

definition step_ok :: "nat \<Rightarrow> nat list \<Rightarrow> 'r try_event \<Rightarrow> 'r world \<Rightarrow> 'r try_result \<times> 'r world \<times> try_state \<times> request_state \<Rightarrow> bool" where
  "step_ok n Y ev w =
     (\<lambda>(k, w', t', r').
        unat (ms_current (w_state w')) \<le> unat (ms_current (w_state w)) + te_others ev + n + 1 \<and>
        (k = Exhausted \<and> w_sent w' = w_sent w \<or>
         k \<noteq> Exhausted \<and>
         (\<exists>p S. try_inv n (Y @ [p]) (w_state w') t' \<and> w_sent w' = w_sent w @ S \<and> S \<in> {[], [(p mod n, te_outcome ev)]})))"

lemma try_step_ok:
  assumes inv: "try_inv n Y (w_state w) t" and bound: "unat (ms_current (w_state w)) + te_others ev + n + 1 < 2 ^ 64"
  shows "step_ok n Y ev w (try_step idem ev w t r)"
proof -
  let ?w = "others ev w"
  have pos: "unat (ms_current (w_state ?w)) = unat (ms_current (w_state w)) + te_others ev"
    using bound by (simp add: others_def unat_plus_of_nat)
  have "try_inv n Y (w_state ?w) t"
    using inv by (rule try_inv_advance) (use pos in \<open>simp_all add: others_def\<close>)
  then have ok: "next_ok n Y (w_state ?w) (try_next reach (w_state ?w) t)" for reach
    by (rule try_next_ok) (use pos bound in simp)
  obtain c s' t' where nxt:
    "try_next (host_is_reachable (w_cache ?w) (ms_remote (w_state ?w))) (w_state ?w) t = (c, s', t')"
    by (cases "try_next (host_is_reachable (w_cache ?w) (ms_remote (w_state ?w))) (w_state ?w) t") auto
  show ?thesis
  proof (cases c)
    case None
    with ok [of "host_is_reachable (w_cache ?w) (ms_remote (w_state ?w))"] nxt pos show ?thesis
      by (simp add: try_step_def step_ok_def next_ok_def)
  next
    case (Some x)
    with ok [of "host_is_reachable (w_cache ?w) (ms_remote (w_state ?w))"] nxt pos
    obtain p where p: "tc_client x = p mod n" "try_inv n (Y @ [p]) s' t'"
      "unat (ms_current s') \<le> unat (ms_current (w_state w)) + te_others ev + n + 1"
      by (auto simp: next_ok_def)
    show ?thesis
      unfolding try_step_def Let_def nxt Some
      using p by (auto simp: step_ok_def case_prod_unfold intro: exI [of _ p])
  qed
qed

text \<open>The requests sent by the loop, and the extra one after it.\<close>

lemma after_loop_sent [simp]:
  "w_sent (snd (after_loop ev w r)) =
     w_sent w @ (case rq_connect_retry r of None \<Rightarrow> [] | Some (c, _) \<Rightarrow> [(c, te_outcome ev)])"
  by (simp add: after_loop_def Let_def split: option.split outcome.split sum.split prod.split)

lemma try_loop_terminates:
  assumes "try_inv n Y (w_state w) t" and "n < length Y + length evs"
    and "unat (ms_current (w_state w)) + sum_list (map te_others evs) + (n + 1) * length evs < 2 ^ 64"
  shows "\<exists>res w' L R. try_loop idem final evs w t r = Some (res, w') \<and> w_sent w' = w_sent w @ L @ R \<and>
    distinct (map (\<lambda>p. p mod n) Y @ map fst L) \<and> (\<forall>c \<in> fst ` set L. c < n) \<and> length R \<le> 1"
  using assms
proof (induction evs arbitrary: Y w t r)
  case Nil
  then show ?case using try_inv_window(1) by fastforce
next
  case (Cons ev evs)
  note dist = try_inv_window(2) [OF Cons.prems(1)]
  have pos: "0 < n" using Cons.prems(1) by (simp add: try_inv_def)
  obtain k w' t' r' where st: "try_step idem ev w t r = (k, w', t', r')" by (cases "try_step idem ev w t r") auto
  have "step_ok n Y ev w (k, w', t', r')"
    using try_step_ok [OF Cons.prems(1), of ev idem r] Cons.prems(3) st by simp
  then have bound: "unat (ms_current (w_state w')) \<le> unat (ms_current (w_state w)) + te_others ev + n + 1"
    and cases: "k = Exhausted \<and> w_sent w' = w_sent w \<or>
       k \<noteq> Exhausted \<and>
       (\<exists>p S. try_inv n (Y @ [p]) (w_state w') t' \<and> w_sent w' = w_sent w @ S \<and> S \<in> {[], [(p mod n, te_outcome ev)]})"
    by (auto simp: step_ok_def)
  show ?case
  proof (cases "k = Exhausted")
    case True
    with cases have "w_sent w' = w_sent w" by simp
    then obtain R where "w_sent (snd (after_loop final w' r')) = w_sent w @ R" "length R \<le> 1"
      by (cases "rq_connect_retry r'") auto
    note R = this
    show ?thesis
    proof (intro exI conjI)
      show "try_loop idem final (ev # evs) w t r = Some (fst (after_loop final w' r'), snd (after_loop final w' r'))"
        using True st by simp
      show "w_sent (snd (after_loop final w' r')) = w_sent w @ [] @ R" using R by simp
    qed (use R dist in simp_all)
  next
    case False
    with cases obtain p S where p: "try_inv n (Y @ [p]) (w_state w') t'" "w_sent w' = w_sent w @ S"
      and S: "S = [] \<or> S = [(p mod n, te_outcome ev)]" by auto
    note dist' = try_inv_window(2) [OF p(1)]
    show ?thesis
    proof (cases k)
      case (Returned x)
      show ?thesis
      proof (intro exI conjI)
        show "try_loop idem final (ev # evs) w t r = Some (x, w')" using Returned st by simp
        show "w_sent w' = w_sent w @ S @ []" using p by simp
      qed (use S dist' pos in \<open>auto intro: rev_image_eqI\<close>)
    next
      case Continue
      have "\<exists>res w'' L R. try_loop idem final evs w' t' r' = Some (res, w'') \<and> w_sent w'' = w_sent w' @ L @ R \<and>
          distinct (map (\<lambda>p. p mod n) (Y @ [p]) @ map fst L) \<and> (\<forall>c \<in> fst ` set L. c < n) \<and> length R \<le> 1"
        using p(1) by (rule Cons.IH) (use Cons.prems bound in simp_all)
      then obtain res w'' L R where "try_loop idem final evs w' t' r' = Some (res, w'')" "w_sent w'' = w_sent w' @ L @ R"
        "distinct (map (\<lambda>p. p mod n) (Y @ [p]) @ map fst L)" "\<forall>c \<in> fst ` set L. c < n" "length R \<le> 1" by blast
      note L = this
      show ?thesis
      proof (intro exI conjI)
        show "try_loop idem final (ev # evs) w t r = Some (res, w'')" using Continue st L by simp
        show "w_sent w'' = w_sent w @ (S @ L) @ R" using p L by simp
      qed (use S L pos in \<open>auto intro: rev_image_eqI\<close>)
    qed (use False in simp)
  qed
qed

text \<open>Outcomes after which the request may go to another client.\<close>

definition retryable :: "bool \<Rightarrow> 'r outcome \<Rightarrow> bool" where
  "retryable idempotent oc =
     (case oc of FailedToConnect _ \<Rightarrow> True | TimedOut \<Rightarrow> True | FailedAfterConnect _ \<Rightarrow> idempotent | Answer _ \<Rightarrow> False)"

lemma retryable_simps [simp]:
  "retryable idem (FailedToConnect m)" "retryable idem TimedOut" "retryable idem (FailedAfterConnect m) \<longleftrightarrow> idem"
  "\<not> retryable idem (Answer y)"
  by (simp_all add: retryable_def)

text \<open>What the loop knows of the requests \<open>S\<close> it has sent.\<close>

definition sent_inv :: "bool \<Rightarrow> (nat \<times> 'r outcome) list \<Rightarrow> request_state \<Rightarrow> bool" where
  "sent_inv idempotent S r \<longleftrightarrow>
     (\<forall>x \<in> set S. retryable idempotent (snd x)) \<and> (rq_first r \<longleftrightarrow> S = []) \<and>
     (\<forall>c h. rq_connect_retry r = Some (c, h) \<longrightarrow> (\<exists>m S'. S = (c, FailedToConnect m) # S'))"

definition result_ok :: "bool \<Rightarrow> (nat \<times> 'r outcome) list \<Rightarrow> client_error + 'r \<Rightarrow> bool" where
  "result_ok idempotent S res \<longleftrightarrow>
     (\<forall>x \<in> set (butlast S). retryable idempotent (snd x)) \<and>
     (\<forall>v. res = Inr v \<longrightarrow> S \<noteq> [] \<and> snd (last S) = Answer (Inr v)) \<and>
     (\<forall>y. S \<noteq> [] \<and> snd (last S) = Answer y \<longrightarrow> res = y)"

lemma sent_inv_start: "sent_inv idem [] request_start"
  by (simp add: sent_inv_def request_start_def)

lemma attempt_result:
  assumes "sent_inv idem S r" and "attempt idem ev c w r = (k, w', r')"
  shows "case k of Returned x \<Rightarrow> result_ok idem (S @ [(tc_client c, te_outcome ev)]) x
         | Continue \<Rightarrow> sent_inv idem (S @ [(tc_client c, te_outcome ev)]) r' | Exhausted \<Rightarrow> False"
  using assms
  by (cases "te_outcome ev")
    (auto simp: attempt_def failed_attempt_def Let_def sent_inv_def result_ok_def split: if_splits)

lemma give_up_fails [simp]: "give_up r \<noteq> Inr v"
  by (simp add: give_up_def split: option.split)

lemma after_loop_result:
  assumes "sent_inv idem S r"
  shows "result_ok idem (S @ (case rq_connect_retry r of None \<Rightarrow> [] | Some (c, _) \<Rightarrow> [(c, te_outcome ev)]))
           (fst (after_loop ev w r))"
proof -
  have all: "\<forall>x \<in> set S. retryable idem (snd x)" using assms by (simp add: sent_inv_def)
  then have S: "\<forall>x \<in> set (butlast S). retryable idem (snd x)" "S \<noteq> [] \<Longrightarrow> snd (last S) \<noteq> Answer y" for y
    using retryable_simps(4) by (auto dest: in_set_butlastD) (metis last_in_set retryable_simps(4))
  show ?thesis
  proof (cases "rq_connect_retry r")
    case None
    with S show ?thesis by (auto simp: after_loop_def result_ok_def)
  next
    case (Some ch)
    with all show ?thesis
      by (cases ch; cases "te_outcome ev") (auto simp: after_loop_def result_ok_def Let_def split: sum.split)
  qed
qed

lemma try_loop_result:
  assumes "sent_inv idem S r" and "w_sent w = S0 @ S" and "try_loop idem final evs w t r = Some (res, w')"
  shows "\<exists>S'. w_sent w' = S0 @ S' \<and> result_ok idem S' res"
  using assms
proof (induction evs arbitrary: S w t r)
  case (Cons ev evs)
  let ?w = "others ev w"
  obtain c s' t' where nxt:
    "try_next (host_is_reachable (w_cache ?w) (ms_remote (w_state ?w))) (w_state ?w) t = (c, s', t')"
    by (cases "try_next (host_is_reachable (w_cache ?w) (ms_remote (w_state ?w))) (w_state ?w) t") auto
  show ?case
  proof (cases c)
    case None
    with Cons.prems nxt after_loop_result [OF Cons.prems(1), of final "?w\<lparr>w_state := s'\<rparr>"]
      after_loop_sent [of final "?w\<lparr>w_state := s'\<rparr>" r]
    show ?thesis by (auto simp: try_step_def Let_def)
  next
    case (Some x)
    obtain k w2 r2 where att: "attempt idem ev x (?w\<lparr>w_state := s'\<rparr>) r = (k, w2, r2)"
      by (cases "attempt idem ev x (?w\<lparr>w_state := s'\<rparr>) r") auto
    have sent: "w_sent w2 = S0 @ S @ [(tc_client x, te_outcome ev)]"
      using attempt_world(2) [of idem ev x "?w\<lparr>w_state := s'\<rparr>" r] att Cons.prems(2) by simp
    show ?thesis
      using Cons.prems nxt Some att sent attempt_result [OF Cons.prems(1) att]
        Cons.IH [of S r "?w\<lparr>w_state := s'\<rparr>" t'] Cons.IH [of "S @ [(tc_client x, te_outcome ev)]" r2 w2 t']
      by (auto simp: try_step_def Let_def split: if_splits try_result.splits)
  qed
qed simp

section \<open>Properties\<close>

text \<open>A remote with two nodes, of which the first cannot be reached.\<close>

definition two_nodes :: "nat world" where
  "two_nodes =
     \<lparr>w_state = \<lparr>ms_current = 0, ms_remote = ''pve'', ms_entries = [''a'', ''b'']\<rparr>,
      w_cache = \<lparr>mc_remotes = [], mc_canary = None\<rparr>, w_sent = []\<rparr>"

definition event :: "nat outcome \<Rightarrow> nat try_event" where
  "event oc =
     \<lparr>te_others = 0, te_cache_before = (\<lambda>c. c), te_cache_during = (\<lambda>c. c), te_now = 0, te_outcome = oc, te_saved = True\<rparr>"

definition first_node_down :: "nat try_event list" where
  "first_node_down = [event (FailedToConnect ''refused''), event (Answer (Inr 7)), event TimedOut]"

text \<open>
  C9. A request to a remote with \<open>n\<close> nodes always comes to an end: whatever other requests do meanwhile to the
  shared position and to the reachability of the hosts, and whatever the outcomes are, it returns after at
  most \<open>n + 1\<close> passes through the retry loop. The loop sends the request to each node at most once, and at
  most one more attempt follows. The bound keeps the shared position from wrapping.
\<close>

theorem request_terminates:
  assumes "ms_entries (w_state w) \<noteq> []" and "length (ms_entries (w_state w)) < length evs"
    and "unat (ms_current (w_state w)) + sum_list (map te_others evs) + (length (ms_entries (w_state w)) + 1) * length evs < 2 ^ 64"
  shows "\<exists>res w' L R. try_request idem params now final evs w = Some (res, w') \<and> w_sent w' = w_sent w @ L @ R \<and>
    distinct (map fst L) \<and> (\<forall>c \<in> fst ` set L. c < length (ms_entries (w_state w))) \<and> length R \<le> 1"
proof -
  have "try_inv (length (ms_entries (w_state w))) [] (w_state w) try_clients"
    using assms(1) by (simp add: try_inv_def try_clients_def)
  from try_loop_terminates [OF this, of evs idem final request_start] assms(2,3)
  have loop: "\<exists>res w' L R. try_loop idem final evs w try_clients request_start = Some (res, w') \<and> w_sent w' = w_sent w @ L @ R \<and>
    distinct (map fst L) \<and> (\<forall>c \<in> fst ` set L. c < length (ms_entries (w_state w))) \<and> length R \<le> 1" by simp
  have none: "\<exists>res w' L R. Some (y, w) = Some (res, w') \<and> w_sent w' = w_sent w @ L @ R \<and>
    distinct (map fst L) \<and> (\<forall>c \<in> fst ` set L. c < length (ms_entries (w_state w))) \<and> length R \<le> 1" for y :: "client_error + 'a"
    by (intro exI [of _ y] exI [of _ w], rule exI [of _ "[]"], rule exI [of _ "[]"]) simp
  show ?thesis
    unfolding try_request_def using loop none by (auto split: option.split nat.split sum.split simp del: Nil_is_append_conv)
qed

theorem request_terminates_witness:
  "\<exists>res w' L R. try_request False (Inr ()) 0 (event TimedOut) first_node_down two_nodes = Some (res, w') \<and>
     w_sent w' = w_sent two_nodes @ L @ R \<and> distinct (map fst L) \<and>
     (\<forall>c \<in> fst ` set L. c < length (ms_entries (w_state two_nodes))) \<and> length R \<le> 1"
  by (rule request_terminates) (simp_all add: two_nodes_def first_node_down_def event_def)

text \<open>
  C10. A request is passed on to another node only when that is harmless: after every outcome but the last one
  the request had either not reached the server, or timed out, or it is idempotent and its connection broke. A
  success that is reported is the answer of the last node asked, and once a node has answered, with a result
  or with an error of its own, no other node is asked and this answer is the result.
\<close>

theorem request_failover_sound:
  assumes "try_request idem params now final evs w = Some (res, w')"
  shows "\<exists>S. w_sent w' = w_sent w @ S \<and> (\<forall>x \<in> set (butlast S). retryable idem (snd x)) \<and>
    (\<forall>v. res = Inr v \<longrightarrow> S \<noteq> [] \<and> snd (last S) = Answer (Inr v)) \<and>
    (\<forall>y. S \<noteq> [] \<and> snd (last S) = Answer y \<longrightarrow> res = y)"
proof -
  have "\<exists>S. w_sent w' = w_sent w @ S \<and> result_ok idem S res"
  proof (cases "try_loop idem final evs w try_clients request_start = Some (res, w')")
    case True
    from try_loop_result [OF sent_inv_start _ this, of "w_sent w"] show ?thesis by simp
  next
    case False
    with assms have "w' = w" "\<exists>e. res = Inl e" by (auto simp: try_request_def split: option.splits nat.splits sum.splits)
    then show ?thesis by (auto simp: result_ok_def)
  qed
  then show ?thesis by (simp add: result_ok_def)
qed

lemma request_example:
  "map_option (\<lambda>(res, w). (res, w_sent w)) (try_request False (Inr ()) 0 (event TimedOut) first_node_down two_nodes) =
     Some (Inr 7, [(0, FailedToConnect ''refused''), (1, Answer (Inr 7))])"
  by code_simp

theorem request_failover_sound_witness:
  "\<exists>res w' S. try_request False (Inr ()) 0 (event TimedOut) first_node_down two_nodes = Some (res, w') \<and>
     w_sent w' = w_sent two_nodes @ S \<and> (\<forall>x \<in> set (butlast S). retryable False (snd x)) \<and>
     S \<noteq> [] \<and> snd (last S) = Answer (Inr 7)"
proof -
  obtain w' where r: "try_request False (Inr ()) 0 (event TimedOut) first_node_down two_nodes = Some (Inr 7, w')"
    using request_example by auto
  from request_failover_sound [OF r] r show ?thesis by blast
qed

lemma get_at_ms_next:
  "get_at (ms_next s) (ms_current (ms_next s) + of_nat j) = get_at s (ms_current s + of_nat (Suc j))"
  by (simp add: ms_next_def get_at_def ms_index_def add.assoc)

lemma skip_loop_passes:
  assumes "k \<le> m" and "\<forall>j < k. \<not> reach (get_at s (ms_current s + of_nat j))"
  shows "\<exists>j \<ge> k. j \<le> m \<and> skip_loop reach m s = s\<lparr>ms_current := ms_current s + of_nat j\<rparr>"
  using assms
proof (induction k arbitrary: m s)
  case 0
  then show ?case using skip_loop_current by simp
next
  case (Suc k)
  then obtain m' where m': "m = Suc m'" by (cases m) auto
  have "\<not> reach (get_entry s)" using Suc.prems(2) by (auto simp: get_entry_def)
  moreover have "\<forall>j < k. \<not> reach (get_at (ms_next s) (ms_current (ms_next s) + of_nat j))"
    unfolding get_at_ms_next using Suc.prems(2) Suc_less_eq by blast
  with Suc.IH [of m' "ms_next s"] Suc.prems(1) m' obtain j where "k \<le> j" "j \<le> m'"
    "skip_loop reach m' (ms_next s) = (ms_next s)\<lparr>ms_current := ms_current (ms_next s) + of_nat j\<rparr>" by auto
  ultimately show ?case using m' by (intro exI [of _ "Suc j"]) (simp add: ms_next_def algebra_simps)
qed

text \<open>
  C38. The hosts that are skipped because they are flagged unreachable are remembered, to be tried when all others
  have failed. But when every host after the first is flagged, none of them is remembered: the strategy
  ends after the first client, and the flagged hosts are not tried although all others have failed.
\<close>

theorem skipped_hosts_forgotten:
  assumes "length (ms_entries s) = n" "0 < n" "unat (ms_current s) + n + 1 < 2 ^ 64"
    and "\<forall>j. 0 < j \<and> j < n \<longrightarrow> \<not> reach (get_at s (ms_current s + of_nat j))"
    and "try_next reach0 s try_clients = (c, s', t)"
  shows "c \<noteq> None \<and> fst (try_next reach s' t) = None"
proof -
  let ?k = "ms_current s"
  from assms(5) have c: "c = Some (try_client_for_entry reach0 s ?k)" and s': "s' = s"
    and t: "t = try_clients\<lparr>ts_start := Some (?k, ?k)\<rparr>"
    by (auto simp: try_next_def try_clients_def)
  have "\<forall>j < n - 1. \<not> reach (get_at (ms_next s) (ms_current (ms_next s) + of_nat j))"
    unfolding get_at_ms_next using assms(4) by (simp del: of_nat_Suc)
  with skip_loop_passes [of "n - 1" n reach "ms_next s"] assms(1)
  obtain j where j: "n - 1 \<le> j" "j \<le> n" "skip_unreachable reach (ms_next s) = s\<lparr>ms_current := ?k + of_nat (Suc j)\<rparr>"
    by (auto simp: skip_unreachable_def ms_next_def algebra_simps)
  then have "unat (?k + of_nat (Suc j)) = unat ?k + Suc j" using assms(3) by (intro unat_plus_of_nat) simp
  then have "tried_all_since (s\<lparr>ms_current := ?k + of_nat (Suc j)\<rparr>) ?k"
    using tried_all_since_unat [of ?k "s\<lparr>ms_current := ?k + of_nat (Suc j)\<rparr>"] j assms(1,2) by simp
  with j(3) show ?thesis
    by (simp add: c s' t try_next_def try_clients_def Let_def del: of_nat_Suc)
qed

theorem skipped_hosts_forgotten_witness:
  "fst (try_next (\<lambda>_. False) (w_state two_nodes) (snd (snd (try_next (\<lambda>_. True) (w_state two_nodes) try_clients)))) = None"
  using skipped_hosts_forgotten [of "w_state two_nodes" 2 "\<lambda>_. False" "\<lambda>_. True"
      "Some (try_client_for_entry (\<lambda>_. True) (w_state two_nodes) 0)" "w_state two_nodes"
      "try_clients\<lparr>ts_start := Some (0, 0)\<rparr>"]
  by (simp add: two_nodes_def try_next_def try_clients_def)

end
