(* ===== verification/NamespacedCache.thy ===== *)
theory NamespacedCache
  imports Prelude
begin

text \<open>
  The generic namespaced cache, from \<^verbatim>\<open>server/src/namespaced_cache.rs\<close>: values with a timestamp in one
  file per key below one directory per namespace. The blocking and the asynchronous methods run
  the same code, so both are modelled by one definition. Parameters are the pattern
  \<^verbatim>\<open>SAFE_ID_REGEX\<close> of the schema crate (with \<open>safe_id_spec\<close>), the codec of \<^verbatim>\<open>serde_json\<close> (with
  \<open>codec_ok\<close>) and the clock. File contents are an opaque type \<open>'c\<close>; \<open>ns_faults\<close> says which of the
  coming file system calls fail, and a failing call changes nothing. Locking is a call that may
  fail; a namespace handle exists only while its lock is held.
\<close>

datatype ns_error = NsIo | Serde | InvalidKey str | InvalidNamespace str

record 'v cache_entry =
  ce_timestamp :: int
  ce_value :: 'v

record ('v, 'c) entry_codec =
  to_entry :: "'v cache_entry \<Rightarrow> 'c option"
  from_entry :: "'c \<Rightarrow> 'v cache_entry option"

definition codec_ok :: "('v, 'c) entry_codec \<Rightarrow> bool" where
  "codec_ok C \<longleftrightarrow> (\<forall>e c. to_entry C e = Some c \<longrightarrow> from_entry C c = Some e)"

record 'c ns_fs =
  ns_files :: "str \<rightharpoonup> 'c"
  ns_faults :: "bool list"

type_synonym ('c, 'a) ns_io = "(ns_error, 'c ns_fs, 'a) io"

definition ns_sys :: "('c ns_fs \<Rightarrow> 'a) \<Rightarrow> ('c ns_fs \<Rightarrow> 'c ns_fs) \<Rightarrow> ('c, 'a) ns_io" where
  "ns_sys r w s =
     (case ns_faults s of
        True # fs \<Rightarrow> (Inl NsIo, s\<lparr>ns_faults := fs\<rparr>)
      | False # fs \<Rightarrow> (Inr (r (s\<lparr>ns_faults := fs\<rparr>)), w (s\<lparr>ns_faults := fs\<rparr>))
      | [] \<Rightarrow> (Inr (r s), w s))"

section \<open>Paths\<close>

text \<open>\<^verbatim>\<open>Path::join\<close>: an absolute second path replaces the first.\<close>

definition path_join :: "str \<Rightarrow> str \<Rightarrow> str" where
  "path_join base p =
     (if starts_with ''/'' p \<or> base = [] then p
      else if last base = CHR ''/'' then base @ p else base @ ''/'' @ p)"

definition get_path :: "str \<Rightarrow> str \<Rightarrow> str \<Rightarrow> str" where
  "get_path base namespace key = path_join (path_join base namespace) (key @ ''.json'')"

definition get_lockfile :: "str \<Rightarrow> str \<Rightarrow> str" where
  "get_lockfile base namespace = path_join base (''.'' @ namespace @ ''.lock'')"

definition ensure_valid_key :: "(str \<Rightarrow> bool) \<Rightarrow> str \<Rightarrow> ('c, unit) ns_io" where
  "ensure_valid_key safe_id key = (if safe_id key then io_return () else io_fail (InvalidKey key))"

definition ensure_valid_namespace :: "(str \<Rightarrow> bool) \<Rightarrow> str \<Rightarrow> ('c, unit) ns_io" where
  "ensure_valid_namespace safe_id namespace =
     (if safe_id namespace then io_return () else io_fail (InvalidNamespace namespace))"

section \<open>Handles\<close>

record ns_handle =
  nh_namespace :: str
  nh_base :: str

definition lock_namespace :: "str \<Rightarrow> str \<Rightarrow> ('c, unit) ns_io" where
  "lock_namespace base namespace = ns_sys (\<lambda>_. ()) (\<lambda>s. s)"

definition cache_write :: "(str \<Rightarrow> bool) \<Rightarrow> str \<Rightarrow> str \<Rightarrow> ('c, ns_handle) ns_io" where
  "cache_write safe_id base namespace =
     io_bind (ensure_valid_namespace safe_id namespace) (\<lambda>_. io_bind (lock_namespace base namespace)
       (\<lambda>_. io_return \<lparr>nh_namespace = namespace, nh_base = base\<rparr>))"

definition cache_read :: "(str \<Rightarrow> bool) \<Rightarrow> str \<Rightarrow> str \<Rightarrow> ('c, ns_handle) ns_io" where
  "cache_read safe_id base namespace =
     io_bind (ensure_valid_namespace safe_id namespace) (\<lambda>_. io_bind (lock_namespace base namespace)
       (\<lambda>_. io_return \<lparr>nh_namespace = namespace, nh_base = base\<rparr>))"

section \<open>Reading and writing\<close>

definition is_expired :: "'v cache_entry \<Rightarrow> int \<Rightarrow> int \<Rightarrow> bool" where
  "is_expired e now max_age =
     (if max_age = 0 then True
      else let diff = wrap64 (now - ce_timestamp e) in max_age \<le> diff \<or> diff < 0)"

definition get_from_path ::
  "('v, 'c) entry_codec \<Rightarrow> int \<Rightarrow> str \<Rightarrow> int option \<Rightarrow> ('c, 'v cache_entry option) ns_io" where
  "get_from_path C now path max_age =
     io_bind (ns_sys (\<lambda>s. ns_files s path) (\<lambda>s. s))
       (\<lambda>content. case content of
          None \<Rightarrow> io_return None
        | Some c \<Rightarrow>
            (case from_entry C c of
               None \<Rightarrow> io_fail Serde
             | Some e \<Rightarrow>
                 (case max_age of
                    Some age \<Rightarrow> io_return (if is_expired e now age then None else Some e)
                  | None \<Rightarrow> io_return (Some e))))"

definition get_impl ::
  "(str \<Rightarrow> bool) \<Rightarrow> ('v, 'c) entry_codec \<Rightarrow> int \<Rightarrow> ns_handle \<Rightarrow> str \<Rightarrow> int option \<Rightarrow> ('c, 'v option) ns_io" where
  "get_impl safe_id C now h key max_age =
     io_bind (ensure_valid_key safe_id key)
       (\<lambda>_. if max_age = Some 0 then io_return None
            else io_bind (get_from_path C now (get_path (nh_base h) (nh_namespace h) key) max_age)
                   (\<lambda>e. io_return (map_option ce_value e)))"

definition set_at_path :: "('v, 'c) entry_codec \<Rightarrow> str \<Rightarrow> 'v \<Rightarrow> int \<Rightarrow> ('c, unit) ns_io" where
  "set_at_path C path value timestamp =
     io_bind (ns_sys (\<lambda>_. ()) (\<lambda>s. s))
       (\<lambda>_. case to_entry C \<lparr>ce_timestamp = timestamp, ce_value = value\<rparr> of
              None \<Rightarrow> io_fail Serde
            | Some data \<Rightarrow> ns_sys (\<lambda>_. ()) (\<lambda>s. s\<lparr>ns_files := (ns_files s)(path \<mapsto> data)\<rparr>))"

definition set_impl ::
  "(str \<Rightarrow> bool) \<Rightarrow> ('v, 'c) entry_codec \<Rightarrow> ns_handle \<Rightarrow> str \<Rightarrow> 'v \<Rightarrow> int \<Rightarrow> ('c, unit) ns_io" where
  "set_impl safe_id C h key value timestamp =
     io_bind (ensure_valid_key safe_id key)
       (\<lambda>_. set_at_path C (get_path (nh_base h) (nh_namespace h) key) value timestamp)"

definition set_if_newer_impl ::
  "(str \<Rightarrow> bool) \<Rightarrow> ('v, 'c) entry_codec \<Rightarrow> ns_handle \<Rightarrow> str \<Rightarrow> 'v \<Rightarrow> int \<Rightarrow> ('c, 'v option) ns_io" where
  "set_if_newer_impl safe_id C h key value timestamp =
     io_bind (ensure_valid_key safe_id key)
       (\<lambda>_. let path = get_path (nh_base h) (nh_namespace h) key;
                write = io_bind (set_at_path C path value timestamp) (\<lambda>_. io_return None)
            in io_bind (io_try (get_from_path C 0 path None))
                 (\<lambda>r. case r of
                        Inr (Some existing) \<Rightarrow>
                          if timestamp < ce_timestamp existing then io_return (Some (ce_value existing))
                          else write
                      | Inr None \<Rightarrow> write
                      | Inl Serde \<Rightarrow> write
                      | Inl err \<Rightarrow> io_fail err))"

definition remove_impl :: "(str \<Rightarrow> bool) \<Rightarrow> ns_handle \<Rightarrow> str \<Rightarrow> ('c, unit) ns_io" where
  "remove_impl safe_id h key =
     io_bind (ensure_valid_key safe_id key)
       (\<lambda>_. ns_sys (\<lambda>_. ()) (\<lambda>s. s\<lparr>ns_files := (ns_files s)(get_path (nh_base h) (nh_namespace h) key := None)\<rparr>))"

section \<open>The methods of a namespace\<close>

definition ns_get :: "(str \<Rightarrow> bool) \<Rightarrow> ('v, 'c) entry_codec \<Rightarrow> int \<Rightarrow> ns_handle \<Rightarrow> str \<Rightarrow> ('c, 'v option) ns_io" where
  "ns_get safe_id C now h key = get_impl safe_id C now h key None"

definition ns_get_with_max_age ::
  "(str \<Rightarrow> bool) \<Rightarrow> ('v, 'c) entry_codec \<Rightarrow> int \<Rightarrow> ns_handle \<Rightarrow> str \<Rightarrow> int \<Rightarrow> ('c, 'v option) ns_io" where
  "ns_get_with_max_age safe_id C now h key max_age = get_impl safe_id C now h key (Some max_age)"

definition ns_set :: "(str \<Rightarrow> bool) \<Rightarrow> ('v, 'c) entry_codec \<Rightarrow> int \<Rightarrow> ns_handle \<Rightarrow> str \<Rightarrow> 'v \<Rightarrow> ('c, unit) ns_io" where
  "ns_set safe_id C now h key value = set_impl safe_id C h key value now"

definition ns_set_with_timestamp ::
  "(str \<Rightarrow> bool) \<Rightarrow> ('v, 'c) entry_codec \<Rightarrow> ns_handle \<Rightarrow> str \<Rightarrow> 'v \<Rightarrow> int \<Rightarrow> ('c, unit) ns_io" where
  "ns_set_with_timestamp safe_id C h key value timestamp = set_impl safe_id C h key value timestamp"

definition ns_set_if_newer ::
  "(str \<Rightarrow> bool) \<Rightarrow> ('v, 'c) entry_codec \<Rightarrow> int \<Rightarrow> ns_handle \<Rightarrow> str \<Rightarrow> 'v \<Rightarrow> ('c, 'v option) ns_io" where
  "ns_set_if_newer safe_id C now h key value = set_if_newer_impl safe_id C h key value now"

definition ns_set_if_newer_with_timestamp ::
  "(str \<Rightarrow> bool) \<Rightarrow> ('v, 'c) entry_codec \<Rightarrow> ns_handle \<Rightarrow> str \<Rightarrow> 'v \<Rightarrow> int \<Rightarrow> ('c, 'v option) ns_io" where
  "ns_set_if_newer_with_timestamp safe_id C h key value timestamp =
     set_if_newer_impl safe_id C h key value timestamp"

definition ns_remove :: "(str \<Rightarrow> bool) \<Rightarrow> ns_handle \<Rightarrow> str \<Rightarrow> ('c, unit) ns_io" where
  "ns_remove safe_id h key = remove_impl safe_id h key"

section \<open>Paths of safe names\<close>

definition path_prefix :: "str \<Rightarrow> str" where
  "path_prefix base = (if base = [] \<or> last base = CHR ''/'' then base else base @ ''/'')"

lemma slash_unsafe: "safe_id_spec safe \<Longrightarrow> safe s \<Longrightarrow> CHR ''/'' \<notin> set s"
  using safe_id_chars [of safe s "CHR ''/''"] by auto

lemma path_join_relative: "p \<noteq> [] \<Longrightarrow> CHR ''/'' \<notin> set p \<Longrightarrow> path_join base p = path_prefix base @ p"
  by (cases p) (auto simp: path_join_def path_prefix_def starts_with_def)

lemma get_path_safe:
  assumes "safe_id_spec safe" and "safe ns" and "safe key"
  shows "get_path base ns key = path_prefix base @ ns @ CHR ''/'' # key @ ''.json''"
proof -
  have ns: "ns \<noteq> []" "CHR ''/'' \<notin> set ns"
    using assms by (auto dest: safe_id_nonempty slash_unsafe)
  then have "path_prefix (path_prefix base @ ns) = path_prefix base @ ns @ ''/''"
    by (auto simp: path_prefix_def [of "_ @ _"] dest: last_in_set)
  moreover have "key @ ''.json'' \<noteq> []" "CHR ''/'' \<notin> set (key @ ''.json'')"
    using slash_unsafe [OF assms(1,3)] by auto
  ultimately show ?thesis
    using ns by (simp add: get_path_def path_join_relative)
qed

lemma get_path_inj:
  assumes "safe_id_spec safe" and "safe ns" and "safe key" and "safe ns'" and "safe key'"
    and "get_path base ns key = get_path base ns' key'"
  shows "ns = ns' \<and> key = key'"
proof -
  have eq: "ns @ CHR ''/'' # key @ ''.json'' = ns' @ CHR ''/'' # key' @ ''.json''"
    using assms(6) by (simp add: get_path_safe [OF assms(1-3)] get_path_safe [OF assms(1,4,5)])
  have one: "split_once (CHR ''/'') (ns @ CHR ''/'' # key @ ''.json'') = Some (ns, key @ ''.json'')"
    by (rule split_once_append) (rule slash_unsafe [OF assms(1,2)])
  have "split_once (CHR ''/'') (ns' @ CHR ''/'' # key' @ ''.json'') = Some (ns', key' @ ''.json'')"
    by (rule split_once_append) (rule slash_unsafe [OF assms(1,4)])
  with one [unfolded eq] have "Some (ns, key @ ''.json'') = Some (ns', key' @ ''.json'')"
    by (rule trans [OF sym])
  then show ?thesis by simp
qed

lemma get_lockfile_safe:
  assumes "safe_id_spec safe" and "safe ns"
  shows "get_lockfile base ns = path_prefix base @ ''.'' @ ns @ ''.lock''"
  using slash_unsafe [OF assms] by (simp add: get_lockfile_def path_join_relative)

section \<open>Timestamped stores\<close>

text \<open>
  What a client of the cache relies on: a store of timestamped values in which writing one valid
  key changes exactly that key. \<open>put_if_newer\<close> is the specification of \<^verbatim>\<open>set_if_newer\<close>.
\<close>

locale timestamped_store =
  fixes lookup :: "'s \<Rightarrow> 'k \<Rightarrow> 'v cache_entry option"
    and store :: "'k \<Rightarrow> 'v cache_entry \<Rightarrow> 's \<Rightarrow> 's"
    and valid :: "'k \<Rightarrow> bool"
  assumes lookup_store: "valid k \<Longrightarrow> valid k' \<Longrightarrow> lookup (store k e s) k' = (if k' = k then Some e else lookup s k')"
begin

definition put_if_newer :: "'k \<Rightarrow> 'v cache_entry \<Rightarrow> 's \<Rightarrow> 's" where
  "put_if_newer k e s =
     (case lookup s k of
        Some old \<Rightarrow> if ce_timestamp e < ce_timestamp old then s else store k e s
      | None \<Rightarrow> store k e s)"

lemma lookup_put_if_newer_other:
  "valid k \<Longrightarrow> valid k' \<Longrightarrow> k' \<noteq> k \<Longrightarrow> lookup (put_if_newer k e s) k' = lookup s k'"
  by (auto simp: put_if_newer_def lookup_store split: option.splits)

lemma lookup_put_if_newer:
  assumes "valid k"
  shows "\<exists>e'. lookup (put_if_newer k e s) k = Some e' \<and> (e' = e \<or> lookup s k = Some e') \<and>
              ce_timestamp e \<le> ce_timestamp e' \<and>
              (\<forall>old. lookup s k = Some old \<longrightarrow> ce_timestamp old \<le> ce_timestamp e')"
  using assms by (auto simp: put_if_newer_def lookup_store split: option.splits)

text \<open>After any sequence of conditional writes to a key it holds an entry with the largest
  timestamp that was ever offered.\<close>

lemma fold_put_if_newer:
  assumes "valid k" and "es \<noteq> [] \<or> lookup s k \<noteq> None"
  shows "\<exists>e. lookup (fold (put_if_newer k) es s) k = Some e \<and>
             (e \<in> set es \<or> lookup s k = Some e) \<and> (\<forall>e' \<in> set es. ce_timestamp e' \<le> ce_timestamp e) \<and>
             (\<forall>old. lookup s k = Some old \<longrightarrow> ce_timestamp old \<le> ce_timestamp e)"
  using assms(2)
proof (induction es arbitrary: s)
  case (Cons e es)
  obtain e1 where e1: "lookup (put_if_newer k e s) k = Some e1" "e1 = e \<or> lookup s k = Some e1"
    "ce_timestamp e \<le> ce_timestamp e1" "\<forall>old. lookup s k = Some old \<longrightarrow> ce_timestamp old \<le> ce_timestamp e1"
    using lookup_put_if_newer [OF assms(1), of e s] by blast
  with Cons.IH [of "put_if_newer k e s"] obtain e2 where
    "lookup (fold (put_if_newer k) es (put_if_newer k e s)) k = Some e2"
    "e2 \<in> set es \<or> e1 = e2" "\<forall>e' \<in> set es. ce_timestamp e' \<le> ce_timestamp e2"
    "ce_timestamp e1 \<le> ce_timestamp e2" by fastforce
  with e1 show ?case by (intro exI [of _ e2]) force
qed auto

end

definition total_codec :: "('v, 'c) entry_codec \<Rightarrow> bool" where
  "total_codec C \<longleftrightarrow> (\<forall>e. \<exists>c. to_entry C e = Some c \<and> from_entry C c = Some e)"

text \<open>The cache as such a store: the readable entry of a key, and the effect of replacing its file.\<close>

definition entry_at :: "('v, 'c) entry_codec \<Rightarrow> str \<Rightarrow> 'c ns_fs \<Rightarrow> str \<times> str \<Rightarrow> 'v cache_entry option" where
  "entry_at C base s k = Option.bind (ns_files s (get_path base (fst k) (snd k))) (from_entry C)"

definition put_entry :: "('v, 'c) entry_codec \<Rightarrow> str \<Rightarrow> str \<times> str \<Rightarrow> 'v cache_entry \<Rightarrow> 'c ns_fs \<Rightarrow> 'c ns_fs" where
  "put_entry C base k e s =
     (case to_entry C e of
        None \<Rightarrow> s
      | Some c \<Rightarrow> s\<lparr>ns_files := (ns_files s)(get_path base (fst k) (snd k) \<mapsto> c)\<rparr>)"

definition usable :: "(str \<Rightarrow> bool) \<Rightarrow> ('v, 'c) entry_codec \<Rightarrow> str \<times> str \<Rightarrow> bool" where
  "usable safe_id C k \<longleftrightarrow> safe_id_spec safe_id \<and> total_codec C \<and> safe_id (fst k) \<and> safe_id (snd k)"

interpretation ns_store: timestamped_store "entry_at C base" "put_entry C base" "usable safe_id C"
  for C :: "('v, 'c) entry_codec" and base and safe_id
proof
  fix k k' :: "str \<times> str" and e :: "'v cache_entry" and s :: "'c ns_fs"
  assume k: "usable safe_id C k" and k': "usable safe_id C k'"
  from k obtain c where c: "to_entry C e = Some c" "from_entry C c = Some e"
    by (auto simp: usable_def total_codec_def)
  have "get_path base (fst k') (snd k') = get_path base (fst k) (snd k) \<longleftrightarrow> k' = k"
    using k k' get_path_inj [of safe_id "fst k'" "snd k'" "fst k" "snd k" base]
    by (auto simp: usable_def prod_eq_iff)
  with c show "entry_at C base (put_entry C base k e s) k' = (if k' = k then Some e else entry_at C base s k')"
    by (auto simp: entry_at_def put_entry_def)
qed

lemma ns_sys_ok: "ns_faults s = [] \<Longrightarrow> ns_sys r w s = (Inr (r s), w s)"
  by (simp add: ns_sys_def)

lemma ns_sys_cases:
  obtains fs where "ns_sys r w s = (Inl NsIo, s\<lparr>ns_faults := fs\<rparr>)"
  | fs where "ns_sys r w s = (Inr (r (s\<lparr>ns_faults := fs\<rparr>)), w (s\<lparr>ns_faults := fs\<rparr>))"
proof (cases "ns_faults s")
  case Nil
  then have "ns_sys r w s = (Inr (r (s\<lparr>ns_faults := []\<rparr>)), w (s\<lparr>ns_faults := []\<rparr>))"
    by (cases s) (simp add: ns_sys_def)
  then show ?thesis by (rule that(2))
next
  case (Cons f fs)
  then show ?thesis using that by (cases f) (auto simp: ns_sys_def)
qed

lemma entry_at_faults [simp]: "entry_at C base (s\<lparr>ns_faults := fs\<rparr>) = entry_at C base s"
  by (simp add: entry_at_def fun_eq_iff)

text \<open>A conditional write without failing calls is the specification.\<close>

lemma set_if_newer_refines:
  assumes "usable safe_id C (nh_namespace h, key)" and "ns_faults s = []"
  shows "set_if_newer_impl safe_id C h key value timestamp s =
           (Inr (case entry_at C (nh_base h) s (nh_namespace h, key) of
                   Some old \<Rightarrow> if timestamp < ce_timestamp old then Some (ce_value old) else None
                 | None \<Rightarrow> None),
            ns_store.put_if_newer C (nh_base h) (nh_namespace h, key)
              \<lparr>ce_timestamp = timestamp, ce_value = value\<rparr> s)"
proof -
  let ?e = "\<lparr>ce_timestamp = timestamp, ce_value = value\<rparr>"
  from assms(1) obtain c where c: "to_entry C ?e = Some c" by (auto simp: usable_def total_codec_def)
  have safe: "safe_id key" using assms(1) by (simp add: usable_def)
  have put: "io_bind (set_at_path C (get_path (nh_base h) (nh_namespace h) key) value timestamp)
      (\<lambda>_. io_return None) s = (Inr None, put_entry C (nh_base h) (nh_namespace h, key) ?e s)"
    using c by (simp add: set_at_path_def io_bind_def ns_sys_ok [OF assms(2)] io_return_def put_entry_def)
  show ?thesis
    using put
    by (auto simp: set_if_newer_impl_def ensure_valid_key_def safe Let_def io_try_def get_from_path_def
        ns_sys_ok [OF assms(2)] io_bind_def io_return_def io_fail_def entry_at_def ns_store.put_if_newer_def
        split: option.splits)
qed

section \<open>Writing under failures\<close>

lemma set_at_path_cases:
  "set_at_path C path value timestamp s = (r, s') \<Longrightarrow>
   (\<exists>e. r = Inl e \<and> ns_files s' = ns_files s) \<or>
   (\<exists>c. r = Inr () \<and> to_entry C \<lparr>ce_timestamp = timestamp, ce_value = value\<rparr> = Some c \<and>
        ns_files s' = (ns_files s)(path \<mapsto> c))"
  by (cases rule: ns_sys_cases [of "\<lambda>_. ()" "\<lambda>s. s" s])
    (auto simp: set_at_path_def io_bind_def io_fail_def ns_sys_def split: option.splits list.splits bool.splits)

lemma get_from_path_cases:
  "get_from_path C now path None s = (r, s') \<Longrightarrow>
   ns_files s' = ns_files s \<and>
   (r = Inl NsIo \<or>
    r = (case ns_files s path of
           None \<Rightarrow> Inr None
         | Some c \<Rightarrow> (case from_entry C c of None \<Rightarrow> Inl Serde | Some e \<Rightarrow> Inr (Some e))))"
  by (cases rule: ns_sys_cases [of "\<lambda>s. ns_files s path" "\<lambda>s. s" s])
    (auto simp: get_from_path_def io_bind_def io_fail_def io_return_def split: option.splits)

lemma put_then_None_cases:
  assumes "io_bind (set_at_path C path value timestamp) (\<lambda>_. io_return None) s = (r, s')"
  shows "(\<exists>e. r = Inl e \<and> ns_files s' = ns_files s) \<or>
         (\<exists>c. r = Inr None \<and> to_entry C \<lparr>ce_timestamp = timestamp, ce_value = value\<rparr> = Some c \<and>
              ns_files s' = (ns_files s)(path \<mapsto> c))"
proof (cases "set_at_path C path value timestamp s")
  case (Pair q s1)
  from set_at_path_cases [OF Pair] show ?thesis
  proof
    assume "\<exists>e. q = Inl e \<and> ns_files s1 = ns_files s"
    with Pair assms show ?thesis by (auto simp: io_bind_def)
  next
    assume "\<exists>c. q = Inr () \<and> to_entry C \<lparr>ce_timestamp = timestamp, ce_value = value\<rparr> = Some c \<and>
        ns_files s1 = (ns_files s)(path \<mapsto> c)"
    with Pair assms show ?thesis by (auto simp: io_bind_def io_return_def)
  qed
qed

text \<open>The outcomes of a conditional write: an error, a newer entry that stays, or the new entry.\<close>

lemma set_if_newer_cases [consumes 2, case_names error kept written]:
  assumes safe: "safe_id key"
    and run: "set_if_newer_impl safe_id C h key value timestamp s = (result, s')"
  obtains err where "result = Inl err" "ns_files s' = ns_files s"
  | e where "entry_at C (nh_base h) s (nh_namespace h, key) = Some e" "timestamp < ce_timestamp e"
      "result = Inr (Some (ce_value e))" "ns_files s' = ns_files s"
  | c where "result = Inr None"
      "\<And>e. entry_at C (nh_base h) s (nh_namespace h, key) = Some e \<Longrightarrow> ce_timestamp e \<le> timestamp"
      "to_entry C \<lparr>ce_timestamp = timestamp, ce_value = value\<rparr> = Some c"
      "ns_files s' = (ns_files s)(get_path (nh_base h) (nh_namespace h) key \<mapsto> c)"
proof -
  let ?path = "get_path (nh_base h) (nh_namespace h) key"
  let ?put = "io_bind (set_at_path C ?path value timestamp) (\<lambda>_. io_return None)"
  obtain r s1 where get: "get_from_path C 0 ?path None s = (r, s1)"
    by (cases "get_from_path C 0 ?path None s")
  have s1: "ns_files s1 = ns_files s" using get_from_path_cases [OF get] by simp
  have run': "(case r of
      Inr (Some e) \<Rightarrow> if timestamp < ce_timestamp e then io_return (Some (ce_value e)) else ?put
    | Inr None \<Rightarrow> ?put | Inl Serde \<Rightarrow> ?put | Inl err \<Rightarrow> io_fail err) s1 = (result, s')"
    using run by (simp add: set_if_newer_impl_def ensure_valid_key_def safe Let_def io_bind_def [of "io_return ()"]
        io_return_def [of "()"] io_bind_def [of "io_try _"] io_try_def get)
  have put: thesis if "?put s1 = (result, s')"
    "\<And>e. entry_at C (nh_base h) s (nh_namespace h, key) = Some e \<Longrightarrow> ce_timestamp e \<le> timestamp"
    using put_then_None_cases [OF that(1)] s1 that(2) \<open>\<And>err. \<lbrakk>result = Inl err; ns_files s' = ns_files s\<rbrakk> \<Longrightarrow> thesis\<close>
      \<open>\<And>c. \<lbrakk>result = Inr None; \<And>e. entry_at C (nh_base h) s (nh_namespace h, key) = Some e \<Longrightarrow> ce_timestamp e \<le> timestamp;
        to_entry C \<lparr>ce_timestamp = timestamp, ce_value = value\<rparr> = Some c; ns_files s' = (ns_files s)(?path \<mapsto> c)\<rbrakk> \<Longrightarrow> thesis\<close>
    by auto
  have entry: "entry_at C (nh_base h) s (nh_namespace h, key) = Option.bind (ns_files s ?path) (from_entry C)"
    by (simp add: entry_at_def)
  from get_from_path_cases [OF get]
  consider "r = Inl NsIo" | "r = Inr None" "entry_at C (nh_base h) s (nh_namespace h, key) = None"
    | "r = Inl Serde" "entry_at C (nh_base h) s (nh_namespace h, key) = None"
    | e where "r = Inr (Some e)" "entry_at C (nh_base h) s (nh_namespace h, key) = Some e"
    unfolding entry by (auto split: option.splits)
  then show thesis
  proof cases
    case 1
    with run' s1 show thesis by (auto simp: io_fail_def intro: that(1))
  next
    case 2
    with run' show thesis by (intro put) simp_all
  next
    case 3
    with run' show thesis by (intro put) simp_all
  next
    case (4 e)
    show thesis
    proof (cases "timestamp < ce_timestamp e")
      case True
      with 4 run' s1 show thesis by (intro that(2) [of e]) (simp_all add: io_return_def)
    next
      case False
      with 4 run' show thesis by (intro put) simp_all
    qed
  qed
qed

section \<open>Properties\<close>

text \<open>
  C24. Path safety: for identifiers accepted by the pattern, the file of a key lies directly in the
  directory of its namespace directly below the base directory, different keys have different
  files, and no key's file is the lock file of a namespace.
\<close>

theorem cache_paths_safe:
  assumes "safe_id_spec safe_id" and "safe_id ns" and "safe_id key" and "safe_id ns'" and "safe_id key'"
  shows "get_path base ns key = path_prefix base @ ns @ ''/'' @ key @ ''.json'' \<and>
         CHR ''/'' \<notin> set ns \<and> CHR ''/'' \<notin> set key \<and> ns \<noteq> ''.'' \<and> ns \<noteq> ''..'' \<and>
         (get_path base ns key = get_path base ns' key' \<longrightarrow> ns = ns' \<and> key = key') \<and>
         get_path base ns key \<noteq> get_lockfile base ns'"
proof -
  have dots: "ns \<noteq> ''.''" "ns \<noteq> ''..''"
    using assms(1,2) by (auto simp: safe_id_spec_def ascii_safe_id_def is_ascii_alnum_def is_ascii_digit_def)
  have "CHR ''/'' \<in> set (ns @ CHR ''/'' # key @ ''.json'')" by simp
  moreover have "CHR ''/'' \<notin> set (''.'' @ ns' @ ''.lock'')"
    using slash_unsafe [OF assms(1,4)] by simp
  ultimately have "ns @ CHR ''/'' # key @ ''.json'' \<noteq> ''.'' @ ns' @ ''.lock''" by metis
  then have lock: "get_path base ns key \<noteq> get_lockfile base ns'"
    by (simp add: get_path_safe [OF assms(1-3)] get_lockfile_safe [OF assms(1,4)])
  show ?thesis
    using dots lock get_path_inj [OF assms] slash_unsafe [OF assms(1,2)] slash_unsafe [OF assms(1,3)]
    by (auto simp: get_path_safe [OF assms(1-3)])
qed

theorem cache_paths_safe_witness:
  "get_path ''/var/cache'' ''remote-a'' ''val1'' = ''/var/cache/remote-a/val1.json'' \<and>
   get_path ''/var/cache'' ''remote-a'' ''val1'' \<noteq> get_lockfile ''/var/cache'' ''remote-a''"
proof -
  have "ascii_safe_id ''remote-a''" "ascii_safe_id ''val1''" by code_simp+
  note safe = cache_paths_safe [OF safe_id_spec_ascii this this, of "''/var/cache''"]
  have "path_prefix ''/var/cache'' @ ''remote-a'' @ ''/'' @ ''val1'' @ ''.json'' = ''/var/cache/remote-a/val1.json''"
    by code_simp
  with safe show ?thesis by metis
qed

text \<open>
  C23. Setting a value and reading it back, when no call fails: the value is returned, by
  \<^verbatim>\<open>get_with_max_age\<close> exactly when its age is at least zero and less than the given maximum (never for
  0), and every other valid key of every namespace reads as before.
\<close>

theorem set_then_get:
  assumes "usable safe_id C (nh_namespace h, key)" and "ns_faults s = []"
    and "in_i64 (now - timestamp)"
  shows "\<exists>s'. ns_set_with_timestamp safe_id C h key value timestamp s = (Inr (), s') \<and>
           ns_get safe_id C now h key s' = (Inr (Some value), s') \<and>
           ns_get_with_max_age safe_id C now h key max_age s' =
             (Inr (if max_age \<noteq> 0 \<and> 0 \<le> now - timestamp \<and> now - timestamp < max_age
                   then Some value else None), s') \<and>
           (\<forall>k. usable safe_id C k \<longrightarrow> k \<noteq> (nh_namespace h, key) \<longrightarrow>
              entry_at C (nh_base h) s' k = entry_at C (nh_base h) s k)"
proof -
  let ?e = "\<lparr>ce_timestamp = timestamp, ce_value = value\<rparr>"
  let ?s = "put_entry C (nh_base h) (nh_namespace h, key) ?e s"
  from assms(1) obtain c where c: "to_entry C ?e = Some c" "from_entry C c = Some ?e"
    by (auto simp: usable_def total_codec_def)
  have safe: "safe_id key" using assms(1) by (simp add: usable_def)
  have no: "ns_faults ?s = []" using assms(2) c by (simp add: put_entry_def)
  have content: "ns_files ?s (get_path (nh_base h) (nh_namespace h) key) = Some c" using c by (simp add: put_entry_def)
  have set: "ns_set_with_timestamp safe_id C h key value timestamp s = (Inr (), ?s)"
    using c by (simp add: ns_set_with_timestamp_def set_impl_def ensure_valid_key_def safe io_bind_def
        io_return_def set_at_path_def ns_sys_ok [OF assms(2)] put_entry_def)
  have get: "ns_get safe_id C now h key ?s = (Inr (Some value), ?s)"
    using c content by (simp add: ns_get_def get_impl_def ensure_valid_key_def safe io_bind_def io_return_def
        get_from_path_def ns_sys_ok [OF no])
  have age: "ns_get_with_max_age safe_id C now h key max_age ?s =
      (Inr (if max_age \<noteq> 0 \<and> 0 \<le> now - timestamp \<and> now - timestamp < max_age then Some value else None), ?s)"
    using c content assms(3) by (auto simp: ns_get_with_max_age_def get_impl_def ensure_valid_key_def safe io_bind_def
        io_return_def get_from_path_def ns_sys_ok [OF no] is_expired_def Let_def)
  have other: "entry_at C (nh_base h) ?s k = entry_at C (nh_base h) s k"
    if "usable safe_id C k" "k \<noteq> (nh_namespace h, key)" for k
    using ns_store.lookup_store [OF assms(1) that(1), of "nh_base h" ?e s] that(2) by simp
  show ?thesis using set get age other by blast
qed

definition id_codec :: "('v, 'v cache_entry) entry_codec" where
  "id_codec = \<lparr>to_entry = Some, from_entry = Some\<rparr>"

lemma usable_id_codec: "ascii_safe_id ns \<Longrightarrow> ascii_safe_id key \<Longrightarrow> usable ascii_safe_id id_codec (ns, key)"
  by (simp add: usable_def total_codec_def id_codec_def)

definition empty_ns_fs :: "int cache_entry ns_fs" where
  "empty_ns_fs = \<lparr>ns_files = Map.empty, ns_faults = []\<rparr>"

definition sample_handle :: ns_handle where
  "sample_handle = \<lparr>nh_namespace = ''remote-a'', nh_base = ''/cache''\<rparr>"

lemma usable_sample: "usable ascii_safe_id (id_codec :: (int, int cache_entry) entry_codec) (nh_namespace sample_handle, ''val1'')"
proof -
  have "ascii_safe_id ''remote-a''" "ascii_safe_id ''val1''" by code_simp+
  then show ?thesis unfolding sample_handle_def by (simp add: usable_id_codec)
qed

theorem set_then_get_witness:
  "\<exists>s'. ns_set_with_timestamp ascii_safe_id id_codec sample_handle ''val1'' (7 :: int) 100 empty_ns_fs = (Inr (), s') \<and>
        fst (ns_get_with_max_age ascii_safe_id id_codec 105 sample_handle ''val1'' 10 s') = Inr (Some 7)"
proof -
  have no: "ns_faults empty_ns_fs = []" by (simp add: empty_ns_fs_def)
  have i: "in_i64 (105 - 100)" by (simp add: in_i64_def)
  from set_then_get [OF usable_sample no i, of 7 10] show ?thesis by auto
qed



text \<open>
  A sequence of conditional writes to a key, when no call fails, leaves an entry with the
  largest timestamp offered (or already present).
\<close>

theorem set_if_newer_sequence_max:
  assumes ok: "usable safe_id C (nh_namespace h, key)" and "ns_faults s = []" and "es \<noteq> []"
  shows "\<exists>e. entry_at C (nh_base h)
               (fold (\<lambda>e s. snd (ns_set_if_newer_with_timestamp safe_id C h key (ce_value e) (ce_timestamp e) s)) es s)
               (nh_namespace h, key) = Some e \<and>
             (e \<in> set es \<or> entry_at C (nh_base h) s (nh_namespace h, key) = Some e) \<and>
             (\<forall>e' \<in> set es. ce_timestamp e' \<le> ce_timestamp e)"
proof -
  let ?k = "(nh_namespace h, key)"
  let ?put = "ns_store.put_if_newer C (nh_base h) ?k"
  have faults: "ns_faults (?put e s) = ns_faults s" for e s
    by (auto simp: ns_store.put_if_newer_def put_entry_def split: option.splits)
  have step: "snd (ns_set_if_newer_with_timestamp safe_id C h key (ce_value e) (ce_timestamp e) s) = ?put e s"
    if "ns_faults s = []" for e s
    using set_if_newer_refines [OF ok that, of "ce_value e" "ce_timestamp e"]
    by (cases e) (simp add: ns_set_if_newer_with_timestamp_def)
  have "fold (\<lambda>e s. snd (ns_set_if_newer_with_timestamp safe_id C h key (ce_value e) (ce_timestamp e) s)) es s = fold ?put es s"
    using assms(2)
  proof (induction es arbitrary: s)
    case (Cons e es)
    then show ?case by (simp add: step faults)
  qed simp
  with ns_store.fold_put_if_newer [OF ok, of es "nh_base h" s] assms(3) show ?thesis by fastforce
qed

theorem set_if_newer_sequence_max_witness:
  "\<exists>e. entry_at id_codec (nh_base sample_handle)
         (fold (\<lambda>e s. snd (ns_set_if_newer_with_timestamp ascii_safe_id id_codec sample_handle ''val1'' (ce_value e) (ce_timestamp e) s))
            [\<lparr>ce_timestamp = 5, ce_value = 1 :: int\<rparr>, \<lparr>ce_timestamp = 3, ce_value = 2\<rparr>] empty_ns_fs)
         (nh_namespace sample_handle, ''val1'') = Some e \<and> 5 \<le> ce_timestamp e"
proof -
  have no: "ns_faults empty_ns_fs = []" by (simp add: empty_ns_fs_def)
  from set_if_newer_sequence_max [OF usable_sample no, of "[\<lparr>ce_timestamp = 5, ce_value = 1\<rparr>, \<lparr>ce_timestamp = 3, ce_value = 2\<rparr>]"]
  show ?thesis by auto
qed

end
