(* ===== verification/Search.thy ===== *)
theory Search
  imports Prelude
begin

text \<open>
  The search expressions of \<^verbatim>\<open>src/lib/pdm-search/src/lib.rs\<close>: terms with an optional category, parsing
  from and printing to text, and matching. A predicate given to \<^verbatim>\<open>Search::matches\<close> is an \<^verbatim>\<open>FnMut\<close>, so
  besides \<open>search_matches\<close> there is \<open>search_matches_mut\<close>, which threads the state the predicate
  changes and evaluates it on exactly the terms that the short-circuiting iterators of the source visit.
\<close>

section \<open>Splitting at white space\<close>

text \<open>
  \<^verbatim>\<open>str::split_whitespace\<close> on UTF-8 text: \<open>ws_len\<close> is the number of bytes of the white space character
  at the front (the characters with the Unicode property White\_Space), 0 if there is none.
\<close>

fun ws_bytes :: "nat list \<Rightarrow> nat" where
  "ws_bytes [] = 0"
| "ws_bytes (a # r) =
     (if 9 \<le> a \<and> a \<le> 13 \<or> a = 32 then 1
      else case r of
        [] \<Rightarrow> 0
      | b # r' \<Rightarrow>
          if a = 194 \<and> (b = 133 \<or> b = 160) then 2
          else case r' of
            [] \<Rightarrow> 0
          | c # _ \<Rightarrow>
              if a = 225 \<and> b = 154 \<and> c = 128 \<or>
                 a = 226 \<and> b = 128 \<and> (128 \<le> c \<and> c \<le> 138 \<or> c = 168 \<or> c = 169 \<or> c = 175) \<or>
                 a = 226 \<and> b = 129 \<and> c = 159 \<or>
                 a = 227 \<and> b = 128 \<and> c = 128
              then 3 else 0)"

definition ws_len :: "str \<Rightarrow> nat" where
  "ws_len s = ws_bytes (map of_char s)"

definition flush :: "str \<Rightarrow> str list" where
  "flush acc = (if acc = [] then [] else [acc])"

function split_ws :: "str \<Rightarrow> str \<Rightarrow> str list" where
  "split_ws acc [] = flush acc"
| "split_ws acc (c # s) =
     (if ws_len (c # s) = 0 then split_ws (acc @ [c]) s
      else flush acc @ split_ws [] (drop (ws_len (c # s) - 1) s))"
  by pat_completeness auto
termination by (relation "measure (\<lambda>(acc, s). length s)") auto

definition split_whitespace :: "str \<Rightarrow> str list" where
  "split_whitespace s = split_ws [] s"

section \<open>Terms\<close>

record SearchTerm =
  st_optional :: bool
  st_value :: str
  st_category :: "str option"

definition search_term_new :: "str \<Rightarrow> SearchTerm" where
  "search_term_new term = \<lparr>st_optional = False, st_value = term, st_category = None\<rparr>"

definition with_category :: "str option \<Rightarrow> SearchTerm \<Rightarrow> SearchTerm" where
  "with_category category t = t\<lparr>st_category := category\<rparr>"

definition with_optional :: "bool \<Rightarrow> SearchTerm \<Rightarrow> SearchTerm" where
  "with_optional optional t = t\<lparr>st_optional := optional\<rparr>"

definition term_from :: "str \<Rightarrow> SearchTerm" where
  "term_from value =
     (let (term, optional) =
            (case strip_prefix ''+'' value of
               Some rest \<Rightarrow> if rest = [] then (value, True) else (rest, False)
             | None \<Rightarrow> (value, True));
          (term, category) =
            (case split_once CHR '':'' term of
               Some (category, new_term) \<Rightarrow>
                 if category = [] \<or> new_term = [] then (term, None) else (new_term, Some category)
             | None \<Rightarrow> (term, None))
      in with_category category (with_optional optional (search_term_new term)))"

definition show_term :: "SearchTerm \<Rightarrow> str" where
  "show_term t =
     (if st_optional t then [] else ''+'') @
     (case st_category t of Some cat \<Rightarrow> cat @ '':'' | None \<Rightarrow> []) @ st_value t"

section \<open>Searches\<close>

record Search =
  required_terms :: "SearchTerm list"
  optional_terms :: "SearchTerm list"

definition with_terms :: "SearchTerm list \<Rightarrow> Search" where
  "with_terms terms =
     \<lparr>required_terms = filter (\<lambda>t. \<not> st_optional t) terms, optional_terms = filter st_optional terms\<rparr>"

definition search_new :: Search where
  "search_new = with_terms []"

definition search_from :: "str \<Rightarrow> Search" where
  "search_from value = with_terms (map term_from (split_whitespace value))"

definition search_is_empty :: "Search \<Rightarrow> bool" where
  "search_is_empty S \<longleftrightarrow> required_terms S = [] \<and> optional_terms S = []"

text \<open>\<^verbatim>\<open>iter().map(m).any(|f| !f)\<close> and \<^verbatim>\<open>iter().map(m).all(|f| !f)\<close>.\<close>

fun any_not :: "('t \<Rightarrow> 's \<Rightarrow> bool \<times> 's) \<Rightarrow> 't list \<Rightarrow> 's \<Rightarrow> bool \<times> 's" where
  "any_not m [] s = (False, s)"
| "any_not m (t # ts) s = (case m t s of (f, s') \<Rightarrow> if f then any_not m ts s' else (True, s'))"

fun all_not :: "('t \<Rightarrow> 's \<Rightarrow> bool \<times> 's) \<Rightarrow> 't list \<Rightarrow> 's \<Rightarrow> bool \<times> 's" where
  "all_not m [] s = (True, s)"
| "all_not m (t # ts) s = (case m t s of (f, s') \<Rightarrow> if f then (False, s') else all_not m ts s')"

definition search_matches_mut :: "(SearchTerm \<Rightarrow> 's \<Rightarrow> bool \<times> 's) \<Rightarrow> Search \<Rightarrow> 's \<Rightarrow> bool \<times> 's" where
  "search_matches_mut m S s =
     (if search_is_empty S then (True, s)
      else case any_not m (required_terms S) s of
        (True, s') \<Rightarrow> (False, s')
      | (False, s') \<Rightarrow>
          if optional_terms S = [] then (True, s')
          else case all_not m (optional_terms S) s' of (none, s'') \<Rightarrow> (\<not> none, s''))"

definition search_matches :: "(SearchTerm \<Rightarrow> bool) \<Rightarrow> Search \<Rightarrow> bool" where
  "search_matches f S = fst (search_matches_mut (\<lambda>t s. (f t, s)) S ())"

definition add_term :: "SearchTerm \<Rightarrow> Search \<Rightarrow> Search" where
  "add_term t S =
     (if st_optional t then S\<lparr>optional_terms := optional_terms S @ [t]\<rparr>
      else S\<lparr>required_terms := required_terms S @ [t]\<rparr>)"

fun show_terms :: "str \<Rightarrow> SearchTerm list \<Rightarrow> str" where
  "show_terms sep [] = []"
| "show_terms sep (t # ts) = sep @ show_term t @ show_terms '' '' ts"

definition show_search :: "Search \<Rightarrow> str" where
  "show_search S = show_terms [] (required_terms S @ optional_terms S)"

section \<open>Matching\<close>

lemma any_not_pure: "any_not (\<lambda>t s. (f t, s)) ts s = (\<exists>t \<in> set ts. \<not> f t, s)"
  by (induction ts) auto

lemma all_not_pure: "all_not (\<lambda>t s. (f t, s)) ts s = (\<forall>t \<in> set ts. \<not> f t, s)"
  by (induction ts) auto

lemma search_matches_iff:
  "search_matches f S \<longleftrightarrow>
     (\<forall>t \<in> set (required_terms S). f t) \<and> (optional_terms S = [] \<or> (\<exists>t \<in> set (optional_terms S). f t))"
  by (auto simp: search_matches_def search_matches_mut_def any_not_pure all_not_pure search_is_empty_def
      split: bool.splits)

lemma search_matches_mono:
  "(\<And>t. f t \<Longrightarrow> g t) \<Longrightarrow> search_matches f S \<Longrightarrow> search_matches g S"
  by (auto simp: search_matches_iff)

text \<open>A predicate that accepts every required and rejects every optional term visits all of them.\<close>

lemma any_not_accept:
  "(\<And>t s. t \<in> set ts \<Longrightarrow> fst (m t s)) \<Longrightarrow> any_not m ts s = (False, fold (\<lambda>t s. snd (m t s)) ts s)"
proof (induction ts arbitrary: s)
  case (Cons t ts)
  then have "fst (m t s)" by simp
  with Cons show ?case by (cases "m t s") simp
qed simp

lemma all_not_reject:
  "(\<And>t s. t \<in> set ts \<Longrightarrow> \<not> fst (m t s)) \<Longrightarrow> all_not m ts s = (True, fold (\<lambda>t s. snd (m t s)) ts s)"
proof (induction ts arbitrary: s)
  case (Cons t ts)
  then have "\<not> fst (m t s)" by simp
  with Cons show ?case by (cases "m t s") simp
qed simp

lemma search_visits_all:
  assumes "\<And>t s. t \<in> set (required_terms S) \<Longrightarrow> fst (m t s)"
    and "\<And>t s. t \<in> set (optional_terms S) \<Longrightarrow> \<not> fst (m t s)"
  shows "snd (search_matches_mut m S s) = fold (\<lambda>t s. snd (m t s)) (required_terms S @ optional_terms S) s"
  using any_not_accept [of "required_terms S" m, OF assms(1)] all_not_reject [of "optional_terms S" m, OF assms(2)]
  by (simp add: search_matches_mut_def search_is_empty_def)

section \<open>Printing and parsing\<close>

lemma show_term_from: "show_term (term_from t) = t"
  by (auto simp: term_from_def show_term_def with_category_def with_optional_def search_term_new_def
      strip_prefix_Some split_once_Some split: option.splits prod.splits)

definition token :: "str \<Rightarrow> bool" where
  "token t \<longleftrightarrow> t \<noteq> [] \<and> (\<forall>i < length t. ws_len (drop i t) = 0)"

lemma ws_bytes_append: "ws_bytes t \<noteq> 0 \<Longrightarrow> ws_bytes (t @ r) \<noteq> 0"
  by (cases t rule: ws_bytes.cases) (auto split: list.splits if_splits simp: Cons_eq_append_conv)

lemma ws_len_append: "ws_len (t @ r) = 0 \<Longrightarrow> ws_len t = 0"
  using ws_bytes_append [of "map of_char t" "map of_char r"] by (auto simp: ws_len_def)

lemma ws_bytes_space: "ws_bytes t = 0 \<Longrightarrow> t \<noteq> [] \<Longrightarrow> ws_bytes (t @ 32 # r) = 0"
  by (cases t rule: ws_bytes.cases) (auto split: list.splits if_splits simp: Cons_eq_append_conv append_eq_Cons_conv)

lemma ws_len_space: "ws_len t = 0 \<Longrightarrow> t \<noteq> [] \<Longrightarrow> ws_len (t @ CHR '' '' # r) = 0"
  using ws_bytes_space [of "map of_char t" "map of_char r"] by (simp add: ws_len_def)

lemma ws_len_at_space: "ws_len (CHR '' '' # r) = 1"
  by (simp add: ws_len_def)

lemma split_ws_tokens:
  assumes "\<forall>i < length acc. ws_len (drop i (acc @ s)) = 0" and "t \<in> set (split_ws acc s)"
  shows "token t"
  using assms
proof (induction acc s rule: split_ws.induct)
  case (1 acc)
  then show ?case by (auto simp: flush_def token_def split: if_splits)
next
  case (2 acc c s)
  show ?case
  proof (cases "ws_len (c # s) = 0")
    case True
    have "\<forall>i < length (acc @ [c]). ws_len (drop i ((acc @ [c]) @ s)) = 0"
      using "2.prems"(1) True by (auto simp: less_Suc_eq)
    moreover have "t \<in> set (split_ws (acc @ [c]) s)" using "2.prems"(2) True by simp
    ultimately show ?thesis using True by (intro "2.IH"(1)) simp_all
  next
    case False
    then consider "t \<in> set (flush acc)" | "t \<in> set (split_ws [] (drop (ws_len (c # s) - 1) s))"
      using "2.prems"(2) by auto
    then show ?thesis
    proof cases
      case 1
      then have t: "t = acc" "acc \<noteq> []" by (auto simp: flush_def split: if_splits)
      have "ws_len (drop i acc) = 0" if "i < length acc" for i
        using "2.prems"(1) that ws_len_append [of "drop i acc" "c # s"] by simp
      with t show ?thesis by (simp add: token_def)
    next
      case 2
      with False "2.IH"(2) show ?thesis by simp
    qed
  qed
qed

lemma split_ws_token_step:
  assumes "\<forall>i < length t. ws_len (drop i t @ r) = 0"
  shows "split_ws acc (t @ r) = split_ws (acc @ t) r"
  using assms
proof (induction t arbitrary: acc)
  case (Cons c t)
  from Cons.prems have "ws_len (c # t @ r) = 0" by (metis append_Cons drop0 length_greater_0_conv list.discI)
  moreover have "\<forall>i < length t. ws_len (drop i t @ r) = 0" using Cons.prems by fastforce
  ultimately show ?case using Cons.IH [of "acc @ [c]"] by simp
qed simp

lemma split_ws_joined:
  assumes "token t"
  shows "split_ws [] t = [t]" and "split_ws [] (t @ CHR '' '' # r) = t # split_ws [] r"
proof -
  have nil: "\<forall>i < length t. ws_len (drop i t @ []) = 0" using assms by (simp add: token_def)
  show "split_ws [] t = [t]"
    using split_ws_token_step [OF nil, of "[]"] assms by (simp add: flush_def token_def)
  have sp: "\<forall>i < length t. ws_len (drop i t @ CHR '' '' # r) = 0"
    using assms by (auto simp: token_def intro!: ws_len_space)
  show "split_ws [] (t @ CHR '' '' # r) = t # split_ws [] r"
    using split_ws_token_step [OF sp, of "[]"] assms by (simp add: flush_def token_def ws_len_at_space)
qed

lemma split_show_terms:
  assumes "\<forall>t \<in> set ts. token (show_term t)"
  shows "split_ws [] (show_terms [] ts) = map show_term ts"
    and "ts \<noteq> [] \<Longrightarrow> split_ws [] (tl (show_terms '' '' ts)) = map show_term ts"
proof -
  have tl: "split_ws [] (tl (show_terms '' '' ts)) = map show_term ts" if "ts \<noteq> []"
    using assms that
  proof (induction ts)
    case (Cons t ts)
    have t: "token (show_term t)" using Cons.prems by simp
    show ?case
    proof (cases ts)
      case Nil
      with t show ?thesis by (simp add: split_ws_joined)
    next
      case (Cons u us)
      then have ne: "ts \<noteq> []" by simp
      have "show_terms '' '' ts = CHR '' '' # tl (show_terms '' '' ts)" using Cons by simp
      then have "split_ws [] (tl (show_terms '' '' (t # ts))) = show_term t # split_ws [] (tl (show_terms '' '' ts))"
        using split_ws_joined(2) [OF t] by (metis append_Cons append_Nil list.sel(3) show_terms.simps(2))
      with Cons.IH ne Cons.prems show ?thesis by simp
    qed
  qed simp
  then show "ts \<noteq> [] \<Longrightarrow> split_ws [] (tl (show_terms '' '' ts)) = map show_term ts" .
  show "split_ws [] (show_terms [] ts) = map show_term ts"
    using tl by (cases ts) (simp_all add: flush_def)
qed

section \<open>Properties\<close>

text \<open>
  C35. Printing a search and parsing the text gives the same search, for every search that was
  entered as text; and every term prints as the text it came from.
\<close>

theorem search_print_parse:
  "search_from (show_search (search_from input)) = search_from input \<and> show_term (term_from word) = word"
proof -
  let ?S = "search_from input"
  let ?ts = "required_terms ?S @ optional_terms ?S"
  have parsed: "term_from (show_term t) = t \<and> token (show_term t)" if "t \<in> set ?ts" for t
  proof -
    from that obtain w where "w \<in> set (split_ws [] input)" "t = term_from w"
      by (auto simp: search_from_def with_terms_def split_whitespace_def)
    then show ?thesis using split_ws_tokens [of "[]" input w] by (simp add: show_term_from)
  qed
  then have "split_whitespace (show_search ?S) = map show_term ?ts"
    using split_show_terms(1) [of ?ts] by (simp add: show_search_def split_whitespace_def)
  moreover have "map term_from (map show_term ?ts) = ?ts" using parsed by (simp add: map_idI)
  ultimately have "search_from (show_search ?S) = with_terms ?ts" by (simp only: search_from_def)
  also have "with_terms ?ts = ?S" by (simp add: search_from_def with_terms_def)
  finally show ?thesis by (simp add: show_term_from)
qed

text \<open>
  What a search means: it matches iff every required term matches and, if there are optional
  terms, at least one of those does. Adding a term to a search is the search of all its terms, and
  a required term can only narrow it.
\<close>

theorem search_meaning:
  "(search_matches f (with_terms ts) \<longleftrightarrow>
      (\<forall>t \<in> set ts. st_optional t \<or> f t) \<and> ((\<exists>t \<in> set ts. st_optional t) \<longrightarrow> (\<exists>t \<in> set ts. st_optional t \<and> f t))) \<and>
   add_term t (with_terms ts) = with_terms (ts @ [t]) \<and>
   (\<not> st_optional t \<longrightarrow> search_matches f (add_term t S) = (f t \<and> search_matches f S))"
  by (auto simp: search_matches_iff with_terms_def add_term_def filter_empty_conv)

theorem search_meaning_witness:
  "search_matches (\<lambda>t. st_value t = ''web'') (search_from ''+web db'') = False \<and>
   search_matches (\<lambda>t. st_value t = ''web'') (add_term (term_from ''+web'') (search_from ''web db'')) = True"
proof -
  have split: "split_whitespace ''+web db'' = [''+web'', ''db'']" "split_whitespace ''web db'' = [''web'', ''db'']"
    by code_simp+
  have terms: "st_optional (term_from ''web'')" "\<not> st_optional (term_from ''+web'')" "st_optional (term_from ''db'')"
    "st_value (term_from ''web'') = ''web''" "st_value (term_from ''+web'') = ''web''" "st_value (term_from ''db'') = ''db''"
    by code_simp+
  show ?thesis
    using search_meaning [of "\<lambda>t. st_value t = ''web''" "[term_from ''+web'', term_from ''db'']"
          "term_from ''+web''" "search_from ''web db''"]
      search_meaning [of "\<lambda>t. st_value t = ''web''" "[term_from ''web'', term_from ''db'']"
          "term_from ''+web''" "search_from ''web db''"]
    by (simp add: search_from_def split terms)
qed

end
