(* ===== verification/Resources.thy ===== *)
theory Resources
  imports RemoteUpid "HOL-Library.Word"
begin

text \<open>
  The resources of remotes, from \<^verbatim>\<open>lib/pdm-api-types/src/resource.rs\<close>: the records of guests, nodes,
  storages, networks and datastores, their ids, names, status and properties.

  A floating point number is its IEEE 754 bit pattern. Text of \<^verbatim>\<open>ClusterResourceNetworkType\<close>, an enum
  of the crate \<^verbatim>\<open>pve_api_types\<close>, is a parameter of the definitions that print it.
\<close>

section \<open>Floating point comparison\<close>

type_synonym u64 = "64 word"
type_synonym u32 = "32 word"
type_synonym f64 = "64 word"

definition f64_magnitude :: "f64 \<Rightarrow> int" where
  "f64_magnitude x = uint x mod 2 ^ 63"

definition f64_is_nan :: "f64 \<Rightarrow> bool" where
  "f64_is_nan x \<longleftrightarrow> f64_magnitude x > 0x7FF0000000000000"

definition f64_order :: "f64 \<Rightarrow> int" where
  "f64_order x = (if uint x < 2 ^ 63 then f64_magnitude x else - f64_magnitude x)"

definition f64_gt :: "f64 \<Rightarrow> f64 \<Rightarrow> bool" where
  "f64_gt x y \<longleftrightarrow> \<not> f64_is_nan x \<and> \<not> f64_is_nan y \<and> f64_order x > f64_order y"

text \<open>The bits of 0.80.\<close>

definition PBS_DATASTORE_HIGH_USAGE_THRESHOLD :: f64 where
  "PBS_DATASTORE_HIGH_USAGE_THRESHOLD = 0x3FE999999999999A"

section \<open>Resource records\<close>

record PveQemuResource =
  qemu_cpu :: f64
  qemu_maxcpu :: f64
  qemu_disk :: u64
  qemu_maxdisk :: u64
  qemu_id :: str
  qemu_maxmem :: u64
  qemu_mem :: u64
  qemu_name :: str
  qemu_node :: str
  qemu_pool :: str
  qemu_status :: str
  qemu_tags :: "str list"
  qemu_template :: bool
  qemu_uptime :: u64
  qemu_vmid :: u32

record PveLxcResource =
  lxc_cpu :: f64
  lxc_maxcpu :: f64
  lxc_disk :: u64
  lxc_maxdisk :: u64
  lxc_id :: str
  lxc_maxmem :: u64
  lxc_mem :: u64
  lxc_name :: str
  lxc_node :: str
  lxc_pool :: str
  lxc_status :: str
  lxc_tags :: "str list"
  lxc_template :: bool
  lxc_uptime :: u64
  lxc_vmid :: u32

record PveNodeResource =
  node_cgroup_mode :: int
  node_cpu :: f64
  node_maxcpu :: f64
  node_id :: str
  node_maxmem :: u64
  node_mem :: u64
  node_node :: str
  node_uptime :: u64
  node_status :: str
  node_level :: str

record PveStorageResource =
  storage_disk :: u64
  storage_maxdisk :: u64
  storage_id :: str
  storage_storage :: str
  storage_node :: str
  storage_status :: str
  storage_shared :: bool

datatype SdnStatus = SdnAvailable | SdnError | SdnPending | SdnUnknown

definition sdn_status_from_str :: "str \<Rightarrow> SdnStatus" where
  "sdn_status_from_str value =
     (if value = ''ok'' \<or> value = ''available'' then SdnAvailable
      else if value = ''pending'' then SdnPending
      else if value = ''error'' then SdnError
      else SdnUnknown)"

fun sdn_status_as_str :: "SdnStatus \<Rightarrow> str" where
  "sdn_status_as_str SdnAvailable = ''available''"
| "sdn_status_as_str SdnError = ''error''"
| "sdn_status_as_str SdnPending = ''pending''"
| "sdn_status_as_str SdnUnknown = ''unknown''"

record NetworkZoneResource =
  zone_id :: str
  zone_node :: str
  zone_network :: str
  zone_status :: SdnStatus
  zone_zone_type :: str
  zone_legacy :: bool

record NetworkFabricResource =
  fabric_id :: str
  fabric_node :: str
  fabric_network :: str
  fabric_status :: SdnStatus
  fabric_protocol :: str

datatype PveNetworkResource = Fabric NetworkFabricResource | Zone NetworkZoneResource

record PbsNodeResource =
  pbsnode_cpu :: f64
  pbsnode_maxcpu :: f64
  pbsnode_id :: str
  pbsnode_mem :: u64
  pbsnode_maxmem :: u64
  pbsnode_name :: str
  pbsnode_uptime :: u64

record PbsDatastoreResource =
  ds_id :: str
  ds_maxdisk :: u64
  ds_disk :: u64
  ds_name :: str
  ds_usage :: f64
  ds_maintenance :: "str option"
  ds_backing_device :: "str option"
  ds_backend_type :: "str option"

datatype Resource =
    PveStorage PveStorageResource
  | PveQemu PveQemuResource
  | PveLxc PveLxcResource
  | PveNode PveNodeResource
  | PveNetwork PveNetworkResource
  | PbsNode PbsNodeResource
  | PbsDatastore PbsDatastoreResource

datatype ResourceType = RtPveStorage | RtPveQemu | RtPveLxc | RtPveNetwork | RtPbsDatastore | RtNode

text \<open>\<^verbatim>\<open>ClusterResourceNetworkType\<close> of the crate \<^verbatim>\<open>pve_api_types\<close>, with a constructor for values it does not know.\<close>

datatype NetworkType = NetworkZone | NetworkFabric | UnknownNetworkType str

section \<open>Networks\<close>

fun network_id :: "PveNetworkResource \<Rightarrow> str" where
  "network_id (Zone z) = zone_id z"
| "network_id (Fabric f) = fabric_id f"

fun network_name :: "PveNetworkResource \<Rightarrow> str" where
  "network_name (Zone z) = zone_network z"
| "network_name (Fabric f) = fabric_network f"

fun network_node :: "PveNetworkResource \<Rightarrow> str" where
  "network_node (Zone z) = zone_node z"
| "network_node (Fabric f) = fabric_node f"

fun network_status :: "PveNetworkResource \<Rightarrow> str" where
  "network_status (Zone z) = sdn_status_as_str (zone_status z)"
| "network_status (Fabric f) = sdn_status_as_str (fabric_status f)"

fun network_type :: "PveNetworkResource \<Rightarrow> NetworkType" where
  "network_type (Zone z) = NetworkZone"
| "network_type (Fabric f) = NetworkFabric"

section \<open>Resources\<close>

definition show_u32 :: "u32 \<Rightarrow> str" where
  "show_u32 n = show_nat (unat n)"

fun resource_id :: "(NetworkType \<Rightarrow> str) \<Rightarrow> Resource \<Rightarrow> str" where
  "resource_id nt (PveStorage r) = ''storage/'' @ storage_node r @ ''/'' @ storage_storage r"
| "resource_id nt (PveQemu r) = ''qemu/'' @ show_u32 (qemu_vmid r)"
| "resource_id nt (PveLxc r) = ''lxc/'' @ show_u32 (lxc_vmid r)"
| "resource_id nt (PveNode r) = ''node/'' @ node_node r"
| "resource_id nt (PveNetwork r) =
     (case r of
        Zone z \<Rightarrow>
          if zone_legacy z then ''sdn/'' @ network_node r @ ''/'' @ network_name r
          else ''network/'' @ network_node r @ ''/'' @ nt (network_type r) @ ''/'' @ network_name r
      | Fabric f \<Rightarrow> ''network/'' @ network_node r @ ''/'' @ nt (network_type r) @ ''/'' @ network_name r)"
| "resource_id nt (PbsNode r) = ''node/'' @ pbsnode_name r"
| "resource_id nt (PbsDatastore r) = ds_name r"

fun global_id :: "Resource \<Rightarrow> str" where
  "global_id (PveStorage r) = storage_id r"
| "global_id (PveQemu r) = qemu_id r"
| "global_id (PveLxc r) = lxc_id r"
| "global_id (PveNode r) = node_id r"
| "global_id (PveNetwork r) = network_id r"
| "global_id (PbsNode r) = pbsnode_id r"
| "global_id (PbsDatastore r) = ds_id r"

fun resource_name :: "Resource \<Rightarrow> str" where
  "resource_name (PveStorage r) = storage_storage r"
| "resource_name (PveQemu r) = qemu_name r"
| "resource_name (PveLxc r) = lxc_name r"
| "resource_name (PveNode r) = node_node r"
| "resource_name (PveNetwork r) = network_name r"
| "resource_name (PbsNode r) = pbsnode_name r"
| "resource_name (PbsDatastore r) = ds_name r"

fun resource_type :: "Resource \<Rightarrow> ResourceType" where
  "resource_type (PveStorage r) = RtPveStorage"
| "resource_type (PveQemu r) = RtPveQemu"
| "resource_type (PveLxc r) = RtPveLxc"
| "resource_type (PveNetwork r) = RtPveNetwork"
| "resource_type (PveNode r) = RtNode"
| "resource_type (PbsNode r) = RtNode"
| "resource_type (PbsDatastore r) = RtPbsDatastore"

fun resource_status :: "Resource \<Rightarrow> str" where
  "resource_status (PveStorage r) = storage_status r"
| "resource_status (PveQemu r) = qemu_status r"
| "resource_status (PveLxc r) = lxc_status r"
| "resource_status (PveNode r) = node_status r"
| "resource_status (PveNetwork r) = network_status r"
| "resource_status (PbsNode r) = (if pbsnode_uptime r > 0 then ''online'' else ''offline'')"
| "resource_status (PbsDatastore r) = (if ds_maintenance r = None then ''online'' else ''under-maintenance'')"

text \<open>\<^verbatim>\<open>slice::join\<close> with a one character separator.\<close>

fun join_with :: "char \<Rightarrow> str list \<Rightarrow> str" where
  "join_with c [] = []"
| "join_with c [x] = x"
| "join_with c (x # xs) = x @ c # join_with c xs"

text \<open>\<^verbatim>\<open>str::split\<close> at a character.\<close>

fun split_char :: "char \<Rightarrow> str \<Rightarrow> str list" where
  "split_char c [] = [[]]"
| "split_char c (x # xs) =
     (if x = c then [] # split_char c xs
      else case split_char c xs of y # ys \<Rightarrow> (x # y) # ys | [] \<Rightarrow> [[x]])"

fun property_list :: "Resource \<Rightarrow> str list" where
  "property_list (PbsDatastore r) =
     (case ds_backend_type r of Some t \<Rightarrow> [t] | None \<Rightarrow> []) @
     (if ds_backing_device r \<noteq> None then [''removable''] else []) @
     (if f64_gt (ds_usage r) PBS_DATASTORE_HIGH_USAGE_THRESHOLD then [''high-usage''] else [])"
| "property_list _ = []"

definition properties :: "Resource \<Rightarrow> str" where
  "properties r = join_with (CHR '','') (property_list r)"

fun resource_type_as_str :: "ResourceType \<Rightarrow> str" where
  "resource_type_as_str RtPveStorage = ''storage''"
| "resource_type_as_str RtPveQemu = ''qemu''"
| "resource_type_as_str RtPveLxc = ''lxc''"
| "resource_type_as_str RtPveNetwork = ''network''"
| "resource_type_as_str RtPbsDatastore = ''datastore''"
| "resource_type_as_str RtNode = ''node''"

definition resource_type_from_str :: "str \<Rightarrow> ResourceType option" where
  "resource_type_from_str s =
     (if s = ''storage'' then Some RtPveStorage
      else if s = ''qemu'' then Some RtPveQemu
      else if s = ''lxc'' then Some RtPveLxc
      else if s = ''network'' then Some RtPveNetwork
      else if s = ''datastore'' then Some RtPbsDatastore
      else if s = ''node'' then Some RtNode
      else None)"

section \<open>Lemmas\<close>

lemma split_char_nonempty [simp]: "split_char c s \<noteq> []"
  by (cases s) (auto split: list.splits)

lemma split_char_no_sep: "c \<notin> set s \<Longrightarrow> split_char c s = [s]"
  by (induction s) auto

lemma split_char_append: "c \<notin> set x \<Longrightarrow> split_char c (x @ c # s) = x # split_char c s"
  by (induction x) auto

lemma split_join:
  assumes "xs \<noteq> []" and "\<forall>x \<in> set xs. c \<notin> set x"
  shows "split_char c (join_with c xs) = xs"
  using assms by (induction c xs rule: join_with.induct) (auto simp: split_char_no_sep split_char_append)

lemma resource_type_from_as_str [simp]: "resource_type_from_str (resource_type_as_str t) = Some t"
  by (cases t) (simp_all add: resource_type_from_str_def)

lemma resource_type_from_str_Some: "resource_type_from_str s = Some t \<longleftrightarrow> s = resource_type_as_str t"
  by (cases t) (auto simp: resource_type_from_str_def split: if_splits)

lemma sdn_status_roundtrip [simp]: "sdn_status_from_str (sdn_status_as_str s) = s"
  by (cases s) (simp_all add: sdn_status_from_str_def)

text \<open>Comparison of bit patterns is the order of numbers: total apart from NaN, and false on NaN.\<close>

lemma f64_gt_nan: "f64_is_nan x \<or> f64_is_nan y \<Longrightarrow> \<not> f64_gt x y"
  by (auto simp: f64_gt_def)

lemma f64_gt_irrefl: "\<not> f64_gt x x"
  by (simp add: f64_gt_def)

lemma f64_gt_trans: "f64_gt x y \<Longrightarrow> f64_gt y z \<Longrightarrow> f64_gt x z"
  by (auto simp: f64_gt_def)

end
