(* ===== verification/Views.thy ===== *)
theory Views
  imports Resources
begin

text \<open>
  Views: named include and exclude rules that select resources. \<^verbatim>\<open>lib/pdm-api-types/src/views.rs\<close> has the
  rules with their text form and the dashboard layout, \<^verbatim>\<open>server/src/views/mod.rs\<close> evaluates them.

  The matcher of \<^verbatim>\<open>PROXMOX_SAFE_ID_REGEX\<close> and the check of \<^verbatim>\<open>REMOTE_ID_SCHEMA\<close>, both of the crate
  \<^verbatim>\<open>proxmox_schema\<close>, are parameters, bundled in \<open>rule_env\<close>.
\<close>

section \<open>Rules and their text form\<close>

datatype StringMatcher = Exact str

datatype 'a EnumMatcher = EnumMatcher 'a

datatype FilterRule =
    FResourceType "ResourceType EnumMatcher"
  | FResourcePool StringMatcher
  | FResourceId StringMatcher
  | FTag StringMatcher
  | FRemote StringMatcher

fun string_matches :: "StringMatcher \<Rightarrow> str \<Rightarrow> bool" where
  "string_matches (Exact v) value = (value = v)"

fun enum_matches :: "'a EnumMatcher \<Rightarrow> 'a \<Rightarrow> bool" where
  "enum_matches (EnumMatcher v) value = (v = value)"

record rule_env =
  re_safe_id :: "str \<Rightarrow> bool"
  re_remote_schema :: "str \<Rightarrow> bool"

text \<open>
  \<^verbatim>\<open>^ID(/ID)+$\<close> for the safe identifiers, which have no slash: at least two parts between slashes, all
  of them safe.
\<close>

definition global_resource_id :: "(str \<Rightarrow> bool) \<Rightarrow> str \<Rightarrow> bool" where
  "global_resource_id safe_id s \<longleftrightarrow>
     (let parts = split_char (CHR ''/'') s in length parts \<ge> 2 \<and> list_all safe_id parts)"

datatype rule_error =
    InvalidResourceType
  | InvalidPool str
  | InvalidResourceId str
  | InvalidTag str
  | InvalidRemote str
  | InvalidRuleType str
  | InvalidFilterRule str

definition parse_filter_rule :: "rule_env \<Rightarrow> str \<Rightarrow> rule_error + FilterRule" where
  "parse_filter_rule E s =
     (case split_once CHR ''='' s of
        Some (ty, value) \<Rightarrow>
          if ty = ''resource-type'' then
            (case resource_type_from_str value of
               Some t \<Rightarrow> Inr (FResourceType (EnumMatcher t))
             | None \<Rightarrow> Inl InvalidResourceType)
          else if ty = ''resource-pool'' then
            (if \<not> re_safe_id E value then Inl (InvalidPool value) else Inr (FResourcePool (Exact value)))
          else if ty = ''resource-id'' then
            (if \<not> global_resource_id (re_safe_id E) value then Inl (InvalidResourceId value)
             else Inr (FResourceId (Exact value)))
          else if ty = ''tag'' then
            (if \<not> re_safe_id E value then Inl (InvalidTag value) else Inr (FTag (Exact value)))
          else if ty = ''remote'' then
            (if \<not> re_safe_id E value \<and> \<not> re_remote_schema E value then Inl (InvalidRemote value)
             else Inr (FRemote (Exact value)))
          else Inl (InvalidRuleType ty)
      | None \<Rightarrow> Inl (InvalidFilterRule s))"

definition filter_rule_from_str :: "rule_env \<Rightarrow> str \<Rightarrow> rule_error + FilterRule" where
  "filter_rule_from_str E s =
     (case strip_prefix ''exact:'' s of
        Some s' \<Rightarrow> parse_filter_rule E s'
      | None \<Rightarrow> parse_filter_rule E s)"

fun show_filter_rule :: "FilterRule \<Rightarrow> str" where
  "show_filter_rule (FResourceType (EnumMatcher t)) = ''exact:resource-type='' @ resource_type_as_str t"
| "show_filter_rule (FResourceId (Exact v)) = ''exact:resource-id='' @ v"
| "show_filter_rule (FTag (Exact v)) = ''exact:tag='' @ v"
| "show_filter_rule (FRemote (Exact v)) = ''exact:remote='' @ v"
| "show_filter_rule (FResourcePool (Exact v)) = ''exact:resource-pool='' @ v"

definition verify_filter_rule :: "rule_env \<Rightarrow> str \<Rightarrow> rule_error + unit" where
  "verify_filter_rule E input = map_sum id (\<lambda>_. ()) (filter_rule_from_str E input)"

section \<open>Layouts\<close>

datatype GuestType = GuestQemu | GuestLxc

datatype NodeResourceType = NodeCpu | NodeMemory | NodeStorage

datatype LeaderboardType = LbGuestCpu | LbNodeCpu | LbNodeMemory

datatype TaskSummaryGrouping = GroupCategory | GroupRemote

text \<open>The remaining keys of an unknown widget are JSON values, kept as their text.\<close>

datatype WidgetType =
    Nodes "RemoteType option"
  | Guests "GuestType option"
  | PbsDatastores
  | Remotes bool
  | Subscription
  | Sdn
  | Leaderboard LeaderboardType
  | TaskSummary TaskSummaryGrouping
  | ResourceTree
  | NodeResourceGauge "NodeResourceType option" "RemoteType option"
  | MapWidget
  | UnknownWidget str "(str \<times> str) list"

record RowWidget =
  rw_flex :: "32 word option"
  rw_title :: "str option"
  rw_type :: WidgetType

datatype ViewLayout = Rows "RowWidget list list"

record ViewTemplate =
  vt_description :: str
  vt_layout :: ViewLayout

fun is_unknown_widget :: "RowWidget \<Rightarrow> bool" where
  "is_unknown_widget w = (case rw_type w of UnknownWidget _ _ \<Rightarrow> True | _ \<Rightarrow> False)"

fun has_unknown_widgets :: "ViewLayout \<Rightarrow> bool" where
  "has_unknown_widgets (Rows rows) = list_ex (list_ex is_unknown_widget) rows"

section \<open>Evaluation of views\<close>

record ViewConfig =
  view_id :: str
  view_include_all :: "bool option"
  view_include :: "FilterRule list"
  view_exclude :: "FilterRule list"
  view_layout :: str

record ResourceData =
  rd_type :: ResourceType
  rd_tags :: "str list option"
  rd_pool :: "str option"
  rd_id :: str

fun resource_data :: "Resource \<Rightarrow> ResourceData" where
  "resource_data (PveQemu r) =
     \<lparr>rd_type = resource_type (PveQemu r), rd_tags = Some (qemu_tags r), rd_pool = Some (qemu_pool r),
      rd_id = global_id (PveQemu r)\<rparr>"
| "resource_data (PveLxc r) =
     \<lparr>rd_type = resource_type (PveLxc r), rd_tags = Some (lxc_tags r), rd_pool = Some (lxc_pool r),
      rd_id = global_id (PveLxc r)\<rparr>"
| "resource_data value =
     \<lparr>rd_type = resource_type value, rd_tags = None, rd_pool = None, rd_id = global_id value\<rparr>"

definition rule_matches :: "str \<Rightarrow> ResourceData \<Rightarrow> FilterRule \<Rightarrow> bool" where
  "rule_matches remote resource rule =
     (case rule of
        FResourceType t \<Rightarrow> enum_matches t (rd_type resource)
      | FResourcePool pool \<Rightarrow>
          (case rd_pool resource of Some p \<Rightarrow> string_matches pool p | None \<Rightarrow> False)
      | FResourceId i \<Rightarrow> string_matches i (rd_id resource)
      | FTag tag \<Rightarrow>
          (case rd_tags resource of Some tags \<Rightarrow> list_ex (string_matches tag) tags | None \<Rightarrow> False)
      | FRemote r \<Rightarrow> string_matches r remote)"

definition check_rules :: "FilterRule list \<Rightarrow> str \<Rightarrow> ResourceData \<Rightarrow> bool" where
  "check_rules rules remote resource = list_ex (rule_matches remote resource) rules"

definition include_all :: "ViewConfig \<Rightarrow> bool" where
  "include_all v = (case view_include_all v of Some b \<Rightarrow> b | None \<Rightarrow> False)"

definition matches_remote_rule :: "str \<Rightarrow> FilterRule \<Rightarrow> bool" where
  "matches_remote_rule remote rule = (case rule of FRemote r \<Rightarrow> string_matches r remote | _ \<Rightarrow> False)"

definition check_if_included :: "ViewConfig \<Rightarrow> str \<Rightarrow> ResourceData \<Rightarrow> bool" where
  "check_if_included v remote resource = (if include_all v then True else check_rules (view_include v) remote resource)"

definition check_if_excluded :: "ViewConfig \<Rightarrow> str \<Rightarrow> ResourceData \<Rightarrow> bool" where
  "check_if_excluded v remote resource = check_rules (view_exclude v) remote resource"

definition view_resource_matches :: "ViewConfig \<Rightarrow> str \<Rightarrow> Resource \<Rightarrow> bool" where
  "view_resource_matches v remote resource =
     (check_if_included v remote (resource_data resource) \<and> \<not> check_if_excluded v remote (resource_data resource))"

fun only_other_remotes :: "str \<Rightarrow> FilterRule list \<Rightarrow> bool" where
  "only_other_remotes remote [] = True"
| "only_other_remotes remote (include # rest) =
     (case include of
        FRemote r \<Rightarrow> if string_matches r remote then False else only_other_remotes remote rest
      | _ \<Rightarrow> False)"

definition can_skip_remote :: "ViewConfig \<Rightarrow> str \<Rightarrow> bool" where
  "can_skip_remote v remote =
     (if list_ex (matches_remote_rule remote) (view_exclude v) then True
      else if include_all v then False
      else only_other_remotes remote (view_include v))"

definition is_remote_explicitly_included :: "ViewConfig \<Rightarrow> str \<Rightarrow> bool" where
  "is_remote_explicitly_included v remote =
     ((if include_all v then True else list_ex (matches_remote_rule remote) (view_include v)) \<and>
      \<not> list_ex (matches_remote_rule remote) (view_exclude v))"

definition node_data :: "str \<Rightarrow> str \<Rightarrow> ResourceData" where
  "node_data remote node =
     \<lparr>rd_type = RtNode, rd_tags = None, rd_pool = None, rd_id = ''remote/'' @ remote @ ''/node/'' @ node\<rparr>"

definition is_node_included :: "ViewConfig \<Rightarrow> str \<Rightarrow> str \<Rightarrow> bool" where
  "is_node_included v remote node =
     (check_if_included v remote (node_data remote node) \<and> \<not> check_if_excluded v remote (node_data remote node))"

section \<open>Lemmas\<close>

fun rule_ok :: "rule_env \<Rightarrow> FilterRule \<Rightarrow> bool" where
  "rule_ok E (FResourceType _) = True"
| "rule_ok E (FResourcePool (Exact v)) = re_safe_id E v"
| "rule_ok E (FResourceId (Exact v)) = global_resource_id (re_safe_id E) v"
| "rule_ok E (FTag (Exact v)) = re_safe_id E v"
| "rule_ok E (FRemote (Exact v)) = (re_safe_id E v \<or> re_remote_schema E v)"

definition rule_key :: "FilterRule \<Rightarrow> str" where
  "rule_key r =
     (case r of
        FResourceType _ \<Rightarrow> ''resource-type'' | FResourcePool _ \<Rightarrow> ''resource-pool'' | FResourceId _ \<Rightarrow> ''resource-id''
      | FTag _ \<Rightarrow> ''tag'' | FRemote _ \<Rightarrow> ''remote'')"

definition rule_value :: "FilterRule \<Rightarrow> str" where
  "rule_value r =
     (case r of
        FResourceType (EnumMatcher t) \<Rightarrow> resource_type_as_str t | FResourcePool (Exact v) \<Rightarrow> v
      | FResourceId (Exact v) \<Rightarrow> v | FTag (Exact v) \<Rightarrow> v | FRemote (Exact v) \<Rightarrow> v)"

lemma show_rule_eq: "show_filter_rule r = ''exact:'' @ rule_key r @ CHR ''='' # rule_value r"
  by (cases r rule: show_filter_rule.cases) (simp_all add: rule_key_def rule_value_def)

lemma rule_key_plain: "CHR ''='' \<notin> set (rule_key r)" "CHR '':'' \<notin> set (rule_key r)"
  by (cases r; simp add: rule_key_def)+

lemma parse_rule_iff:
  "parse_filter_rule E s = Inr r \<longleftrightarrow> rule_ok E r \<and> s = rule_key r @ CHR ''='' # rule_value r"
proof
  assume "parse_filter_rule E s = Inr r"
  then show "rule_ok E r \<and> s = rule_key r @ CHR ''='' # rule_value r"
    by (auto simp: parse_filter_rule_def split_once_Some resource_type_from_str_Some rule_key_def rule_value_def
        split: option.splits if_splits)
next
  assume r: "rule_ok E r \<and> s = rule_key r @ CHR ''='' # rule_value r"
  then have "split_once CHR ''='' s = Some (rule_key r, rule_value r)"
    by (simp add: split_once_append rule_key_plain)
  with r show "parse_filter_rule E s = Inr r"
    by (cases r rule: show_filter_rule.cases) (auto simp: parse_filter_rule_def rule_key_def rule_value_def)
qed

lemma strip_exact_key: "strip_prefix ''exact:'' (rule_key r @ CHR ''='' # v) = None"
  by (cases r) (simp_all add: rule_key_def strip_prefix_def)

lemma only_other_remotes_iff:
  "only_other_remotes remote rs \<longleftrightarrow> (\<forall>r \<in> set rs. \<exists>m. r = FRemote m \<and> \<not> string_matches m remote)"
  by (induction rs) (auto split: FilterRule.splits)

lemma rule_matches_remote: "matches_remote_rule remote rule \<Longrightarrow> rule_matches remote d rule"
  by (auto simp: matches_remote_rule_def rule_matches_def split: FilterRule.splits)

lemma can_skip_no_match:
  assumes "can_skip_remote v remote"
  shows "\<not> (check_if_included v remote d \<and> \<not> check_if_excluded v remote d)"
  using assms rule_matches_remote [of remote _ d]
  by (auto simp: can_skip_remote_def check_if_included_def check_if_excluded_def check_rules_def list_ex_iff
      only_other_remotes_iff rule_matches_def split: if_splits)

lemma can_skip_not_explicit: "can_skip_remote v remote \<Longrightarrow> \<not> is_remote_explicitly_included v remote"
  by (auto simp: can_skip_remote_def is_remote_explicitly_included_def list_ex_iff only_other_remotes_iff
      matches_remote_rule_def split: if_splits)

section \<open>Properties\<close>

text \<open>
  The text form of filter rules: a text is accepted as a rule exactly if the rule is valid and the
  text is its printed form, with or without the prefix \<^verbatim>\<open>exact:\<close>.
\<close>

theorem filter_rule_text:
  "filter_rule_from_str E s = Inr r \<longleftrightarrow>
     rule_ok E r \<and> (s = show_filter_rule r \<or> ''exact:'' @ s = show_filter_rule r)"
proof (cases "strip_prefix ''exact:'' s")
  case None
  then have "s \<noteq> ''exact:'' @ t" for t by (metis strip_prefix_append option.distinct(1))
  with None show ?thesis by (auto simp: filter_rule_from_str_def parse_rule_iff show_rule_eq)
next
  case (Some t)
  then have s: "s = ''exact:'' @ t" by (simp add: strip_prefix_Some)
  have "s \<noteq> rule_key r @ CHR ''='' # rule_value r"
    using Some strip_exact_key [of r "rule_value r"] by auto
  with Some s show ?thesis by (auto simp: filter_rule_from_str_def parse_rule_iff show_rule_eq)
qed

text \<open>
  Skipping a remote is safe: when the rules allow to skip it, no resource of the remote and no
  node of it is in the view, and the remote is not explicitly included. If all rules of the view name
  remotes, the test is exact.
\<close>

theorem can_skip_remote_sound:
  "(can_skip_remote v remote \<longrightarrow>
      (\<forall>resource. \<not> view_resource_matches v remote resource) \<and> (\<forall>node. \<not> is_node_included v remote node) \<and>
      \<not> is_remote_explicitly_included v remote) \<and>
   ((\<forall>rule \<in> set (view_include v @ view_exclude v). \<exists>m. rule = FRemote m) \<longrightarrow>
      can_skip_remote v remote = (\<forall>resource. \<not> view_resource_matches v remote resource))"
proof (intro conjI impI)
  assume rules: "\<forall>rule \<in> set (view_include v @ view_exclude v). \<exists>m. rule = FRemote m"
  have "check_rules rs remote d = list_ex (matches_remote_rule remote) rs"
    "only_other_remotes remote rs \<longleftrightarrow> \<not> list_ex (matches_remote_rule remote) rs"
    if "\<forall>rule \<in> set rs. \<exists>m. rule = FRemote m" for rs d
    using that by (induction rs) (auto simp: check_rules_def rule_matches_def matches_remote_rule_def)
  then have "check_rules (view_include v) remote d = list_ex (matches_remote_rule remote) (view_include v)"
    "check_rules (view_exclude v) remote d = list_ex (matches_remote_rule remote) (view_exclude v)"
    "only_other_remotes remote (view_include v) \<longleftrightarrow> \<not> list_ex (matches_remote_rule remote) (view_include v)" for d
    using rules by simp_all
  then show "can_skip_remote v remote = (\<forall>resource. \<not> view_resource_matches v remote resource)"
    by (auto simp: can_skip_remote_def view_resource_matches_def check_if_included_def check_if_excluded_def)
qed (use can_skip_no_match can_skip_not_explicit in
      \<open>auto simp: view_resource_matches_def is_node_included_def\<close>)

definition sample_view :: ViewConfig where
  "sample_view =
     \<lparr>view_id = ''web'', view_include_all = None, view_include = [FRemote (Exact ''r1''), FRemote (Exact ''r2'')],
      view_exclude = [FRemote (Exact ''r2'')], view_layout = []\<rparr>"

theorem can_skip_remote_sound_witness:
  "can_skip_remote sample_view ''r2'' \<and> \<not> is_node_included sample_view ''r2'' ''n1'' \<and>
   \<not> (\<forall>resource. \<not> view_resource_matches sample_view ''r1'' resource)"
proof -
  have skip: "can_skip_remote sample_view ''r2''" "\<not> can_skip_remote sample_view ''r1''" by code_simp+
  have "\<forall>rule \<in> set (view_include sample_view @ view_exclude sample_view). \<exists>m. rule = FRemote m"
    by (simp add: sample_view_def)
  with skip can_skip_remote_sound [of sample_view "''r2''"] can_skip_remote_sound [of sample_view "''r1''"]
  show ?thesis by blast
qed

end
