(* ===== verification/ResourceMapping.thy ===== *)
theory ResourceMapping
  imports Views
begin

text \<open>
  How the entries reported by a remote become resources: the functions \<^verbatim>\<open>map_pve_*\<close> and \<^verbatim>\<open>map_pbs_*\<close>
  of \<^verbatim>\<open>server/src/api/resources.rs\<close>. The entries are records of the crates \<^verbatim>\<open>pve_api_types\<close> and
  \<^verbatim>\<open>pbs_api_types\<close>, with the fields that are read here; conversion of integers to floating point
  numbers, their division and the parser of datastore backend settings are parameters.
\<close>

datatype ClusterResourceType = CrNode | CrLxc | CrQemu | CrStorage | CrSdn | CrNetwork | CrOther str

record ClusterResource =
  cr_ty :: ClusterResourceType
  cr_id :: str
  cr_cgroup_mode :: "int option"
  cr_cpu :: "f64 option"
  cr_maxcpu :: "f64 option"
  cr_disk :: "u64 option"
  cr_maxdisk :: "u64 option"
  cr_mem :: "u64 option"
  cr_maxmem :: "int option"
  cr_uptime :: "int option"
  cr_vmid :: "u32 option"
  cr_name :: "str option"
  cr_node :: "str option"
  cr_pool :: "str option"
  cr_status :: "str option"
  cr_level :: "str option"
  cr_tags :: "str option"
  cr_template :: "bool option"
  cr_storage :: "str option"
  cr_shared :: "bool option"
  cr_sdn :: "str option"
  cr_zone_type :: "str option"
  cr_network_type :: "NetworkType option"
  cr_network :: "str option"
  cr_protocol :: "str option"

definition or_default :: "'a \<Rightarrow> 'a option \<Rightarrow> 'a" where
  "or_default d x = (case x of Some v \<Rightarrow> v | None \<Rightarrow> d)"

text \<open>\<^verbatim>\<open>as u64\<close> of an \<^verbatim>\<open>i64\<close>.\<close>

definition as_u64 :: "int \<Rightarrow> u64" where
  "as_u64 i = word_of_int i"

fun split_if :: "(char \<Rightarrow> bool) \<Rightarrow> str \<Rightarrow> str list" where
  "split_if P [] = [[]]"
| "split_if P (x # xs) =
     (if P x then [] # split_if P xs
      else case split_if P xs of y # ys \<Rightarrow> (x # y) # ys | [] \<Rightarrow> [[x]])"

definition split_tags :: "str \<Rightarrow> str list" where
  "split_tags tags = filter (\<lambda>s. s \<noteq> []) (split_if (\<lambda>c. c = CHR '';'' \<or> c = CHR '','' \<or> c = CHR '' '') tags)"

definition remote_path :: "str \<Rightarrow> str \<Rightarrow> str" where
  "remote_path remote rest = ''remote/'' @ remote @ ''/'' @ rest"

section \<open>Proxmox VE\<close>

definition map_pve_node :: "str \<Rightarrow> ClusterResource \<Rightarrow> PveNodeResource option" where
  "map_pve_node remote r =
     (if cr_ty r = CrNode then
        Some \<lparr>node_cgroup_mode = or_default 0 (cr_cgroup_mode r), node_cpu = or_default 0 (cr_cpu r),
          node_maxcpu = or_default 0 (cr_maxcpu r),
          node_id = remote_path remote (''node/'' @ or_default [] (cr_node r)),
          node_maxmem = as_u64 (or_default 0 (cr_maxmem r)), node_mem = or_default 0 (cr_mem r),
          node_node = or_default [] (cr_node r), node_uptime = as_u64 (or_default 0 (cr_uptime r)),
          node_status = or_default [] (cr_status r), node_level = or_default [] (cr_level r)\<rparr>
      else None)"

definition map_pve_lxc :: "str \<Rightarrow> ClusterResource \<Rightarrow> PveLxcResource option" where
  "map_pve_lxc remote r =
     (if cr_ty r = CrLxc then
        Some \<lparr>lxc_cpu = or_default 0 (cr_cpu r), lxc_maxcpu = or_default 0 (cr_maxcpu r),
          lxc_disk = or_default 0 (cr_disk r), lxc_maxdisk = or_default 0 (cr_maxdisk r),
          lxc_id = remote_path remote (''guest/'' @ show_u32 (or_default 0 (cr_vmid r))),
          lxc_maxmem = as_u64 (or_default 0 (cr_maxmem r)), lxc_mem = or_default 0 (cr_mem r),
          lxc_name = or_default [] (cr_name r), lxc_node = or_default [] (cr_node r),
          lxc_pool = or_default [] (cr_pool r), lxc_status = or_default [] (cr_status r),
          lxc_tags = or_default [] (map_option split_tags (cr_tags r)),
          lxc_template = or_default False (cr_template r), lxc_uptime = as_u64 (or_default 0 (cr_uptime r)),
          lxc_vmid = or_default 0 (cr_vmid r)\<rparr>
      else None)"

definition map_pve_qemu :: "str \<Rightarrow> ClusterResource \<Rightarrow> PveQemuResource option" where
  "map_pve_qemu remote r =
     (if cr_ty r = CrQemu then
        Some \<lparr>qemu_cpu = or_default 0 (cr_cpu r), qemu_maxcpu = or_default 0 (cr_maxcpu r),
          qemu_disk = or_default 0 (cr_disk r), qemu_maxdisk = or_default 0 (cr_maxdisk r),
          qemu_id = remote_path remote (''guest/'' @ show_u32 (or_default 0 (cr_vmid r))),
          qemu_maxmem = as_u64 (or_default 0 (cr_maxmem r)), qemu_mem = or_default 0 (cr_mem r),
          qemu_name = or_default [] (cr_name r), qemu_node = or_default [] (cr_node r),
          qemu_pool = or_default [] (cr_pool r), qemu_status = or_default [] (cr_status r),
          qemu_tags = or_default [] (map_option split_tags (cr_tags r)),
          qemu_template = or_default False (cr_template r), qemu_uptime = as_u64 (or_default 0 (cr_uptime r)),
          qemu_vmid = or_default 0 (cr_vmid r)\<rparr>
      else None)"

definition map_pve_storage :: "str \<Rightarrow> ClusterResource \<Rightarrow> PveStorageResource option" where
  "map_pve_storage remote r =
     (if cr_ty r = CrStorage then
        Some \<lparr>storage_disk = or_default 0 (cr_disk r), storage_maxdisk = or_default 0 (cr_maxdisk r),
          storage_id = remote_path remote (cr_id r), storage_storage = or_default [] (cr_storage r),
          storage_node = or_default [] (cr_node r), storage_status = or_default [] (cr_status r),
          storage_shared = or_default False (cr_shared r)\<rparr>
      else None)"

definition map_pve_sdn :: "str \<Rightarrow> ClusterResource \<Rightarrow> PveNetworkResource option" where
  "map_pve_sdn remote r =
     (if cr_ty r = CrSdn then
        Some (Zone \<lparr>zone_id = remote_path remote (''sdn/'' @ cr_id r), zone_node = or_default [] (cr_node r),
          zone_network = or_default [] (cr_sdn r),
          zone_status = sdn_status_from_str (or_default [] (cr_status r)),
          zone_zone_type = or_default [] (cr_zone_type r), zone_legacy = True\<rparr>)
      else None)"

definition map_pve_network :: "str \<Rightarrow> ClusterResource \<Rightarrow> PveNetworkResource option" where
  "map_pve_network remote r =
     (if cr_ty r = CrNetwork then
        (case cr_network_type r of
           None \<Rightarrow> None
         | Some NetworkFabric \<Rightarrow>
             Some (Fabric \<lparr>fabric_id = remote_path remote (cr_id r), fabric_node = or_default [] (cr_node r),
               fabric_network = or_default [] (cr_network r),
               fabric_status = sdn_status_from_str (or_default [] (cr_status r)),
               fabric_protocol = or_default [] (cr_protocol r)\<rparr>)
         | Some NetworkZone \<Rightarrow>
             Some (Zone \<lparr>zone_id = remote_path remote (cr_id r), zone_node = or_default [] (cr_node r),
               zone_network = or_default [] (cr_network r),
               zone_status = sdn_status_from_str (or_default [] (cr_status r)),
               zone_zone_type = or_default [] (cr_zone_type r), zone_legacy = False\<rparr>)
         | Some (UnknownNetworkType variant) \<Rightarrow> None)
      else None)"

definition map_pve_resource :: "str \<Rightarrow> ClusterResource \<Rightarrow> Resource option" where
  "map_pve_resource remote r =
     (case cr_ty r of
        CrNode \<Rightarrow> map_option PveNode (map_pve_node remote r)
      | CrLxc \<Rightarrow> map_option PveLxc (map_pve_lxc remote r)
      | CrQemu \<Rightarrow> map_option PveQemu (map_pve_qemu remote r)
      | CrStorage \<Rightarrow> map_option PveStorage (map_pve_storage remote r)
      | CrSdn \<Rightarrow> map_option PveNetwork (map_pve_sdn remote r)
      | CrNetwork \<Rightarrow> map_option PveNetwork (map_pve_network remote r)
      | CrOther _ \<Rightarrow> None)"

section \<open>Proxmox Backup Server\<close>

datatype DatastoreBackendType = BackendFilesystem | BackendS3

record pbs_env =
  pe_to_f64 :: "u64 \<Rightarrow> f64"
  pe_div :: "f64 \<Rightarrow> f64 \<Rightarrow> f64"
  pe_parse_backend :: "str \<Rightarrow> DatastoreBackendType option option"
  pe_show_backend :: "DatastoreBackendType \<Rightarrow> str"

record NodeStatus =
  ns_cpu :: f64
  ns_cpus :: u64
  ns_mem_used :: u64
  ns_mem_total :: u64
  ns_uptime :: u64

record DataStoreStatusListItem =
  dsl_store :: str
  dsl_total :: "u64 option"
  dsl_used :: "u64 option"

record DataStoreConfig =
  dsc_name :: str
  dsc_backend :: "str option"
  dsc_maintenance_mode :: "str option"
  dsc_backing_device :: "str option"

definition map_pbs_node_status :: "pbs_env \<Rightarrow> str \<Rightarrow> NodeStatus \<Rightarrow> Resource" where
  "map_pbs_node_status E remote status =
     PbsNode \<lparr>pbsnode_cpu = ns_cpu status, pbsnode_maxcpu = pe_to_f64 E (ns_cpus status),
       pbsnode_id = remote_path remote ''node/localhost'', pbsnode_mem = ns_mem_used status,
       pbsnode_maxmem = ns_mem_total status, pbsnode_name = ''localhost'', pbsnode_uptime = ns_uptime status\<rparr>"

definition map_pbs_datastore_status ::
  "pbs_env \<Rightarrow> str \<Rightarrow> DataStoreStatusListItem \<Rightarrow> (str \<rightharpoonup> DataStoreConfig) \<Rightarrow> Resource" where
  "map_pbs_datastore_status E remote status datastores =
     (let maxdisk = or_default 0 (dsl_total status);
          disk = or_default 0 (dsl_used status);
          usage = (if maxdisk > 0 then pe_div E (pe_to_f64 E disk) (pe_to_f64 E maxdisk) else 0);
          resource = \<lparr>ds_id = remote_path remote (''datastore/'' @ dsl_store status), ds_maxdisk = maxdisk,
            ds_disk = disk, ds_name = dsl_store status, ds_usage = usage, ds_maintenance = None,
            ds_backing_device = None, ds_backend_type = None\<rparr>
      in case datastores (dsl_store status) of
           Some c \<Rightarrow>
             let backend_type =
               (case dsc_backend c of
                  None \<Rightarrow> None
                | Some b \<Rightarrow>
                    (case pe_parse_backend E b of
                       Some ty \<Rightarrow> if ty = Some BackendS3 then Some (pe_show_backend E BackendS3) else None
                     | None \<Rightarrow> Some ''unknown''))
             in PbsDatastore (resource\<lparr>ds_maintenance := dsc_maintenance_mode c,
                  ds_backing_device := dsc_backing_device c, ds_backend_type := backend_type\<rparr>)
         | None \<Rightarrow> PbsDatastore resource)"

section \<open>What a remote reports\<close>

text \<open>The answers of the clients to the calls of \<^verbatim>\<open>fetch_remote_resource\<close>, each of which may fail.\<close>

record remote_answers =
  ra_pve_client :: "str + unit"
  ra_cluster_resources :: "str + ClusterResource list"
  ra_pbs_client :: "str + unit"
  ra_node_status :: "str + NodeStatus"
  ra_list_datastores :: "str + DataStoreConfig list"
  ra_datastore_usage :: "str + DataStoreStatusListItem list"

definition datastore_map :: "DataStoreConfig list \<Rightarrow> str \<rightharpoonup> DataStoreConfig" where
  "datastore_map stores = fold (\<lambda>s m. m(dsc_name s \<mapsto> s)) stores Map.empty"

definition res_bind :: "('e + 'a) \<Rightarrow> ('a \<Rightarrow> 'e + 'b) \<Rightarrow> 'e + 'b" where
  "res_bind x f = (case x of Inl e \<Rightarrow> Inl e | Inr a \<Rightarrow> f a)"

definition fetch_remote_resource :: "pbs_env \<Rightarrow> RemoteType \<Rightarrow> str \<Rightarrow> remote_answers \<Rightarrow> str + Resource list" where
  "fetch_remote_resource E ty remote a =
     (case ty of
        Pve \<Rightarrow>
          res_bind (ra_pve_client a) (\<lambda>_.
          res_bind (ra_cluster_resources a) (\<lambda>rs. Inr (List.map_filter (map_pve_resource remote) rs)))
      | Pbs \<Rightarrow>
          res_bind (ra_pbs_client a) (\<lambda>_.
          res_bind (ra_node_status a) (\<lambda>status.
          res_bind (ra_list_datastores a) (\<lambda>stores.
          res_bind (ra_datastore_usage a) (\<lambda>usage.
            Inr (map_pbs_node_status E remote status #
                 map (\<lambda>u. map_pbs_datastore_status E remote u (datastore_map stores)) usage))))))"

section \<open>Lemmas\<close>

lemma global_id_pve: "map_pve_resource remote r = Some res \<Longrightarrow> \<exists>rest. global_id res = remote_path remote rest"
  by (auto simp: map_pve_resource_def map_pve_node_def map_pve_lxc_def map_pve_qemu_def map_pve_storage_def
      map_pve_sdn_def map_pve_network_def split: ClusterResourceType.splits if_splits option.splits NetworkType.splits)

lemma global_id_pbs:
  "\<exists>rest. global_id (map_pbs_node_status E remote status) = remote_path remote rest"
  "\<exists>rest. global_id (map_pbs_datastore_status E remote u m) = remote_path remote rest"
  by (auto simp: map_pbs_node_status_def map_pbs_datastore_status_def Let_def split: option.splits)

lemma fetched_global_ids:
  assumes "fetch_remote_resource E ty remote a = Inr resources" and "res \<in> set resources"
  shows "\<exists>rest. global_id res = remote_path remote rest"
  using assms global_id_pve global_id_pbs
  by (fastforce simp: fetch_remote_resource_def res_bind_def set_map_filter split: RemoteType.splits sum.splits)

lemma remote_path_inj:
  assumes "CHR ''/'' \<notin> set a" and "CHR ''/'' \<notin> set b" and "remote_path a x = remote_path b y"
  shows "a = b"
proof -
  have eq: "a @ CHR ''/'' # x = b @ CHR ''/'' # y" using assms(3) by (simp add: remote_path_def)
  have "Some (a, x) = Some (b, y)"
    by (rule trans [OF split_once_append [OF assms(1), of x, unfolded eq, symmetric] split_once_append [OF assms(2)]])
  then show ?thesis by simp
qed

section \<open>Properties\<close>

text \<open>
  Global ids are scoped by the remote: every resource fetched from a remote has an id below
  \<^verbatim>\<open>remote/<name>/\<close>, so resources of remotes with different slash-free names never share a global id.
\<close>

theorem global_ids_scoped:
  assumes "fetch_remote_resource E ty remote a = Inr resources"
    and "fetch_remote_resource E ty' remote' a' = Inr resources'"
    and "remote \<noteq> remote'" and "CHR ''/'' \<notin> set remote" and "CHR ''/'' \<notin> set remote'"
  shows "(\<forall>res \<in> set resources. \<exists>rest. global_id res = ''remote/'' @ remote @ ''/'' @ rest) \<and>
         global_id ` set resources \<inter> global_id ` set resources' = {}"
proof -
  have "global_id res \<noteq> global_id res'" if "res \<in> set resources" "res' \<in> set resources'" for res res'
    using fetched_global_ids [OF assms(1) that(1)] fetched_global_ids [OF assms(2) that(2)]
      remote_path_inj [OF assms(4,5)] assms(3) by metis
  with fetched_global_ids [OF assms(1)] show ?thesis by (auto simp: remote_path_def)
qed

definition sample_cluster_node :: ClusterResource where
  "sample_cluster_node =
     \<lparr>cr_ty = CrNode, cr_id = ''node/n1'', cr_cgroup_mode = None, cr_cpu = None, cr_maxcpu = None, cr_disk = None,
      cr_maxdisk = None, cr_mem = None, cr_maxmem = None, cr_uptime = None, cr_vmid = None, cr_name = None,
      cr_node = Some ''n1'', cr_pool = None, cr_status = Some ''online'', cr_level = None, cr_tags = None,
      cr_template = None, cr_storage = None, cr_shared = None, cr_sdn = None, cr_zone_type = None,
      cr_network_type = None, cr_network = None, cr_protocol = None\<rparr>"

definition sample_answers :: remote_answers where
  "sample_answers =
     \<lparr>ra_pve_client = Inr (), ra_cluster_resources = Inr [sample_cluster_node], ra_pbs_client = Inl ''no'',
      ra_node_status = Inl ''no'', ra_list_datastores = Inl ''no'', ra_datastore_usage = Inl ''no''\<rparr>"

lemma fetch_sample:
  "fetch_remote_resource E Pve remote sample_answers = Inr [PveNode (the (map_pve_node remote sample_cluster_node))]"
  by (simp add: fetch_remote_resource_def sample_answers_def res_bind_def map_filter_simps map_pve_resource_def
      map_pve_node_def sample_cluster_node_def)

theorem global_ids_scoped_witness:
  "\<exists>rest. global_id (PveNode (the (map_pve_node ''r1'' sample_cluster_node))) = ''remote/'' @ ''r1'' @ ''/'' @ rest"
  using global_ids_scoped [OF fetch_sample fetch_sample, of "''r1''" "''r2''"] by simp

text \<open>
  Checking a node by name is the same as checking the node's resource, for every node entry that a
  remote of either product reports.
\<close>

theorem node_check_equivalent:
  "(map_pve_node remote r = Some n \<longrightarrow>
      is_node_included v remote (node_node n) = view_resource_matches v remote (PveNode n)) \<and>
   is_node_included v remote ''localhost'' = view_resource_matches v remote (map_pbs_node_status E remote status)"
  by (auto simp: is_node_included_def view_resource_matches_def node_data_def map_pve_node_def
      map_pbs_node_status_def remote_path_def split: if_splits)

theorem node_check_equivalent_witness:
  "view_resource_matches sample_view ''r1'' (PveNode (the (map_pve_node ''r1'' sample_cluster_node)))"
proof -
  have n: "map_pve_node ''r1'' sample_cluster_node = Some (the (map_pve_node ''r1'' sample_cluster_node))"
    by (simp add: map_pve_node_def sample_cluster_node_def)
  have "node_node (the (map_pve_node ''r1'' sample_cluster_node)) = ''n1''"
    by (simp add: map_pve_node_def sample_cluster_node_def or_default_def)
  moreover have "is_node_included sample_view ''r1'' ''n1''" by code_simp
  ultimately show ?thesis
    using node_check_equivalent [of "''r1''" sample_cluster_node _ sample_view] n by metis
qed

end
