(* ===== verification/ResourceListing.thy ===== *)
theory ResourceListing
  imports ResourceMapping Search
begin

unbundle bit_operations_syntax

text \<open>
  Listing resources across remotes, from \<^verbatim>\<open>server/src/api/resources.rs\<close>: search categories, matching of
  resources and remotes against search terms, and \<^verbatim>\<open>get_resources_impl\<close> with its permission checks,
  its views and its shortcuts for searches that only concern remotes.

  Parameters: Unicode lower-casing (\<open>lower_spec\<close> states what is used of it), \<^verbatim>\<open>parse_boolean\<close> and the
  printed network types, in \<open>match_env\<close>; the access control library in \<open>acl_env\<close>; and the resources of
  a remote, cached or fetched, as a function. Fetching runs in one task per remote; the tasks do not
  interact and their results are collected in the order of the configuration.
\<close>

section \<open>Matching\<close>

record match_env =
  me_lower :: "str \<Rightarrow> str"
  me_parse_boolean :: "str \<Rightarrow> bool option"
  me_network_type :: "NetworkType \<Rightarrow> str"

datatype MatchCategory =
  CatType | CatNetworkType | CatName | CatId | CatStatus | CatTemplate | CatRemote | CatRemoteType | CatProperty | CatView

definition match_category_from_str :: "str \<Rightarrow> MatchCategory option" where
  "match_category_from_str s =
     (if s = ''type'' then Some CatType
      else if s = ''network-type'' then Some CatNetworkType
      else if s = ''name'' then Some CatName
      else if s = ''id'' then Some CatId
      else if s = ''status'' then Some CatStatus
      else if s = ''template'' then Some CatTemplate
      else if s = ''remote'' then Some CatRemote
      else if s = ''remote-type'' then Some CatRemoteType
      else if s = ''property'' then Some CatProperty
      else if s = ''view'' then Some CatView
      else None)"

definition contains :: "str \<Rightarrow> str \<Rightarrow> bool" where
  "contains p s \<longleftrightarrow> list_ex (\<lambda>i. starts_with p (drop i s)) [0..<Suc (length s)]"

definition remote_type_of :: "str \<Rightarrow> RemoteType option" where
  "remote_type_of s = (case parse_remote_type s of Inr t \<Rightarrow> Some t | Inl _ \<Rightarrow> None)"

definition both_equal :: "'a option \<Rightarrow> 'a option \<Rightarrow> bool" where
  "both_equal x y = (case (x, y) of (Some a, Some b) \<Rightarrow> a = b | _ \<Rightarrow> False)"

definition category_matches :: "match_env \<Rightarrow> MatchCategory \<Rightarrow> str \<Rightarrow> str \<Rightarrow> bool" where
  "category_matches E category value search_term =
     (case category of
        CatType \<Rightarrow> starts_with (me_lower E search_term) (me_lower E value)
      | CatStatus \<Rightarrow> starts_with (me_lower E search_term) (me_lower E value)
      | CatNetworkType \<Rightarrow> starts_with (me_lower E search_term) (me_lower E value)
      | CatName \<Rightarrow> contains (me_lower E search_term) (me_lower E value)
      | CatId \<Rightarrow> contains (me_lower E search_term) (me_lower E value)
      | CatRemote \<Rightarrow> contains (me_lower E search_term) (me_lower E value)
      | CatTemplate \<Rightarrow> both_equal (me_parse_boolean E value) (me_parse_boolean E search_term)
      | CatRemoteType \<Rightarrow> both_equal (remote_type_of value) (remote_type_of search_term)
      | CatProperty \<Rightarrow> list_ex (\<lambda>p. p = me_lower E search_term) (split_char (CHR '','') (me_lower E value))
      | CatView \<Rightarrow> True)"

definition show_bool :: "bool \<Rightarrow> str" where
  "show_bool b = (if b then ''true'' else ''false'')"

definition term_category :: "SearchTerm \<Rightarrow> MatchCategory option option" where
  "term_category term = map_option match_category_from_str (st_category term)"

definition resource_matches_search_term :: "match_env \<Rightarrow> str \<Rightarrow> Resource \<Rightarrow> SearchTerm \<Rightarrow> bool option" where
  "resource_matches_search_term E remote_name resource term =
     (case term_category term of
        Some (Some category) \<Rightarrow>
          (case category of
             CatType \<Rightarrow> Some (category_matches E category (resource_type_as_str (resource_type resource)) (st_value term))
           | CatName \<Rightarrow> Some (category_matches E category (resource_name resource) (st_value term))
           | CatId \<Rightarrow> Some (category_matches E category (resource_id (me_network_type E) resource) (st_value term))
           | CatStatus \<Rightarrow> Some (category_matches E category (resource_status resource) (st_value term))
           | CatProperty \<Rightarrow> Some (category_matches E category (properties resource) (st_value term))
           | CatTemplate \<Rightarrow>
               Some (case resource of
                  PveQemu r \<Rightarrow> category_matches E category (show_bool (qemu_template r)) (st_value term)
                | PveLxc r \<Rightarrow> category_matches E category (show_bool (lxc_template r)) (st_value term)
                | _ \<Rightarrow> False)
           | CatRemote \<Rightarrow> Some (category_matches E category remote_name (st_value term))
           | CatRemoteType \<Rightarrow> None
           | CatNetworkType \<Rightarrow>
               Some (case resource of
                  PveNetwork n \<Rightarrow> category_matches E category (me_network_type E (network_type n)) (st_value term)
                | _ \<Rightarrow> False)
           | CatView \<Rightarrow> None)
      | Some None \<Rightarrow> Some False
      | None \<Rightarrow>
          Some (category_matches E CatName (resource_name resource) (st_value term) \<or>
                category_matches E CatId (resource_id (me_network_type E) resource) (st_value term)))"

text \<open>The fields of \<^verbatim>\<open>Remote\<close> that are read here.\<close>

record Remote =
  remote_ty :: RemoteType
  remote_id :: str

definition remote_matches_search_term ::
  "match_env \<Rightarrow> str \<Rightarrow> Remote \<Rightarrow> bool option \<Rightarrow> SearchTerm \<Rightarrow> bool" where
  "remote_matches_search_term E remote_name remote online term =
     (case term_category term of
        Some (Some category) \<Rightarrow>
          (case category of
             CatType \<Rightarrow> category_matches E category ''remote'' (st_value term)
           | CatName \<Rightarrow> category_matches E category remote_name (st_value term)
           | CatRemote \<Rightarrow> category_matches E category remote_name (st_value term)
           | CatId \<Rightarrow> category_matches E category remote_name (st_value term)
           | CatStatus \<Rightarrow>
               (case online of
                  Some True \<Rightarrow> category_matches E category ''online'' (st_value term)
                | Some False \<Rightarrow> category_matches E category ''offline'' (st_value term)
                | None \<Rightarrow> True)
           | CatProperty \<Rightarrow> False
           | CatTemplate \<Rightarrow> False
           | CatRemoteType \<Rightarrow> category_matches E category (show_remote_type (remote_ty remote)) (st_value term)
           | CatNetworkType \<Rightarrow> False
           | CatView \<Rightarrow> True)
      | Some None \<Rightarrow> False
      | None \<Rightarrow>
          category_matches E CatName remote_name (st_value term) \<or>
          category_matches E CatType ''remote'' (st_value term))"

definition remote_type_matches_search_term :: "match_env \<Rightarrow> RemoteType \<Rightarrow> SearchTerm \<Rightarrow> bool" where
  "remote_type_matches_search_term E ty term =
     (case term_category term of
        Some (Some CatRemoteType) \<Rightarrow> category_matches E CatRemoteType (show_remote_type ty) (st_value term)
      | Some (Some _) \<Rightarrow> True
      | Some None \<Rightarrow> False
      | None \<Rightarrow> True)"

text \<open>The counters of \<^verbatim>\<open>is_remotes_only\<close>: whether a required term asks for remotes, and how many optional
  terms do and exist.\<close>

definition is_remote_type_term :: "match_env \<Rightarrow> SearchTerm \<Rightarrow> bool" where
  "is_remote_type_term E term \<longleftrightarrow>
     term_category term = Some (Some CatType) \<and> category_matches E CatType ''remote'' (st_value term)"

definition remotes_only_visit :: "match_env \<Rightarrow> SearchTerm \<Rightarrow> bool \<times> nat \<times> nat \<Rightarrow> bool \<times> bool \<times> nat \<times> nat" where
  "remotes_only_visit E term counters =
     (case counters of (is_required, optional_matches, optional_count) \<Rightarrow>
        let optional_count = (if st_optional term then optional_count + 1 else optional_count);
            (is_required, optional_matches) =
              (if is_remote_type_term E term then
                 (if \<not> st_optional term then (True, optional_matches) else (is_required, optional_matches + 1))
               else (is_required, optional_matches))
        in (\<not> st_optional term, is_required, optional_matches, optional_count))"

definition is_remotes_only :: "match_env \<Rightarrow> Search \<Rightarrow> bool" where
  "is_remotes_only E filters =
     (case snd (search_matches_mut (remotes_only_visit E) filters (False, 0, 0)) of
        (is_required, optional_matches, optional_count) \<Rightarrow>
          is_required \<or> optional_matches > 0 \<and> optional_matches = optional_count)"

section \<open>Permissions\<close>

text \<open>The fifth and the seventh bit of the privilege map in \<^verbatim>\<open>lib/pdm-api-types/src/acl.rs\<close>.\<close>

definition PRIV_RESOURCE_AUDIT :: u64 where
  "PRIV_RESOURCE_AUDIT = 16"

definition PRIV_RESOURCE_MODIFY :: u64 where
  "PRIV_RESOURCE_MODIFY = 64"

record 'a acl_env =
  acl_check_privs :: "'a \<Rightarrow> str list \<Rightarrow> u64 \<Rightarrow> bool \<Rightarrow> bool"
  acl_any_privs_below :: "'a \<Rightarrow> str list \<Rightarrow> u64 \<Rightarrow> bool option"
  acl_lookup_privs :: "'a \<Rightarrow> str list \<Rightarrow> u64"

datatype list_error = NoAuthId | PermissionDenied | ConfigError | UnknownView str

definition check_remote_priv :: "'a acl_env \<Rightarrow> 'a \<Rightarrow> str \<Rightarrow> bool" where
  "check_remote_priv A auth_id remote = acl_check_privs A auth_id [''resource'', remote] PRIV_RESOURCE_AUDIT False"

definition check_all_remotes_allowed :: "'a acl_env \<Rightarrow> 'a \<Rightarrow> str option \<Rightarrow> list_error + bool" where
  "check_all_remotes_allowed A auth_id view =
     (case view of
        Some v \<Rightarrow>
          if acl_check_privs A auth_id [''view'', v] PRIV_RESOURCE_AUDIT False then Inr False else Inl PermissionDenied
      | None \<Rightarrow> Inr (acl_check_privs A auth_id [''resource''] PRIV_RESOURCE_AUDIT False))"

text \<open>A call from the API has an authentication id (\<open>Some None\<close>: it is missing or malformed), an
  internal call none.\<close>

definition check_access :: "'a acl_env \<Rightarrow> 'a option option \<Rightarrow> str option \<Rightarrow> list_error + 'a option" where
  "check_access A caller view =
     (case caller of
        None \<Rightarrow> Inr None
      | Some None \<Rightarrow> Inl NoAuthId
      | Some (Some auth_id) \<Rightarrow>
          (case view of
             Some v \<Rightarrow>
               if acl_check_privs A auth_id [''view'', v] PRIV_RESOURCE_AUDIT False then Inr (Some auth_id)
               else Inl PermissionDenied
           | None \<Rightarrow>
               if acl_any_privs_below A auth_id [''resource''] PRIV_RESOURCE_AUDIT = Some True then Inr (Some auth_id)
               else Inl PermissionDenied))"

section \<open>The listing\<close>

record RemoteWithResources =
  rw_remote_name :: str
  rw_remote :: Remote
  rw_resources :: "Resource list"
  rw_error :: "str option"

record list_config =
  lc_remotes :: "(str \<times> Remote) list option"
  lc_views :: "(str, ViewConfig) alist option"

definition get_view :: "list_config \<Rightarrow> str \<Rightarrow> list_error + ViewConfig" where
  "get_view cfg i =
     (case lc_views cfg of
        None \<Rightarrow> Inl ConfigError
      | Some views \<Rightarrow> (case al_get views i of Some v \<Rightarrow> Inr v | None \<Rightarrow> Inl (UnknownView i)))"

definition get_optional_view :: "list_config \<Rightarrow> str option \<Rightarrow> list_error + ViewConfig option" where
  "get_optional_view cfg i =
     (case i of None \<Rightarrow> Inr None | Some x \<Rightarrow> map_sum id Some (get_view cfg x))"

definition view_filter_from_search :: "Search \<Rightarrow> str option" where
  "view_filter_from_search filters =
     snd (search_matches_mut
       (\<lambda>term found. (True, if st_category term = Some ''view'' then Some (st_value term) else found)) filters None)"

definition remote_selected ::
  "match_env \<Rightarrow> 'a acl_env \<Rightarrow> 'a option \<Rightarrow> ViewConfig option \<Rightarrow> Search \<Rightarrow> bool \<Rightarrow> str \<times> Remote \<Rightarrow> bool" where
  "remote_selected E A auth view filters remotes_only r =
     (case r of (remote_name, remote) \<Rightarrow>
        (case view of
           Some v \<Rightarrow> \<not> can_skip_remote v remote_name
         | None \<Rightarrow>
             (case auth of
                Some auth_id \<Rightarrow> acl_lookup_privs A auth_id [''resource'', remote_name] AND PRIV_RESOURCE_AUDIT \<noteq> 0
              | None \<Rightarrow> True)) \<and>
        search_matches (remote_type_matches_search_term E (remote_ty remote)) filters \<and>
        \<not> (remotes_only \<and> \<not> search_matches (remote_matches_search_term E remote_name remote None) filters))"

definition resource_kept :: "match_env \<Rightarrow> Search \<Rightarrow> ResourceType option \<Rightarrow> str \<Rightarrow> Resource \<Rightarrow> bool" where
  "resource_kept E filters type_filter remote_name resource =
     (if type_filter \<noteq> None \<and> type_filter \<noteq> Some (resource_type resource) then False
      else search_matches
        (\<lambda>t. case resource_matches_search_term E remote_name resource t of Some b \<Rightarrow> b | None \<Rightarrow> True) filters)"

definition fetch_filtered ::
  "match_env \<Rightarrow> (Remote \<Rightarrow> str + Resource list) \<Rightarrow> Search \<Rightarrow> ResourceType option \<Rightarrow> bool \<Rightarrow> str \<times> Remote \<Rightarrow>
   RemoteWithResources" where
  "fetch_filtered E fetch filters type_filter remotes_only r =
     (case r of (remote_name, remote) \<Rightarrow>
        let (resources, error) =
              (case fetch remote of Inr rs \<Rightarrow> (rs, None) | Inl err \<Rightarrow> ([], Some err));
            resources =
              (if remotes_only then []
               else if type_filter \<noteq> None \<or> \<not> search_is_empty filters
                 then filter (resource_kept E filters type_filter remote_name) resources
               else resources)
        in \<lparr>rw_remote_name = remote_name, rw_remote = remote, rw_resources = resources, rw_error = error\<rparr>)"

definition keep_remote :: "match_env \<Rightarrow> Search \<Rightarrow> RemoteWithResources \<Rightarrow> bool" where
  "keep_remote E filters r =
     (search_is_empty filters \<or> rw_resources r \<noteq> [] \<or>
      search_matches (remote_matches_search_term E (rw_remote_name r) (rw_remote r) (Some (rw_error r = None))) filters)"

definition apply_view :: "ViewConfig \<Rightarrow> RemoteWithResources \<Rightarrow> RemoteWithResources option" where
  "apply_view v r =
     (let r' = r\<lparr>rw_resources := filter (view_resource_matches v (rw_remote_name r)) (rw_resources r)\<rparr>
      in if rw_resources r' \<noteq> [] \<or> rw_error r' \<noteq> None \<and> is_remote_explicitly_included v (rw_remote_name r')
         then Some r' else None)"

definition get_resources_impl ::
  "match_env \<Rightarrow> 'a acl_env \<Rightarrow> list_config \<Rightarrow> (Remote \<Rightarrow> str + Resource list) \<Rightarrow> str option \<Rightarrow>
   ResourceType option \<Rightarrow> str option \<Rightarrow> 'a option option \<Rightarrow> list_error + RemoteWithResources list" where
  "get_resources_impl E A cfg fetch search type_filter view caller =
     res_bind (check_access A caller view) (\<lambda>auth.
     res_bind (case lc_remotes cfg of Some rs \<Rightarrow> Inr rs | None \<Rightarrow> Inl ConfigError) (\<lambda>remotes_config.
     let filters = (case search of Some s \<Rightarrow> search_from s | None \<Rightarrow> search_new)
     in res_bind (get_optional_view cfg view) (\<lambda>view1.
        res_bind (get_optional_view cfg (view_filter_from_search filters)) (\<lambda>view2.
        let view = (case view1 of Some v \<Rightarrow> Some v | None \<Rightarrow> view2);
            remotes_only = is_remotes_only E filters;
            results = map (fetch_filtered E fetch filters type_filter remotes_only)
                        (filter (remote_selected E A auth view filters remotes_only) remotes_config);
            results = filter (keep_remote E filters) results
        in Inr (case view of Some v \<Rightarrow> List.map_filter (apply_view v) results | None \<Rightarrow> results)))))"

record RemoteResources =
  rr_remote :: str
  rr_resources :: "Resource list"
  rr_error :: "str option"

definition into_remote_resources :: "RemoteWithResources \<Rightarrow> RemoteResources" where
  "into_remote_resources r =
     \<lparr>rr_remote = rw_remote_name r, rr_resources = rw_resources r, rr_error = rw_error r\<rparr>"

definition get_resources ::
  "match_env \<Rightarrow> 'a acl_env \<Rightarrow> list_config \<Rightarrow> (Remote \<Rightarrow> str + Resource list) \<Rightarrow> ResourceType option \<Rightarrow>
   str option \<Rightarrow> str option \<Rightarrow> 'a option \<Rightarrow> list_error + RemoteResources list" where
  "get_resources E A cfg fetch type_filter search view auth =
     map_sum id (map into_remote_resources) (get_resources_impl E A cfg fetch search type_filter view (Some auth))"

end
