(* ===== verification/ResourceListingProps.thy ===== *)
theory ResourceListingProps
  imports ResourceListing
begin

text \<open>
  What the resource listing guarantees: its shortcuts agree with a listing that fetches and filters
  everything, and what the permission checks ensure.
\<close>

section \<open>Searches entered as text\<close>

definition search_wf :: "Search \<Rightarrow> bool" where
  "search_wf S \<longleftrightarrow>
     (\<forall>t \<in> set (required_terms S). \<not> st_optional t \<and> st_value t \<noteq> []) \<and>
     (\<forall>t \<in> set (optional_terms S). st_optional t \<and> st_value t \<noteq> [])"

lemma term_from_value: "w \<noteq> [] \<Longrightarrow> st_value (term_from w) \<noteq> []"
  by (auto simp: term_from_def with_category_def with_optional_def search_term_new_def split: option.splits prod.splits)

lemma search_wf_from: "search_wf (search_from s)"
proof -
  have "st_value (term_from w) \<noteq> []" if "w \<in> set (split_whitespace s)" for w
    using split_ws_tokens [of "[]" s w] that term_from_value [of w] by (simp add: split_whitespace_def token_def)
  then show ?thesis by (auto simp: search_wf_def search_from_def with_terms_def)
qed

lemma search_wf_new: "search_wf search_new"
  by (simp add: search_wf_def search_new_def with_terms_def)

lemma search_new_from: "search_new = search_from []"
  by (simp add: search_new_def search_from_def split_whitespace_def flush_def)

section \<open>Searches for remotes\<close>

text \<open>What is used of Unicode lower-casing: on ASCII text it lowers the letters, and only the empty
  text becomes empty.\<close>

definition ascii_lower_char :: "char \<Rightarrow> char" where
  "ascii_lower_char c = (let n = (of_char c :: nat) in if 65 \<le> n \<and> n \<le> 90 then char_of (n + 32) else c)"

definition lower_spec :: "(str \<Rightarrow> str) \<Rightarrow> bool" where
  "lower_spec lower \<longleftrightarrow>
     (\<forall>s. list_all (\<lambda>c. (of_char c :: nat) < 128) s \<longrightarrow> lower s = map ascii_lower_char s) \<and>
     (\<forall>s. lower s = [] \<longrightarrow> s = [])"

lemma lower_type_names:
  assumes "lower_spec lower"
  shows "lower ''remote'' = ''remote''" and "lower (resource_type_as_str t) = resource_type_as_str t"
proof -
  have "lower s = s" if "list_all (\<lambda>c. (of_char c :: nat) < 128) s" "map ascii_lower_char s = s" for s
    using assms that by (simp add: lower_spec_def)
  then show "lower ''remote'' = ''remote''" "lower (resource_type_as_str t) = resource_type_as_str t"
    by (simp_all add: ascii_lower_char_def, cases t) (simp_all add: ascii_lower_char_def)
qed

lemma starts_with_Cons: "starts_with (x # p) s \<longleftrightarrow> (\<exists>s'. s = x # s' \<and> starts_with p s')"
  by (cases s) (auto simp: starts_with_def)

lemma remote_type_term_no_resource:
  assumes "lower_spec (me_lower E)" and "is_remote_type_term E t" and "st_value t \<noteq> []"
  shows "resource_matches_search_term E remote_name resource t = Some False"
proof -
  have "me_lower E (st_value t) \<noteq> []" using assms(1,3) unfolding lower_spec_def by blast
  then obtain x p where p: "me_lower E (st_value t) = x # p" by (auto simp: neq_Nil_conv)
  with assms(2) lower_type_names(1) [OF assms(1)] have "x = CHR ''r''"
    by (simp add: is_remote_type_term_def category_matches_def starts_with_Cons)
  with p have "\<not> starts_with (me_lower E (st_value t)) (resource_type_as_str ty)" for ty
    by (cases ty) (simp_all add: starts_with_Cons)
  then show ?thesis
    using assms(2) lower_type_names(2) [OF assms(1)]
    by (simp add: resource_matches_search_term_def is_remote_type_term_def category_matches_def)
qed

lemma remotes_only_fold:
  "fold (\<lambda>t s. snd (remotes_only_visit E t s)) ts (r, m, n) =
     (r \<or> (\<exists>t \<in> set ts. \<not> st_optional t \<and> is_remote_type_term E t),
      m + length (filter (\<lambda>t. st_optional t \<and> is_remote_type_term E t) ts),
      n + length (filter st_optional ts))"
  by (induction ts arbitrary: r m n) (auto simp: remotes_only_visit_def Let_def)

lemma length_filter_all: "length (filter (\<lambda>x. P x \<and> Q x) xs) = length (filter P xs) \<longleftrightarrow> (\<forall>x \<in> set xs. P x \<longrightarrow> Q x)"
proof (induction xs)
  case (Cons x xs)
  have "length (filter (\<lambda>x. P x \<and> Q x) xs) \<le> length (filter P xs)"
    by (induction xs) auto
  with Cons show ?case by auto
qed simp

lemma is_remotes_only_iff:
  assumes "search_wf S"
  shows "is_remotes_only E S \<longleftrightarrow>
    (\<exists>t \<in> set (required_terms S). is_remote_type_term E t) \<or>
    optional_terms S \<noteq> [] \<and> (\<forall>t \<in> set (optional_terms S). is_remote_type_term E t)"
proof -
  let ?ts = "required_terms S @ optional_terms S"
  have visits: "snd (search_matches_mut (remotes_only_visit E) S (False, 0, 0)) =
      fold (\<lambda>t s. snd (remotes_only_visit E t s)) ?ts (False, 0, 0)"
    using assms by (intro search_visits_all) (auto simp: search_wf_def remotes_only_visit_def Let_def split: prod.splits)
  have opt: "filter st_optional ?ts = optional_terms S"
    "filter (\<lambda>t. st_optional t \<and> is_remote_type_term E t) ?ts = filter (is_remote_type_term E) (optional_terms S)"
    using assms by (auto simp: search_wf_def filter_empty_conv intro!: filter_cong)
  have all: "length (filter (is_remote_type_term E) (optional_terms S)) = length (optional_terms S) \<longleftrightarrow>
      (\<forall>t \<in> set (optional_terms S). is_remote_type_term E t)"
    using length_filter_all [of "\<lambda>_. True" "is_remote_type_term E" "optional_terms S"] by simp
  have req: "(\<exists>t \<in> set ?ts. \<not> st_optional t \<and> is_remote_type_term E t) \<longleftrightarrow>
      (\<exists>t \<in> set (required_terms S). is_remote_type_term E t)"
    using assms by (auto simp: search_wf_def)
  show ?thesis
    unfolding is_remotes_only_def visits remotes_only_fold opt req
    using all by (auto simp: filter_empty_conv)
qed

lemma remotes_only_no_resource:
  assumes "lower_spec (me_lower E)" and "search_wf S" and "is_remotes_only E S"
  shows "\<not> resource_kept E S type_filter remote_name resource"
proof -
  have no: "(case resource_matches_search_term E remote_name resource t of Some b \<Rightarrow> b | None \<Rightarrow> True) = False"
    if "t \<in> set (required_terms S) \<union> set (optional_terms S)" "is_remote_type_term E t" for t
    using remote_type_term_no_resource [OF assms(1) that(2)] that(1) assms(2) by (auto simp: search_wf_def)
  show ?thesis
    using assms(3) no unfolding is_remotes_only_iff [OF assms(2)]
    by (auto simp: resource_kept_def search_matches_iff)
qed

lemma remote_matches_offline_mono:
  "remote_matches_search_term E name remote (Some b) t \<Longrightarrow> remote_matches_search_term E name remote None t"
  by (auto simp: remote_matches_search_term_def split: option.splits MatchCategory.splits)

section \<open>A listing without shortcuts\<close>

definition remote_allowed :: "'a acl_env \<Rightarrow> 'a option \<Rightarrow> ViewConfig option \<Rightarrow> str \<Rightarrow> bool" where
  "remote_allowed A auth view remote_name \<longleftrightarrow>
     view \<noteq> None \<or>
     (case auth of
        Some auth_id \<Rightarrow> acl_lookup_privs A auth_id [''resource'', remote_name] AND PRIV_RESOURCE_AUDIT \<noteq> 0
      | None \<Rightarrow> True)"

text \<open>Every remote is fetched and each resource is tested against the type, the search and the view.\<close>

definition reference_entry ::
  "match_env \<Rightarrow> 'a acl_env \<Rightarrow> 'a option \<Rightarrow> ViewConfig option \<Rightarrow> Search \<Rightarrow> ResourceType option \<Rightarrow>
   (Remote \<Rightarrow> str + Resource list) \<Rightarrow> str \<times> Remote \<Rightarrow> RemoteWithResources list" where
  "reference_entry E A auth view filters type_filter fetch r =
     (case r of (name, remote) \<Rightarrow>
        let (fetched, error) = (case fetch remote of Inr rs \<Rightarrow> (rs, None) | Inl err \<Rightarrow> ([], Some err));
            found = filter (resource_kept E filters type_filter name) fetched;
            shown = (case view of Some v \<Rightarrow> filter (view_resource_matches v name) found | None \<Rightarrow> found)
        in if remote_allowed A auth view name \<and>
              search_matches (remote_type_matches_search_term E (remote_ty remote)) filters \<and>
              (search_is_empty filters \<or> found \<noteq> [] \<or>
               search_matches (remote_matches_search_term E name remote (Some (error = None))) filters) \<and>
              (case view of
                 Some v \<Rightarrow> shown \<noteq> [] \<or> error \<noteq> None \<and> is_remote_explicitly_included v name
               | None \<Rightarrow> True)
           then [\<lparr>rw_remote_name = name, rw_remote = remote, rw_resources = shown, rw_error = error\<rparr>]
           else [])"

definition reference_listing ::
  "match_env \<Rightarrow> 'a acl_env \<Rightarrow> list_config \<Rightarrow> (Remote \<Rightarrow> str + Resource list) \<Rightarrow> str option \<Rightarrow>
   ResourceType option \<Rightarrow> str option \<Rightarrow> 'a option option \<Rightarrow> list_error + RemoteWithResources list" where
  "reference_listing E A cfg fetch search type_filter view caller =
     res_bind (check_access A caller view) (\<lambda>auth.
     res_bind (case lc_remotes cfg of Some rs \<Rightarrow> Inr rs | None \<Rightarrow> Inl ConfigError) (\<lambda>remotes_config.
     let filters = (case search of Some s \<Rightarrow> search_from s | None \<Rightarrow> search_new)
     in res_bind (get_optional_view cfg view) (\<lambda>view1.
        res_bind (get_optional_view cfg (view_filter_from_search filters)) (\<lambda>view2.
        let view = (case view1 of Some v \<Rightarrow> Some v | None \<Rightarrow> view2)
        in Inr (concat (map (reference_entry E A auth view filters type_filter fetch) remotes_config))))))"

definition finish_view :: "ViewConfig option \<Rightarrow> RemoteWithResources \<Rightarrow> RemoteWithResources list" where
  "finish_view view r = (case view of None \<Rightarrow> [r] | Some v \<Rightarrow> (case apply_view v r of Some r' \<Rightarrow> [r'] | None \<Rightarrow> []))"

lemma listing_per_remote:
  "(case view of Some v \<Rightarrow> List.map_filter (apply_view v) (filter K (map F (filter P rs)))
    | None \<Rightarrow> filter K (map F (filter P rs))) =
   concat (map (\<lambda>r. if P r \<and> K (F r) then finish_view view (F r) else []) rs)"
  by (induction rs) (auto simp: finish_view_def map_filter_simps split: option.splits)

lemma kept_empty_filter:
  "type_filter = None \<Longrightarrow> search_is_empty filters \<Longrightarrow> filter (resource_kept E filters type_filter name) rs = rs"
  by (simp add: resource_kept_def search_matches_iff search_is_empty_def)

lemma fetch_filtered_resources:
  assumes "lower_spec (me_lower E)" and "search_wf filters"
  shows "fetch_filtered E fetch filters type_filter (is_remotes_only E filters) (name, remote) =
    \<lparr>rw_remote_name = name, rw_remote = remote,
     rw_resources = filter (resource_kept E filters type_filter name) (case fetch remote of Inr rs \<Rightarrow> rs | Inl _ \<Rightarrow> []),
     rw_error = (case fetch remote of Inr _ \<Rightarrow> None | Inl err \<Rightarrow> Some err)\<rparr>"
  using remotes_only_no_resource [OF assms, of type_filter name] kept_empty_filter [of type_filter filters E name]
  by (auto simp: fetch_filtered_def Let_def filter_empty_conv split: sum.splits)

lemma precheck_implied:
  assumes "lower_spec (me_lower E)" and "search_wf filters" and "is_remotes_only E filters"
    and "search_is_empty filters \<or> filter (resource_kept E filters type_filter name) rs \<noteq> [] \<or>
      search_matches (remote_matches_search_term E name remote (Some online)) filters"
  shows "search_matches (remote_matches_search_term E name remote None) filters"
proof -
  have "filter (resource_kept E filters type_filter name) rs = []"
    using remotes_only_no_resource [OF assms(1-3)] by (simp add: filter_empty_conv)
  with assms(4) show ?thesis
    by (auto simp: search_is_empty_def search_matches_iff dest: remote_matches_offline_mono)
qed

lemma entry_agrees:
  assumes "lower_spec (me_lower E)" and "search_wf filters"
  shows "(let x = fetch_filtered E fetch filters type_filter (is_remotes_only E filters) r
          in if remote_selected E A auth view filters (is_remotes_only E filters) r \<and> keep_remote E filters x
             then finish_view view x else []) =
         reference_entry E A auth view filters type_filter fetch r"
proof (cases r)
  case (Pair name remote)
  define rs where "rs = (case fetch remote of Inr rs \<Rightarrow> rs | Inl _ \<Rightarrow> [])"
  define err where "err = (case fetch remote of Inr _ \<Rightarrow> None | Inl err \<Rightarrow> Some err)"
  define found where "found = filter (resource_kept E filters type_filter name) rs"
  have fetched: "(case fetch remote of Inr rs \<Rightarrow> (rs, None) | Inl err \<Rightarrow> ([], Some err)) = (rs, err)"
    by (simp add: rs_def err_def split: sum.split)
  have x: "fetch_filtered E fetch filters type_filter (is_remotes_only E filters) (name, remote) =
      \<lparr>rw_remote_name = name, rw_remote = remote, rw_resources = found, rw_error = err\<rparr>"
    by (simp add: fetch_filtered_resources [OF assms] rs_def err_def found_def)
  have pre: "search_matches (remote_matches_search_term E name remote None) filters"
    if "is_remotes_only E filters" "search_is_empty filters \<or> found \<noteq> [] \<or>
      search_matches (remote_matches_search_term E name remote (Some (err = None))) filters"
    using precheck_implied [OF assms that(1)] that(2) unfolding found_def by blast
  show ?thesis
  proof (cases view)
    case None
    with pre show ?thesis
      by (auto simp: Pair x Let_def reference_entry_def fetched found_def [symmetric] remote_selected_def
          keep_remote_def finish_view_def remote_allowed_def split: option.splits)
  next
    case (Some v)
    have skip: "filter (view_resource_matches v name) found = []" "\<not> is_remote_explicitly_included v name"
      if "can_skip_remote v name"
      using can_skip_no_match [OF that] can_skip_not_explicit [OF that]
      by (auto simp: filter_empty_conv view_resource_matches_def)
    with Some pre show ?thesis
      by (auto simp: Pair x Let_def reference_entry_def fetched found_def [symmetric] remote_selected_def
          keep_remote_def finish_view_def remote_allowed_def apply_view_def simp del: filter_filter)
  qed
qed

section \<open>Properties\<close>

text \<open>
  C31. The shortcuts of the listing change nothing: skipping remotes that a view cannot match, skipping
  remotes early when a search asks for remotes only, and dropping the resources in that case give the same
  answer, errors included, as fetching every remote and testing every resource against the type filter,
  the search and the view. The hypothesis says that lower-casing treats ASCII letters as documented and
  makes no text empty.
\<close>

theorem listing_shortcuts_sound:
  assumes "lower_spec (me_lower E)"
  shows "get_resources_impl E A cfg fetch search type_filter view caller =
         reference_listing E A cfg fetch search type_filter view caller"
proof -
  have wf: "search_wf (case search of Some s \<Rightarrow> search_from s | None \<Rightarrow> search_new)"
    by (simp add: search_wf_from search_wf_new split: option.split)
  show ?thesis
    unfolding get_resources_impl_def reference_listing_def Let_def listing_per_remote
    by (simp only: entry_agrees [OF assms wf, unfolded Let_def])
qed

definition ascii_match_env :: match_env where
  "ascii_match_env =
     \<lparr>me_lower = map ascii_lower_char, me_parse_boolean = (\<lambda>s. if s = ''true'' then Some True else Some False),
      me_network_type = (\<lambda>_. ''zone'')\<rparr>"

lemma lower_spec_ascii: "lower_spec (me_lower ascii_match_env)"
  by (simp add: lower_spec_def ascii_match_env_def)

definition sample_list_config :: list_config where
  "sample_list_config =
     \<lparr>lc_remotes = Some [(''r1'', \<lparr>remote_ty = Pve, remote_id = ''r1''\<rparr>), (''r2'', \<lparr>remote_ty = Pve, remote_id = ''r2''\<rparr>)],
      lc_views = Some [(''all'', sample_view\<lparr>view_include_all := Some True, view_exclude := []\<rparr>)]\<rparr>"

definition sample_fetch :: "Remote \<Rightarrow> str + Resource list" where
  "sample_fetch r = Inr [PveNode (the (map_pve_node (remote_id r) sample_cluster_node))]"

text \<open>A user with the audit privilege on one remote and on nothing else.\<close>

definition sample_acl :: "unit acl_env" where
  "sample_acl =
     \<lparr>acl_check_privs = (\<lambda>_ path privs partial. path = [''resource'', ''r1'']),
      acl_any_privs_below = (\<lambda>_ path privs. Some (path = [''resource''])),
      acl_lookup_privs = (\<lambda>_ path. if path = [''resource'', ''r1''] then PRIV_RESOURCE_AUDIT else 0)\<rparr>"

theorem listing_shortcuts_sound_witness:
  "map_sum id (map rw_remote_name)
     (reference_listing ascii_match_env sample_acl sample_list_config sample_fetch (Some ''type:remote'') None None None) =
   Inr [''r1'', ''r2'']"
proof -
  have "map_sum id (map rw_remote_name)
      (get_resources_impl ascii_match_env sample_acl sample_list_config sample_fetch (Some ''type:remote'') None None None) =
      Inr [''r1'', ''r2'']"
    by code_simp
  then show ?thesis
    using listing_shortcuts_sound [OF lower_spec_ascii, of sample_acl sample_list_config sample_fetch
        "Some ''type:remote''" None None None] by simp
qed

text \<open>
  C5. What the permission checks of the listing ensure. A call through the API is answered only for a
  caller with an authentication id who may audit the requested view or, without one, something below
  \<^verbatim>\<open>/resource\<close>. If no view is requested and the search names none, all listed remotes are ones the caller
  may audit; if a view is requested, every listed resource is in it.
\<close>

theorem listing_authorized:
  assumes "get_resources_impl E A cfg fetch search type_filter view (Some caller) = Inr out"
  shows "\<exists>auth_id. caller = Some auth_id \<and>
    (case view of
       Some i \<Rightarrow> acl_check_privs A auth_id [''view'', i] PRIV_RESOURCE_AUDIT False \<and>
         (\<exists>v. get_view cfg i = Inr v \<and>
           (\<forall>r \<in> set out. \<forall>res \<in> set (rw_resources r). view_resource_matches v (rw_remote_name r) res))
     | None \<Rightarrow> acl_any_privs_below A auth_id [''resource''] PRIV_RESOURCE_AUDIT = Some True \<and>
         (view_filter_from_search (case search of Some s \<Rightarrow> search_from s | None \<Rightarrow> search_new) = None \<longrightarrow>
           (\<forall>r \<in> set out. acl_lookup_privs A auth_id [''resource'', rw_remote_name r] AND PRIV_RESOURCE_AUDIT \<noteq> 0)))"
proof -
  define filters where "filters = (case search of Some s \<Rightarrow> search_from s | None \<Rightarrow> search_new)"
  from assms obtain auth where access: "check_access A (Some caller) view = Inr auth"
    by (auto simp: get_resources_impl_def res_bind_def split: sum.splits)
  then obtain auth_id where auth: "caller = Some auth_id" "auth = Some auth_id"
    by (auto simp: check_access_def split: option.splits if_splits)
  from assms access obtain view1 view2 rs where views: "get_optional_view cfg view = Inr view1"
    "get_optional_view cfg (view_filter_from_search filters) = Inr view2"
    and out: "out = (let v = (case view1 of Some v \<Rightarrow> Some v | None \<Rightarrow> view2);
        results = filter (keep_remote E filters)
          (map (fetch_filtered E fetch filters type_filter (is_remotes_only E filters))
            (filter (remote_selected E A auth v filters (is_remotes_only E filters)) rs))
      in case v of Some v \<Rightarrow> List.map_filter (apply_view v) results | None \<Rightarrow> results)"
    by (auto simp: get_resources_impl_def res_bind_def Let_def filters_def split: sum.splits option.splits)
  show ?thesis
  proof (cases view)
    case None
    with views have "view1 = None" by (simp add: get_optional_view_def)
    moreover have "view2 = None" if "view_filter_from_search filters = None"
      using views(2) that by (simp add: get_optional_view_def)
    ultimately have "acl_lookup_privs A auth_id [''resource'', rw_remote_name r] AND PRIV_RESOURCE_AUDIT \<noteq> 0"
      if "view_filter_from_search filters = None" "r \<in> set out" for r
      using that out auth(2) by (auto simp: remote_selected_def fetch_filtered_def Let_def split: prod.splits)
    with None access auth show ?thesis
      by (auto simp: check_access_def filters_def split: if_splits)
  next
    case (Some i)
    with views(1) obtain v where v: "get_view cfg i = Inr v" "view1 = Some v"
      by (cases "get_view cfg i") (auto simp: get_optional_view_def)
    have "view_resource_matches v (rw_remote_name r) res" if "r \<in> set out" "res \<in> set (rw_resources r)" for r res
      using that out v(2) by (auto simp: set_map_filter apply_view_def Let_def split: if_splits)
    with Some v access auth show ?thesis
      by (auto simp: check_access_def split: if_splits)
  qed
qed

theorem listing_authorized_witness:
  "\<exists>out. get_resources_impl ascii_match_env sample_acl sample_list_config sample_fetch None None None (Some (Some ())) = Inr out \<and>
     (\<forall>r \<in> set out. acl_lookup_privs sample_acl () [''resource'', rw_remote_name r] AND PRIV_RESOURCE_AUDIT \<noteq> 0)"
proof -
  have "\<not> isl (get_resources_impl ascii_match_env sample_acl sample_list_config sample_fetch None None None (Some (Some ())))"
    by code_simp
  then obtain out where out:
    "get_resources_impl ascii_match_env sample_acl sample_list_config sample_fetch None None None (Some (Some ())) = Inr out"
    by (metis sum.collapse(2))
  have "view_filter_from_search search_new = None" by code_simp
  with listing_authorized [OF out] out show ?thesis by auto
qed


end
