(* ===== verification/ApiCache.thy ===== *)
theory ApiCache
  imports NamespacedCache ResourceListing
begin

text \<open>
  The cache of API responses: the namespaces of \<^verbatim>\<open>server/src/api_cache.rs\<close> and the resources of remotes
  kept there, from \<^verbatim>\<open>server/src/api/resources.rs\<close>. While a remote is being asked the cache is not
  locked; \<open>meanwhile\<close> is whatever other tasks and processes do to the files in that time.
\<close>

section \<open>Namespaces\<close>

definition GLOBAL_NAMESPACE :: str where
  "GLOBAL_NAMESPACE = ''global''"

definition format_remote_namespace :: "str \<Rightarrow> str" where
  "format_remote_namespace remote = ''remote-'' @ remote"

definition read_remote :: "(str \<Rightarrow> bool) \<Rightarrow> str \<Rightarrow> str \<Rightarrow> ('c, ns_handle) ns_io" where
  "read_remote safe_id base remote = cache_read safe_id base (format_remote_namespace remote)"

definition write_remote :: "(str \<Rightarrow> bool) \<Rightarrow> str \<Rightarrow> str \<Rightarrow> ('c, ns_handle) ns_io" where
  "write_remote safe_id base remote = cache_write safe_id base (format_remote_namespace remote)"

definition read_global :: "(str \<Rightarrow> bool) \<Rightarrow> str \<Rightarrow> ('c, ns_handle) ns_io" where
  "read_global safe_id base = cache_read safe_id base GLOBAL_NAMESPACE"

definition write_global :: "(str \<Rightarrow> bool) \<Rightarrow> str \<Rightarrow> ('c, ns_handle) ns_io" where
  "write_global safe_id base = cache_write safe_id base GLOBAL_NAMESPACE"

section \<open>Cached resources\<close>

datatype api_error = CacheError ns_error | FetchError str

definition lift_cache :: "('c, 'a) ns_io \<Rightarrow> (api_error, 'c ns_fs, 'a) io" where
  "lift_cache m s = (case m s of (r, s') \<Rightarrow> (map_sum CacheError id r, s'))"

definition REMOTE_RESOURCES_CACHE_KEY :: str where
  "REMOTE_RESOURCES_CACHE_KEY = ''resources''"

record CachedResources =
  cached_resources :: "Resource list"
  cached_timestamp :: int

definition get_cached_resources ::
  "(str \<Rightarrow> bool) \<Rightarrow> (CachedResources, 'c) entry_codec \<Rightarrow> str \<Rightarrow> int \<Rightarrow> str \<Rightarrow> int \<Rightarrow> ('c, CachedResources option) ns_io" where
  "get_cached_resources safe_id C base now remote max_age =
     io_bind (read_remote safe_id base remote) (\<lambda>cache.
     io_bind (io_try (ns_get_with_max_age safe_id C now cache REMOTE_RESOURCES_CACHE_KEY max_age)) (\<lambda>r.
       io_return (case r of Inr found \<Rightarrow> found | Inl _ \<Rightarrow> None)))"

definition update_cached_resources ::
  "(str \<Rightarrow> bool) \<Rightarrow> (CachedResources, 'c) entry_codec \<Rightarrow> str \<Rightarrow> str \<Rightarrow> Resource list \<Rightarrow> int \<Rightarrow>
   ('c, CachedResources option) ns_io" where
  "update_cached_resources safe_id C base remote resources now =
     io_bind (write_remote safe_id base remote) (\<lambda>cache.
       ns_set_if_newer_with_timestamp safe_id C cache REMOTE_RESOURCES_CACHE_KEY
         \<lparr>cached_resources = resources, cached_timestamp = now\<rparr> now)"

definition await_fetch :: "((str \<rightharpoonup> 'c) \<Rightarrow> (str \<rightharpoonup> 'c)) \<Rightarrow> str + 'a \<Rightarrow> (api_error, 'c ns_fs, 'a) io" where
  "await_fetch meanwhile answer =
     io_bind (io_modify (\<lambda>s. s\<lparr>ns_files := meanwhile (ns_files s)\<rparr>)) (\<lambda>_. case answer of Inl err \<Rightarrow> io_fail (FetchError err) | Inr x \<Rightarrow> io_return x)"

definition get_resources_for_remote ::
  "(str \<Rightarrow> bool) \<Rightarrow> (CachedResources, 'c) entry_codec \<Rightarrow> str \<Rightarrow> int \<Rightarrow> int \<Rightarrow>
   ((str \<rightharpoonup> 'c) \<Rightarrow> (str \<rightharpoonup> 'c)) \<Rightarrow>
   str + Resource list \<Rightarrow> Remote \<Rightarrow> int \<Rightarrow> (api_error, 'c ns_fs, Resource list) io" where
  "get_resources_for_remote safe_id C base start now meanwhile answer remote max_age =
     io_bind (lift_cache (get_cached_resources safe_id C base start (remote_id remote) max_age)) (\<lambda>cached.
       case cached of
         Some c \<Rightarrow> io_return (cached_resources c)
       | None \<Rightarrow>
           io_bind (await_fetch meanwhile answer) (\<lambda>resources.
           io_bind (lift_cache (update_cached_resources safe_id C base (remote_id remote) resources now)) (\<lambda>existing.
             io_return (case existing of Some e \<Rightarrow> cached_resources e | None \<Rightarrow> resources))))"

section \<open>Lemmas\<close>

lemma remote_namespace_inj: "format_remote_namespace a = format_remote_namespace b \<longleftrightarrow> a = b"
  by (simp add: format_remote_namespace_def)

lemma remote_namespace_not_global: "format_remote_namespace a \<noteq> GLOBAL_NAMESPACE"
  by (simp add: format_remote_namespace_def GLOBAL_NAMESPACE_def)

lemma cache_read_cases:
  assumes "cache_read safe_id base ns s = (Inr h, s')"
  shows "safe_id ns \<and> h = \<lparr>nh_namespace = ns, nh_base = base\<rparr> \<and> ns_files s' = ns_files s"
  using assms
  by (cases rule: ns_sys_cases [of "\<lambda>_. ()" "\<lambda>s. s" s])
    (auto simp: cache_read_def ensure_valid_namespace_def lock_namespace_def io_bind_def io_return_def io_fail_def
      split: if_splits)

lemma cache_write_read: "cache_write = cache_read"
  by (intro ext) (simp add: cache_write_def cache_read_def)

lemma get_with_max_age_cases:
  assumes "ns_get_with_max_age safe_id C now h key max_age s = (r, s')"
  shows "ns_files s' = ns_files s \<and>
    (\<forall>v. r = Inr (Some v) \<longrightarrow> (\<exists>e. entry_at C (nh_base h) s (nh_namespace h, key) = Some e \<and> ce_value e = v \<and>
       \<not> is_expired e now max_age))"
proof -
  let ?path = "get_path (nh_base h) (nh_namespace h) key"
  obtain q s1 where get: "get_from_path C now ?path (Some max_age) s = (q, s1)"
    by (cases "get_from_path C now ?path (Some max_age) s")
  have "ns_files s1 = ns_files s \<and> (\<forall>e. q = Inr (Some e) \<longrightarrow>
      entry_at C (nh_base h) s (nh_namespace h, key) = Some e \<and> \<not> is_expired e now max_age)"
    using get
    by (cases rule: ns_sys_cases [of "\<lambda>s. ns_files s ?path" "\<lambda>s. s" s])
      (auto simp: get_from_path_def io_bind_def io_return_def io_fail_def entry_at_def split: option.splits if_splits)
  with assms get show ?thesis
    by (auto simp: ns_get_with_max_age_def get_impl_def ensure_valid_key_def io_bind_def io_return_def io_fail_def
        split: if_splits sum.splits prod.splits)
qed

lemma get_cached_cases:
  assumes "get_cached_resources safe_id C base now remote max_age s = (r, s')"
  shows "ns_files s' = ns_files s \<or> isl r"
    and "r = Inr (Some c) \<Longrightarrow> \<exists>e. entry_at C base s (format_remote_namespace remote, REMOTE_RESOURCES_CACHE_KEY) = Some e \<and>
      ce_value e = c \<and> \<not> is_expired e now max_age"
proof -
  obtain q s1 where read: "cache_read safe_id base (format_remote_namespace remote) s = (q, s1)"
    by (cases "cache_read safe_id base (format_remote_namespace remote) s")
  have "(ns_files s' = ns_files s \<or> isl r) \<and> (r = Inr (Some c) \<longrightarrow>
    (\<exists>e. entry_at C base s (format_remote_namespace remote, REMOTE_RESOURCES_CACHE_KEY) = Some e \<and>
      ce_value e = c \<and> \<not> is_expired e now max_age))"
  proof (cases q)
    case (Inl e)
    with assms read show ?thesis by (auto simp: get_cached_resources_def read_remote_def io_bind_def)
  next
    case (Inr h)
    from cache_read_cases [OF read [unfolded Inr]]
    have h: "h = \<lparr>nh_namespace = format_remote_namespace remote, nh_base = base\<rparr>" and s1: "ns_files s1 = ns_files s"
      by simp_all
    obtain g s2 where g: "ns_get_with_max_age safe_id C now h REMOTE_RESOURCES_CACHE_KEY max_age s1 = (g, s2)"
      by (cases "ns_get_with_max_age safe_id C now h REMOTE_RESOURCES_CACHE_KEY max_age s1")
    have "r = Inr (case g of Inr found \<Rightarrow> found | Inl _ \<Rightarrow> None)" "s' = s2"
      using assms read Inr g
      by (simp_all add: get_cached_resources_def read_remote_def io_bind_def io_try_def io_return_def)
    moreover have "entry_at C base s1 = entry_at C base s" using s1 by (simp add: entry_at_def fun_eq_iff)
    ultimately show ?thesis
      using get_with_max_age_cases [OF g] s1 h by (auto split: sum.splits)
  qed
  then show "ns_files s' = ns_files s \<or> isl r"
    and "r = Inr (Some c) \<Longrightarrow> \<exists>e. entry_at C base s (format_remote_namespace remote, REMOTE_RESOURCES_CACHE_KEY) = Some e \<and>
      ce_value e = c \<and> \<not> is_expired e now max_age"
    by blast+
qed

lemma update_cached_cases:
  assumes "update_cached_resources safe_id C base remote resources now s = (Inr r, s')"
    and ok: "usable safe_id C (format_remote_namespace remote, REMOTE_RESOURCES_CACHE_KEY)"
  defines "k \<equiv> (format_remote_namespace remote, REMOTE_RESOURCES_CACHE_KEY)"
  shows "(\<exists>e. entry_at C base s k = Some e \<and> now < ce_timestamp e \<and> r = Some (ce_value e)) \<or>
         (r = None \<and> entry_at C base s' k =
            Some \<lparr>ce_timestamp = now, ce_value = \<lparr>cached_resources = resources, cached_timestamp = now\<rparr>\<rparr>)"
proof -
  let ?v = "\<lparr>cached_resources = resources, cached_timestamp = now\<rparr>"
  obtain q s1 where read: "cache_read safe_id base (format_remote_namespace remote) s = (q, s1)"
    by (cases "cache_read safe_id base (format_remote_namespace remote) s")
  with assms(1) obtain h where h': "q = Inr h"
    by (cases q) (auto simp: update_cached_resources_def write_remote_def cache_write_read io_bind_def)
  from cache_read_cases [OF read [unfolded h']]
  have h: "h = \<lparr>nh_namespace = format_remote_namespace remote, nh_base = base\<rparr>" and s1: "ns_files s1 = ns_files s"
    by simp_all
  have run: "set_if_newer_impl safe_id C h REMOTE_RESOURCES_CACHE_KEY ?v now s1 = (Inr r, s')"
    using assms(1) read h'
    by (simp add: update_cached_resources_def write_remote_def cache_write_read io_bind_def ns_set_if_newer_with_timestamp_def)
  have key: "safe_id REMOTE_RESOURCES_CACHE_KEY" using ok by (simp add: usable_def)
  have at: "entry_at C base s1 k = entry_at C base s k" using s1 by (simp add: entry_at_def)
  from key run show ?thesis
  proof (cases rule: set_if_newer_cases)
    case (kept e)
    with h at show ?thesis by (auto simp: k_def)
  next
    case (written c)
    then have "entry_at C base s' k = from_entry C c" using h by (simp add: entry_at_def k_def)
    moreover have "from_entry C c = Some \<lparr>ce_timestamp = now, ce_value = ?v\<rparr>"
      using ok written(3) unfolding usable_def total_codec_def by (metis option.inject)
    ultimately show ?thesis using written by simp
  qed simp
qed

section \<open>Properties\<close>

text \<open>
  C34. The resources that are shown for a remote are recent, whatever calls fail and whatever other
  processes do to the cache meanwhile: they are a cached answer that has not expired, or the answer just
  fetched, which is then what the cache holds, or an answer that another process stored with a later
  timestamp in the meantime.
\<close>

theorem resources_are_recent:
  assumes "usable safe_id C (format_remote_namespace (remote_id remote), REMOTE_RESOURCES_CACHE_KEY)"
    and "get_resources_for_remote safe_id C base start now meanwhile answer remote max_age s = (Inr resources, s')"
  shows "(\<exists>e. entry_at C base s (format_remote_namespace (remote_id remote), REMOTE_RESOURCES_CACHE_KEY) = Some e \<and>
            \<not> is_expired e start max_age \<and> resources = cached_resources (ce_value e)) \<or>
         (answer = Inr resources \<and>
          entry_at C base s' (format_remote_namespace (remote_id remote), REMOTE_RESOURCES_CACHE_KEY) =
            Some \<lparr>ce_timestamp = now, ce_value = \<lparr>cached_resources = resources, cached_timestamp = now\<rparr>\<rparr>) \<or>
         (\<exists>e. entry_at C base (s\<lparr>ns_files := meanwhile (ns_files s)\<rparr>) (format_remote_namespace (remote_id remote), REMOTE_RESOURCES_CACHE_KEY) = Some e \<and>
            now < ce_timestamp e \<and> resources = cached_resources (ce_value e))"
proof -
  let ?k = "(format_remote_namespace (remote_id remote), REMOTE_RESOURCES_CACHE_KEY)"
  obtain q s1 where get: "get_cached_resources safe_id C base start (remote_id remote) max_age s = (q, s1)"
    by (cases "get_cached_resources safe_id C base start (remote_id remote) max_age s")
  with assms(2) obtain cached where q: "q = Inr cached"
    by (cases q) (auto simp: get_resources_for_remote_def io_bind_def lift_cache_def)
  show ?thesis
  proof (cases cached)
    case (Some c)
    have "resources = cached_resources c"
      using assms(2) get q Some by (simp add: get_resources_for_remote_def io_bind_def lift_cache_def io_return_def)
    with get_cached_cases(2) [OF get] q Some show ?thesis by blast
  next
    case None
    let ?s = "s\<lparr>ns_files := meanwhile (ns_files s)\<rparr>" and ?s1 = "s1\<lparr>ns_files := meanwhile (ns_files s1)\<rparr>"
    have files: "ns_files s1 = ns_files s" using get_cached_cases(1) [OF get] q by simp
    obtain fetched where answer: "answer = Inr fetched"
      using assms(2) get q None
      by (cases answer) (auto simp: get_resources_for_remote_def await_fetch_def io_bind_def io_modify_def io_fail_def lift_cache_def)
    obtain u s2 where upd: "update_cached_resources safe_id C base (remote_id remote) fetched now ?s1 = (u, s2)"
      by (cases "update_cached_resources safe_id C base (remote_id remote) fetched now ?s1")
    have run: "(case map_sum CacheError id u of Inl e \<Rightarrow> (Inl e, s2)
        | Inr existing \<Rightarrow> (Inr (case existing of Some e \<Rightarrow> cached_resources e | None \<Rightarrow> fetched), s2)) = (Inr resources, s')"
      using assms(2) get q None answer upd
      by (simp add: get_resources_for_remote_def await_fetch_def io_bind_def io_modify_def io_return_def lift_cache_def
          split: sum.splits)
    then obtain existing where u: "u = Inr existing" "s2 = s'"
      "resources = (case existing of Some e \<Rightarrow> cached_resources e | None \<Rightarrow> fetched)"
      by (cases u) auto
    have "entry_at C base ?s1 ?k = entry_at C base ?s ?k" using files by (simp add: entry_at_def)
    with update_cached_cases [OF upd [unfolded u(1)] assms(1)] u answer show ?thesis by auto
  qed
qed

definition sample_remote :: Remote where
  "sample_remote = \<lparr>remote_ty = Pve, remote_id = ''a''\<rparr>"

theorem resources_are_recent_witness:
  "\<exists>s'. get_resources_for_remote ascii_safe_id id_codec ''/cache'' 100 101 id (Inr []) sample_remote 30
          \<lparr>ns_files = Map.empty, ns_faults = []\<rparr> = (Inr [], s') \<and>
        entry_at id_codec ''/cache'' s' (format_remote_namespace ''a'', REMOTE_RESOURCES_CACHE_KEY) =
          Some \<lparr>ce_timestamp = 101, ce_value = \<lparr>cached_resources = [], cached_timestamp = 101\<rparr>\<rparr>"
proof -
  let ?s = "\<lparr>ns_files = Map.empty, ns_faults = []\<rparr> :: CachedResources cache_entry ns_fs"
  have "fst (get_resources_for_remote ascii_safe_id id_codec ''/cache'' 100 101 id (Inr []) sample_remote 30 ?s) = Inr []"
    by code_simp
  then obtain s' where run:
    "get_resources_for_remote ascii_safe_id id_codec ''/cache'' 100 101 id (Inr []) sample_remote 30 ?s = (Inr [], s')"
    by (metis prod.collapse)
  have "ascii_safe_id ''remote-a''" "ascii_safe_id REMOTE_RESOURCES_CACHE_KEY" by code_simp+
  then have ok: "usable ascii_safe_id (id_codec :: (CachedResources, CachedResources cache_entry) entry_codec)
      (format_remote_namespace (remote_id sample_remote), REMOTE_RESOURCES_CACHE_KEY)"
    by (intro usable_id_codec) (simp_all add: format_remote_namespace_def sample_remote_def)
  have "entry_at id_codec ''/cache'' ?s k = None" for k by (simp add: entry_at_def)
  with resources_are_recent [OF ok run] run show ?thesis by (auto simp: sample_remote_def)
qed

end
