(* ===== verification/ViewsConfig.thy ===== *)
theory ViewsConfig
  imports Views
begin

text \<open>
  The API of the view configuration, \<^verbatim>\<open>server/src/api/config/views.rs\<close> over \<^verbatim>\<open>lib/pdm-config/src/views.rs\<close>.
  The configuration file is its text with the sections parsed from it, in order. Parameters, bundled in
  \<open>views_env\<close>: the section-config writer, the digest of a text, the comparison of digests, the JSON parser of
  dashboard templates and the access check. \<open>vf_faults\<close> says which of the coming calls that lock, read or replace the file fail; a failing
  call changes nothing.
\<close>

section \<open>The configuration file\<close>

record 'd views_env =
  ve_write :: "(str, ViewConfig) alist \<Rightarrow> str"
  ve_digest :: "str \<Rightarrow> 'd"
  ve_modified :: "'d \<Rightarrow> 'd option \<Rightarrow> bool"
  ve_parse_template :: "str \<Rightarrow> ViewTemplate option"

record views_file =
  vf_text :: str
  vf_views :: "(str, ViewConfig) alist"
  vf_faults :: "bool list"

datatype view_error =
    ViewIo
  | ConfigModified
  | UnknownWidgets
  | InvalidLayout
  | ViewExists str
  | NoSuchView str

type_synonym 'a views_io = "(view_error, views_file, 'a) io"

definition views_sys :: "(views_file \<Rightarrow> 'a) \<Rightarrow> (views_file \<Rightarrow> views_file) \<Rightarrow> 'a views_io" where
  "views_sys r w s =
     (case vf_faults s of
        [] \<Rightarrow> (Inr (r s), w s)
      | f # fs \<Rightarrow> let s' = s\<lparr>vf_faults := fs\<rparr> in if f then (Inl ViewIo, s') else (Inr (r s'), w s'))"

definition views_config :: "'d views_env \<Rightarrow> ((str, ViewConfig) alist \<times> 'd) views_io" where
  "views_config E = views_sys (\<lambda>s. (vf_views s, ve_digest E (vf_text s))) (\<lambda>s. s)"

definition lock_config :: "unit views_io" where
  "lock_config = views_sys (\<lambda>_. ()) (\<lambda>s. s)"

definition save_config :: "'d views_env \<Rightarrow> (str, ViewConfig) alist \<Rightarrow> unit views_io" where
  "save_config E config = views_sys (\<lambda>_. ()) (\<lambda>s. s\<lparr>vf_text := ve_write E config, vf_views := config\<rparr>)"

section \<open>Operations\<close>

definition detect_modification :: "'d views_env \<Rightarrow> 'd \<Rightarrow> 'd option \<Rightarrow> unit views_io" where
  "detect_modification E current digest = (if ve_modified E current digest then io_fail ConfigModified else io_return ())"

definition check_layout :: "'d views_env \<Rightarrow> str \<Rightarrow> unit views_io" where
  "check_layout E layout =
     (if layout \<noteq> [] then
        (case ve_parse_template E layout of
           Some t \<Rightarrow> if has_unknown_widgets (vt_layout t) then io_fail UnknownWidgets else io_return ()
         | None \<Rightarrow> io_fail InvalidLayout)
      else io_return ())"

definition get_views :: "'d views_env \<Rightarrow> (str list \<Rightarrow> bool) \<Rightarrow> (ViewConfig list \<times> 'd) views_io" where
  "get_views E may_audit =
     io_bind (views_config E) (\<lambda>(config, digest).
       let top_level_allowed = may_audit [''view'']
       in io_return
            (List.map_filter
               (\<lambda>(view, conf). if \<not> top_level_allowed \<and> \<not> may_audit [''view'', view] then None else Some conf) config,
             digest))"

definition add_view :: "'d views_env \<Rightarrow> ViewConfig \<Rightarrow> 'd option \<Rightarrow> unit views_io" where
  "add_view E view digest =
     io_bind lock_config (\<lambda>_.
     io_bind (views_config E) (\<lambda>(config, config_digest).
     io_bind (detect_modification E config_digest digest) (\<lambda>_.
     io_bind (check_layout E (view_layout view)) (\<lambda>_.
       if al_get config (view_id view) \<noteq> None then io_fail (ViewExists (view_id view))
       else save_config E (al_put (view_id view) view config)))))"

datatype DeletableProperty = DelInclude | DelExclude | DelLayout | DelIncludeAll

fun delete_property :: "DeletableProperty \<Rightarrow> ViewConfig \<Rightarrow> ViewConfig" where
  "delete_property DelInclude conf = conf\<lparr>view_include := []\<rparr>"
| "delete_property DelExclude conf = conf\<lparr>view_exclude := []\<rparr>"
| "delete_property DelLayout conf = conf\<lparr>view_layout := []\<rparr>"
| "delete_property DelIncludeAll conf = conf\<lparr>view_include_all := None\<rparr>"

record ViewConfigUpdater =
  up_include_all :: "bool option"
  up_include :: "FilterRule list option"
  up_exclude :: "FilterRule list option"
  up_layout :: "str option"

definition update_fields :: "ViewConfigUpdater \<Rightarrow> ViewConfig \<Rightarrow> ViewConfig" where
  "update_fields u conf =
     (let conf = (case up_include u of Some include \<Rightarrow> conf\<lparr>view_include := include\<rparr> | None \<Rightarrow> conf);
          conf = (case up_exclude u of Some exclude \<Rightarrow> conf\<lparr>view_exclude := exclude\<rparr> | None \<Rightarrow> conf)
      in if up_include_all u \<noteq> None then conf\<lparr>view_include_all := up_include_all u\<rparr> else conf)"

definition update_view ::
  "'d views_env \<Rightarrow> str \<Rightarrow> ViewConfigUpdater \<Rightarrow> DeletableProperty list option \<Rightarrow> 'd option \<Rightarrow> unit views_io" where
  "update_view E i view delete digest =
     io_bind lock_config (\<lambda>_.
     io_bind (views_config E) (\<lambda>(config, config_digest).
     io_bind (detect_modification E config_digest digest) (\<lambda>_.
       case al_get config i of
         None \<Rightarrow> io_fail (NoSuchView i)
       | Some conf \<Rightarrow>
           let conf = (case delete of Some ps \<Rightarrow> fold delete_property ps conf | None \<Rightarrow> conf);
               conf = update_fields view conf
           in case up_layout view of
                Some layout \<Rightarrow>
                  io_bind (check_layout E layout) (\<lambda>_. save_config E (al_put i (conf\<lparr>view_layout := layout\<rparr>) config))
              | None \<Rightarrow> save_config E (al_put i conf config))))"

definition remove_view :: "'d views_env \<Rightarrow> str \<Rightarrow> 'd option \<Rightarrow> unit views_io" where
  "remove_view E i digest =
     io_bind lock_config (\<lambda>_.
     io_bind (views_config E) (\<lambda>(config, config_digest).
     io_bind (detect_modification E config_digest digest) (\<lambda>_.
       case al_get config i of
         Some _ \<Rightarrow> save_config E (al_del i config)
       | None \<Rightarrow> io_fail (NoSuchView i))))"

definition read_view :: "'d views_env \<Rightarrow> str \<Rightarrow> (ViewConfig \<times> 'd) views_io" where
  "read_view E i =
     io_bind (views_config E) (\<lambda>(config, digest).
       case al_get config i of
         Some view \<Rightarrow> io_return (view, digest)
       | None \<Rightarrow> io_fail (NoSuchView i))"

section \<open>Invariant of the file\<close>

text \<open>Section names are unique and are the ids of the views in them; a stored dashboard layout is one
  that the server knows.\<close>

definition layout_ok :: "'d views_env \<Rightarrow> str \<Rightarrow> bool" where
  "layout_ok E layout \<longleftrightarrow>
     layout = [] \<or> (\<exists>t. ve_parse_template E layout = Some t \<and> \<not> has_unknown_widgets (vt_layout t))"

definition views_ok :: "'d views_env \<Rightarrow> (str, ViewConfig) alist \<Rightarrow> bool" where
  "views_ok E config \<longleftrightarrow>
     al_keys_distinct config \<and> (\<forall>(i, v) \<in> set config. view_id v = i \<and> layout_ok E (view_layout v))"

lemma check_layout_Inr: "check_layout E layout s = (Inr (), s') \<longleftrightarrow> layout_ok E layout \<and> s' = s"
  by (auto simp: check_layout_def layout_ok_def io_fail_def io_return_def split: option.splits)

lemma check_layout_state: "snd (check_layout E layout s) = s"
  by (auto simp: check_layout_def io_fail_def io_return_def split: option.splits)

lemma fold_delete_id: "view_id (fold delete_property ps conf) = view_id conf"
proof (induction ps arbitrary: conf)
  case (Cons p ps)
  then show ?case by (cases p) simp_all
qed simp

lemma fold_delete_layout: "layout_ok E (view_layout conf) \<Longrightarrow> layout_ok E (view_layout (fold delete_property ps conf))"
proof (induction ps arbitrary: conf)
  case (Cons p ps)
  then show ?case by (cases p) (simp_all add: layout_ok_def)
qed simp

lemma update_fields_keeps [simp]:
  "view_id (update_fields u conf) = view_id conf" "view_layout (update_fields u conf) = view_layout conf"
  by (simp_all add: update_fields_def Let_def split: option.splits)

lemma views_ok_put: "views_ok E config \<Longrightarrow> view_id v = i \<Longrightarrow> layout_ok E (view_layout v) \<Longrightarrow> views_ok E (al_put i v config)"
  by (auto simp: views_ok_def al_keys_distinct_put al.items_put)

lemma views_ok_del: "views_ok E config \<Longrightarrow> views_ok E (al_del i config)"
  by (auto simp: views_ok_def al_del_def al_keys_distinct_filter)

lemma views_ok_get: "views_ok E config \<Longrightarrow> al_get config i = Some v \<Longrightarrow> view_id v = i \<and> layout_ok E (view_layout v)"
  by (auto simp: views_ok_def dest: map_of_SomeD)

lemma views_sys_cases:
  obtains fs where "views_sys r w s = (Inl ViewIo, s\<lparr>vf_faults := fs\<rparr>)"
  | fs where "views_sys r w s = (Inr (r (s\<lparr>vf_faults := fs\<rparr>)), w (s\<lparr>vf_faults := fs\<rparr>))"
proof (cases "vf_faults s")
  case Nil
  then have "views_sys r w s = (Inr (r (s\<lparr>vf_faults := []\<rparr>)), w (s\<lparr>vf_faults := []\<rparr>))"
    by (cases s) (simp add: views_sys_def)
  then show ?thesis by (rule that(2))
next
  case (Cons f fs)
  then show ?thesis using that by (cases f) (auto simp: views_sys_def Let_def)
qed

section \<open>Specification of the changes\<close>

datatype view_op =
    AddView ViewConfig
  | UpdateView str ViewConfigUpdater "DeletableProperty list option"
  | RemoveView str

primrec run_view_op :: "'d views_env \<Rightarrow> 'd option \<Rightarrow> view_op \<Rightarrow> unit views_io" where
  "run_view_op E digest (AddView v) = add_view E v digest"
| "run_view_op E digest (UpdateView i u ps) = update_view E i u ps digest"
| "run_view_op E digest (RemoveView i) = remove_view E i digest"

text \<open>What a change does to the sections, as a pure function.\<close>

definition layout_error :: "'d views_env \<Rightarrow> str \<Rightarrow> view_error" where
  "layout_error E layout = (if ve_parse_template E layout = None then InvalidLayout else UnknownWidgets)"

definition updated_view :: "ViewConfigUpdater \<Rightarrow> DeletableProperty list option \<Rightarrow> ViewConfig \<Rightarrow> ViewConfig" where
  "updated_view u ps conf =
     \<lparr>view_id = view_id conf,
      view_include_all =
        (if up_include_all u \<noteq> None then up_include_all u
         else if DelIncludeAll \<in> set (case ps of Some xs \<Rightarrow> xs | None \<Rightarrow> []) then None else view_include_all conf),
      view_include =
        (case up_include u of
           Some x \<Rightarrow> x
         | None \<Rightarrow> if DelInclude \<in> set (case ps of Some xs \<Rightarrow> xs | None \<Rightarrow> []) then [] else view_include conf),
      view_exclude =
        (case up_exclude u of
           Some x \<Rightarrow> x
         | None \<Rightarrow> if DelExclude \<in> set (case ps of Some xs \<Rightarrow> xs | None \<Rightarrow> []) then [] else view_exclude conf),
      view_layout =
        (case up_layout u of
           Some x \<Rightarrow> x
         | None \<Rightarrow> if DelLayout \<in> set (case ps of Some xs \<Rightarrow> xs | None \<Rightarrow> []) then [] else view_layout conf)\<rparr>"

primrec view_op_spec :: "'d views_env \<Rightarrow> view_op \<Rightarrow> (str, ViewConfig) alist \<Rightarrow> view_error + (str, ViewConfig) alist" where
  "view_op_spec E (AddView v) config =
     (if \<not> layout_ok E (view_layout v) then Inl (layout_error E (view_layout v))
      else if al_get config (view_id v) \<noteq> None then Inl (ViewExists (view_id v))
      else Inr (al_put (view_id v) v config))"
| "view_op_spec E (UpdateView i u ps) config =
     (case al_get config i of
        None \<Rightarrow> Inl (NoSuchView i)
      | Some conf \<Rightarrow>
          if \<exists>l. up_layout u = Some l \<and> \<not> layout_ok E l then Inl (layout_error E (the (up_layout u)))
          else Inr (al_put i (updated_view u ps conf) config))"
| "view_op_spec E (RemoveView i) config =
     (if al_get config i = None then Inl (NoSuchView i) else Inr (al_del i config))"

definition edit_config ::
  "'d views_env \<Rightarrow> 'd option \<Rightarrow> ((str, ViewConfig) alist \<Rightarrow> view_error + (str, ViewConfig) alist) \<Rightarrow> unit views_io" where
  "edit_config E digest f =
     io_bind lock_config (\<lambda>_.
     io_bind (views_config E) (\<lambda>(config, config_digest).
     io_bind (detect_modification E config_digest digest) (\<lambda>_.
       case f config of Inl e \<Rightarrow> io_fail e | Inr config' \<Rightarrow> save_config E config')))"

lemma fold_delete_eq:
  "fold delete_property ps conf =
     \<lparr>view_id = view_id conf,
      view_include_all = (if DelIncludeAll \<in> set ps then None else view_include_all conf),
      view_include = (if DelInclude \<in> set ps then [] else view_include conf),
      view_exclude = (if DelExclude \<in> set ps then [] else view_exclude conf),
      view_layout = (if DelLayout \<in> set ps then [] else view_layout conf)\<rparr>"
proof (induction ps arbitrary: conf)
  case (Cons p ps)
  then show ?case by (cases p) simp_all
qed simp

lemma updated_view_eq:
  "updated_view u ps conf =
     (let c = update_fields u (case ps of Some xs \<Rightarrow> fold delete_property xs conf | None \<Rightarrow> conf)
      in case up_layout u of Some l \<Rightarrow> c\<lparr>view_layout := l\<rparr> | None \<Rightarrow> c)"
proof -
  have "(case ps of Some xs \<Rightarrow> fold delete_property xs conf | None \<Rightarrow> conf) =
      fold delete_property (case ps of Some xs \<Rightarrow> xs | None \<Rightarrow> []) conf"
    by (simp split: option.split)
  then show ?thesis
    unfolding fold_delete_eq by (simp add: updated_view_def update_fields_def Let_def split: option.split)
qed

lemma check_layout_eq:
  "check_layout E layout = (if layout_ok E layout then io_return () else io_fail (layout_error E layout))"
  by (intro ext) (auto simp: check_layout_def layout_ok_def layout_error_def split: option.split)

lemma io_bind_return_unit: "io_bind (io_return ()) f = f ()"
  by (intro ext) (simp add: io_bind_def io_return_def)

lemma io_bind_fail: "io_bind (io_fail e) f = io_fail e"
  by (intro ext) (simp add: io_bind_def io_fail_def)

lemma edit_add:
  "io_bind (check_layout E (view_layout v)) (\<lambda>_.
     if al_get config (view_id v) \<noteq> None then io_fail (ViewExists (view_id v))
     else save_config E (al_put (view_id v) v config)) =
   (case view_op_spec E (AddView v) config of Inl e \<Rightarrow> io_fail e | Inr config' \<Rightarrow> save_config E config')"
  by (simp add: check_layout_eq io_bind_return_unit io_bind_fail)

lemma edit_update:
  "(case al_get config i of
      None \<Rightarrow> io_fail (NoSuchView i)
    | Some conf \<Rightarrow>
        let conf = (case ps of Some ps \<Rightarrow> fold delete_property ps conf | None \<Rightarrow> conf);
            conf = update_fields u conf
        in case up_layout u of
             Some layout \<Rightarrow>
               io_bind (check_layout E layout) (\<lambda>_. save_config E (al_put i (conf\<lparr>view_layout := layout\<rparr>) config))
           | None \<Rightarrow> save_config E (al_put i conf config)) =
   (case view_op_spec E (UpdateView i u ps) config of Inl e \<Rightarrow> io_fail e | Inr config' \<Rightarrow> save_config E config')"
proof (cases "al_get config i")
  case (Some conf)
  then show ?thesis
    by (cases "up_layout u") (simp_all add: check_layout_eq io_bind_return_unit io_bind_fail updated_view_eq Let_def)
qed simp

lemma run_view_op_edit: "run_view_op E digest op = edit_config E digest (view_op_spec E op)"
proof (cases op)
  case (AddView v)
  then show ?thesis by (simp only: edit_config_def run_view_op.simps add_view_def edit_add)
next
  case (UpdateView i u ps)
  then show ?thesis by (simp only: edit_config_def run_view_op.simps update_view_def edit_update)
next
  case (RemoveView i)
  have "(case al_get config i of Some _ \<Rightarrow> save_config E (al_del i config) | None \<Rightarrow> io_fail (NoSuchView i)) =
      (case view_op_spec E (RemoveView i) config of Inl e \<Rightarrow> io_fail e | Inr config' \<Rightarrow> save_config E config')" for config
    by (simp split: option.split)
  with RemoveView show ?thesis by (simp only: edit_config_def run_view_op.simps remove_view_def)
qed

lemma edit_config_cases:
  assumes "edit_config E digest f s = (r, s')"
  shows "case r of
      Inr _ \<Rightarrow> \<not> ve_modified E (ve_digest E (vf_text s)) digest \<and> f (vf_views s) = Inr (vf_views s') \<and>
        vf_text s' = ve_write E (vf_views s')
    | Inl e \<Rightarrow> vf_views s' = vf_views s \<and> vf_text s' = vf_text s \<and>
        (e = ViewIo \<or> e = ConfigModified \<and> ve_modified E (ve_digest E (vf_text s)) digest \<or> f (vf_views s) = Inl e)"
proof -
  consider fs where "lock_config s = (Inl ViewIo, s\<lparr>vf_faults := fs\<rparr>)" | fs where "lock_config s = (Inr (), s\<lparr>vf_faults := fs\<rparr>)"
    unfolding lock_config_def by (rule views_sys_cases [of "\<lambda>_. ()" "\<lambda>s. s" s]) auto
  then show ?thesis
  proof cases
    case (1 fs)
    with assms show ?thesis by (auto simp: edit_config_def io_bind_def)
  next
    case (2 fs)
    let ?s = "s\<lparr>vf_faults := fs\<rparr>"
    consider gs where "views_config E ?s = (Inl ViewIo, s\<lparr>vf_faults := gs\<rparr>)"
      | gs where "views_config E ?s = (Inr (vf_views s, ve_digest E (vf_text s)), s\<lparr>vf_faults := gs\<rparr>)"
      unfolding views_config_def
      by (rule views_sys_cases [of "\<lambda>s. (vf_views s, ve_digest E (vf_text s))" "\<lambda>s. s" ?s]) auto
    then show ?thesis
    proof cases
      case (1 gs)
      with 2 assms show ?thesis by (auto simp: edit_config_def io_bind_def)
    next
      case (2 gs)
      with \<open>lock_config s = (Inr (), ?s)\<close> assms show ?thesis
        by (cases rule: views_sys_cases [of "\<lambda>_. ()" "\<lambda>t. t\<lparr>vf_text := ve_write E (projr (f (vf_views s))), vf_views := projr (f (vf_views s))\<rparr>" "s\<lparr>vf_faults := gs\<rparr>"])
          (auto simp: edit_config_def io_bind_def detect_modification_def io_fail_def io_return_def save_config_def
            split: if_splits sum.splits)
    qed
  qed
qed

lemma view_op_spec_ok:
  assumes "views_ok E config" and "view_op_spec E op config = Inr config'"
  shows "views_ok E config'"
proof (cases op)
  case (AddView v)
  with assms show ?thesis by (auto intro: views_ok_put split: if_splits)
next
  case (UpdateView i u ps)
  with assms(2) obtain conf where conf: "al_get config i = Some conf"
    "config' = al_put i (updated_view u ps conf) config" "\<forall>l. up_layout u = Some l \<longrightarrow> layout_ok E l"
    by (auto split: option.splits if_splits)
  note old = views_ok_get [OF assms(1) conf(1)]
  have "layout_ok E []" by (simp add: layout_ok_def)
  with old conf(3) have "layout_ok E (view_layout (updated_view u ps conf))"
    by (cases "up_layout u") (simp_all add: updated_view_def)
  moreover have "view_id (updated_view u ps conf) = i" using old by (simp add: updated_view_def)
  ultimately show ?thesis unfolding conf(2) by (intro views_ok_put [OF assms(1)])
next
  case (RemoveView i)
  with assms show ?thesis by (auto intro: views_ok_del split: if_splits)
qed

section \<open>Properties\<close>

text \<open>
  C32. Adding, updating and removing views implement their specification on the list of sections, whatever
  calls fail: on success the digest of the file was accepted against that of the client, and the file holds what
  the specification makes of its former sections; on an error neither its text nor its sections are changed,
  and the error is a failing call, a modification that the digests show, or the error of the specification.
\<close>

theorem view_edits_refine:
  assumes "run_view_op E digest op s = (r, s')"
  shows "case r of
           Inr _ \<Rightarrow> \<not> ve_modified E (ve_digest E (vf_text s)) digest \<and>
             view_op_spec E op (vf_views s) = Inr (vf_views s') \<and> vf_text s' = ve_write E (vf_views s')
         | Inl e \<Rightarrow> vf_views s' = vf_views s \<and> vf_text s' = vf_text s \<and>
             (e = ViewIo \<or> e = ConfigModified \<and> ve_modified E (ve_digest E (vf_text s)) digest \<or>
              view_op_spec E op (vf_views s) = Inl e)"
  by (rule edit_config_cases [OF assms [unfolded run_view_op_edit]])

definition sample_views_env :: "str views_env" where
  "sample_views_env =
     \<lparr>ve_write = (\<lambda>config. concat (map fst config)), ve_digest = take 32,
      ve_modified = (\<lambda>d x. case x of Some d' \<Rightarrow> d \<noteq> d' | None \<Rightarrow> False), ve_parse_template = (\<lambda>_. None)\<rparr>"

definition empty_views_file :: views_file where
  "empty_views_file = \<lparr>vf_text = [], vf_views = [], vf_faults = []\<rparr>"

theorem view_edits_refine_witness:
  "view_op_spec sample_views_env (AddView sample_view) [] =
     Inr (vf_views (snd (run_view_op sample_views_env (Some []) (AddView sample_view) empty_views_file)))"
proof -
  obtain r s' where run: "run_view_op sample_views_env (Some []) (AddView sample_view) empty_views_file = (r, s')"
    by (cases "run_view_op sample_views_env (Some []) (AddView sample_view) empty_views_file")
  have "fst (run_view_op sample_views_env (Some []) (AddView sample_view) empty_views_file) = Inr ()" by code_simp
  with run have "r = Inr ()" by simp
  moreover have "vf_views empty_views_file = []" by (simp add: empty_views_file_def)
  ultimately show ?thesis using view_edits_refine [OF run] unfolding run by simp
qed

text \<open>
  C33. After any sequence of changes with any failing calls, section names are unique and are the ids of
  their views, and every stored layout is empty or one without unknown widgets.
\<close>

theorem views_file_stays_ok:
  assumes "views_ok E (vf_views s)"
  shows "views_ok E (vf_views (fold (\<lambda>(digest, op) s. snd (run_view_op E digest op s)) ops s))"
  using assms
proof (induction ops arbitrary: s)
  case (Cons a ops)
  obtain digest op where a: "a = (digest, op)" by (cases a)
  obtain r s' where run: "run_view_op E digest op s = (r, s')" by (cases "run_view_op E digest op s")
  from edit_config_cases [OF run [unfolded run_view_op_edit]] view_op_spec_ok [OF Cons.prems, of op "vf_views s'"] Cons.prems
  have "views_ok E (vf_views s')" by (auto split: sum.splits)
  with Cons.IH a run show ?case by simp
qed simp

theorem views_file_stays_ok_witness:
  "views_ok sample_views_env
     (vf_views (fold (\<lambda>(digest, op) s. snd (run_view_op sample_views_env digest op s))
       [(None, AddView sample_view), (None, RemoveView ''web'')] empty_views_file))"
  by (rule views_file_stays_ok) (simp add: empty_views_file_def views_ok_def al_keys_distinct_def)

end
