(* ===== verification/SubscriptionKeys.thy ===== *)
theory SubscriptionKeys
  imports RemoteUpid
begin

text \<open>
  Subscription keys and levels, from \<^verbatim>\<open>lib/pdm-api-types/src/subscription.rs\<close>, the redaction of keys in
  \<^verbatim>\<open>server/src/api/subscriptions/mod.rs\<close> and the state of a remote in \<^verbatim>\<open>server/src/api/resources.rs\<close>.

  \<^verbatim>\<open>SubscriptionStatus\<close> is an enum of the crate \<^verbatim>\<open>proxmox_subscription\<close>; the values that the code
  distinguishes have a constructor. Slicing a string inside a character panics; \<open>level_from_key\<close>
  returns \<open>None\<close> for that.
\<close>

section \<open>Levels\<close>

datatype SubscriptionStatus = StatusNew | StatusNotFound | StatusActive | StatusOther str

datatype SubscriptionLevel = LvNone | LvUnknown | LvCommunity | LvBasic | LvStandard | LvPremium

fun level_rank :: "SubscriptionLevel \<Rightarrow> nat" where
  "level_rank LvNone = 0"
| "level_rank LvUnknown = 1"
| "level_rank LvCommunity = 2"
| "level_rank LvBasic = 3"
| "level_rank LvStandard = 4"
| "level_rank LvPremium = 5"

lemma level_rank_inj: "level_rank a = level_rank b \<longleftrightarrow> a = b"
  by (cases a; cases b) simp_all

text \<open>The derived order of the enum.\<close>

instantiation SubscriptionLevel :: linorder
begin

definition less_eq_SubscriptionLevel :: "SubscriptionLevel \<Rightarrow> SubscriptionLevel \<Rightarrow> bool" where
  "less_eq_SubscriptionLevel a b \<longleftrightarrow> level_rank a \<le> level_rank b"

definition less_SubscriptionLevel :: "SubscriptionLevel \<Rightarrow> SubscriptionLevel \<Rightarrow> bool" where
  "less_SubscriptionLevel a b \<longleftrightarrow> level_rank a < level_rank b"

instance
  by standard (auto simp: less_eq_SubscriptionLevel_def less_SubscriptionLevel_def level_rank_inj)

end

definition level_from_str :: "str \<Rightarrow> SubscriptionLevel" where
  "level_from_str s =
     (if s \<in> {''p'', ''premium'', ''Premium''} then LvPremium
      else if s \<in> {''s'', ''standard'', ''Standard''} then LvStandard
      else if s \<in> {''b'', ''basic'', ''Basic''} then LvBasic
      else if s \<in> {''c'', ''community'', ''Community''} then LvCommunity
      else if s \<in> {[], ''none'', ''None''} then LvNone
      else LvUnknown)"

fun show_level :: "SubscriptionLevel \<Rightarrow> str" where
  "show_level LvNone = ''None''"
| "show_level LvUnknown = ''Unknown''"
| "show_level LvCommunity = ''Community''"
| "show_level LvBasic = ''Basic''"
| "show_level LvStandard = ''Standard''"
| "show_level LvPremium = ''Premium''"

text \<open>UTF-8 continuation bytes; a string may be cut before any other byte.\<close>

definition is_cont :: "char \<Rightarrow> bool" where
  "is_cont c \<longleftrightarrow> (let n = (of_char c :: nat) in 128 \<le> n \<and> n < 192)"

definition level_from_key :: "str option \<Rightarrow> SubscriptionLevel option" where
  "level_from_key key =
     (case key of
        None \<Rightarrow> Some LvNone
      | Some k \<Rightarrow>
          if k = [] then Some LvNone
          else let key_type = (case split_once CHR ''-'' k of Some (t, _) \<Rightarrow> t | None \<Rightarrow> [])
               in if key_type \<noteq> [] then
                    (if is_cont (last key_type) then None else Some (level_from_str [last key_type]))
                  else Some LvUnknown)"

section \<open>Products and keys\<close>

datatype ProductType = PtPve | PtPbs | PtPmg | PtPom

fun as_section_type :: "ProductType \<Rightarrow> str" where
  "as_section_type PtPve = ''pve''"
| "as_section_type PtPbs = ''pbs''"
| "as_section_type PtPmg = ''pmg''"
| "as_section_type PtPom = ''pom''"

definition product_from_key :: "str \<Rightarrow> ProductType option" where
  "product_from_key key =
     (case split_once CHR ''-'' key of
        None \<Rightarrow> None
      | Some (prefix, _) \<Rightarrow>
          if starts_with ''pve'' prefix then Some PtPve
          else if starts_with ''pbs'' prefix then Some PtPbs
          else if starts_with ''pmg'' prefix then Some PtPmg
          else if starts_with ''pom'' prefix then Some PtPom
          else None)"

definition matches_remote_type :: "ProductType \<Rightarrow> RemoteType \<Rightarrow> bool" where
  "matches_remote_type p ty \<longleftrightarrow> (p, ty) = (PtPve, Pve) \<or> (p, ty) = (PtPbs, Pbs)"

text \<open>\<^verbatim>\<open>PRODUCT_KEY_REGEX\<close> with the length bounds of \<^verbatim>\<open>SUBSCRIPTION_KEY_SCHEMA\<close>.\<close>

definition is_lower_hex :: "char \<Rightarrow> bool" where
  "is_lower_hex c \<longleftrightarrow> is_ascii_digit c \<or> c \<in> set ''abcdef''"

definition product_key_regex :: "str \<Rightarrow> bool" where
  "product_key_regex s =
     (case split_once CHR ''-'' s of
        None \<Rightarrow> False
      | Some (prefix, secret) \<Rightarrow>
          prefix \<noteq> [] \<and> last prefix \<in> set ''cbsp'' \<and>
          (butlast prefix = ''pbs'' \<or>
           (case strip_prefix ''pve'' (butlast prefix) of
              Some sockets \<Rightarrow> sockets \<noteq> [] \<and> list_all is_ascii_digit sockets
            | None \<Rightarrow> False)) \<and>
          length secret = 10 \<and> list_all is_lower_hex secret)"

definition subscription_key_schema :: "str \<Rightarrow> bool" where
  "subscription_key_schema s \<longleftrightarrow> 15 \<le> length s \<and> length s \<le> 18 \<and> product_key_regex s"

definition socket_count_from_key :: "str \<Rightarrow> nat option" where
  "socket_count_from_key key =
     (case split_once CHR ''-'' key of
        None \<Rightarrow> None
      | Some (prefix, _) \<Rightarrow>
          (case strip_prefix ''pve'' prefix of
             None \<Rightarrow> None
           | Some after_pve \<Rightarrow> parse_u32 (takeWhile is_ascii_digit after_pve)))"

text \<open>\<^verbatim>\<open>Iterator::min_by_key\<close>: the first of the smallest elements.\<close>

fun min_by_key :: "('a \<Rightarrow> 'k::linorder) \<Rightarrow> 'a list \<Rightarrow> 'a option" where
  "min_by_key f [] = None"
| "min_by_key f (x # xs) =
     (case min_by_key f xs of Some y \<Rightarrow> if f y < f x then Some y else Some x | None \<Rightarrow> Some x)"

definition covering_keys :: "nat \<Rightarrow> ('k \<times> str) list \<Rightarrow> ('k \<times> nat) list" where
  "covering_keys node_sockets candidates =
     filter (\<lambda>(_, s). s \<ge> node_sockets)
       (List.map_filter (\<lambda>(i, key). map_option (\<lambda>s. (i, s)) (socket_count_from_key key)) candidates)"

definition pick_best_pve_socket_key :: "nat \<Rightarrow> ('k \<times> str) list \<Rightarrow> 'k option" where
  "pick_best_pve_socket_key node_sockets candidates =
     map_option fst (min_by_key snd (covering_keys node_sockets candidates))"

text \<open>Keys in logs. The first and the last character of the secret are kept, whole characters of it.\<close>

definition redact_key :: "str \<Rightarrow> str" where
  "redact_key key =
     (case split_once CHR ''-'' key of
        None \<Rightarrow> ''<malformed-key>''
      | Some (prefix, []) \<Rightarrow> prefix @ ''-...''
      | Some (prefix, c # r) \<Rightarrow>
          let first = c # takeWhile is_cont r;
              rest = dropWhile is_cont r
          in if rest = [] then prefix @ ''-'' @ first @ ''...''
             else let cs = takeWhile is_cont (rev rest)
                  in prefix @ ''-'' @ first @ ''...'' @ drop (length rest - length cs - 1) rest)"

section \<open>Pool entries\<close>

datatype SubscriptionKeySource = Manual | Adopted

record SubscriptionKeyEntry =
  ke_key :: str
  ke_product_type :: ProductType
  ke_level :: SubscriptionLevel
  ke_source :: SubscriptionKeySource
  ke_remote :: "str option"
  ke_node :: "str option"
  ke_pending_clear :: bool
  ke_serverid :: "str option"
  ke_status :: SubscriptionStatus
  ke_next_due_date :: "str option"
  ke_product_name :: "str option"
  ke_check_time :: "int option"

record ServeridMismatch =
  sm_key :: str
  sm_expected :: str
  sm_actual :: str

definition verify_serverid :: "SubscriptionKeyEntry \<Rightarrow> str option \<Rightarrow> ServeridMismatch option" where
  "verify_serverid entry remote_serverid =
     (case ke_serverid entry of
        None \<Rightarrow> None
      | Some expected \<Rightarrow>
          (case remote_serverid of
             None \<Rightarrow> None
           | Some actual \<Rightarrow>
               if expected = actual then None
               else Some \<lparr>sm_key = ke_key entry, sm_expected = expected, sm_actual = actual\<rparr>))"

section \<open>Subscription state of a remote\<close>

record NodeSubscriptionInfo =
  si_status :: SubscriptionStatus
  si_sockets :: "int option"
  si_key :: "str option"
  si_level :: SubscriptionLevel
  si_serverid :: "str option"
  si_check_time :: "int option"
  si_next_due_date :: "str option"

datatype RemoteSubscriptionState = RsNone | RsUnknown | RsMixed | RsActive

definition info_level :: "NodeSubscriptionInfo option \<Rightarrow> SubscriptionLevel" where
  "info_level info =
     (case info of
        Some i \<Rightarrow> if si_status i \<in> {StatusNew, StatusActive} then si_level i else LvNone
      | None \<Rightarrow> LvUnknown)"

definition map_node_subscription_list_to_state ::
  "(str, NodeSubscriptionInfo option) alist \<Rightarrow> RemoteSubscriptionState" where
  "map_node_subscription_list_to_state infos =
     (let levels = map (info_level \<circ> snd) infos;
          minimum = (case min_by_key (\<lambda>l. l) levels of Some l \<Rightarrow> l | None \<Rightarrow> LvUnknown);
          mixed = list_ex (\<lambda>l. l \<noteq> minimum) levels
      in if minimum = LvNone then RsNone
         else if minimum = LvUnknown \<and> \<not> mixed then RsUnknown
         else if minimum = LvUnknown \<and> mixed then RsActive
         else if mixed then RsMixed else RsActive)"

section \<open>Lemmas\<close>

lemma min_by_key_None [simp]: "min_by_key f xs = None \<longleftrightarrow> xs = []"
  by (cases xs) (auto split: option.splits)

lemma min_by_key_Some:
  assumes "min_by_key f xs = Some y"
  shows "y \<in> set xs \<and> (\<forall>x \<in> set xs. f y \<le> f x)"
  using assms
proof (induction xs arbitrary: y)
  case (Cons x xs)
  then show ?case by (cases "min_by_key f xs") (fastforce split: if_splits)+
qed simp

lemma mem_covering_keys:
  "(i, s) \<in> set (covering_keys n cs) \<longleftrightarrow> n \<le> s \<and> (\<exists>k. (i, k) \<in> set cs \<and> socket_count_from_key k = Some s)"
  by (force simp: covering_keys_def set_map_filter)

lemma pick_best_Some:
  assumes "pick_best_pve_socket_key n cs = Some i"
  shows "\<exists>k s. (i, k) \<in> set cs \<and> socket_count_from_key k = Some s \<and> n \<le> s \<and>
           (\<forall>j k' s'. (j, k') \<in> set cs \<longrightarrow> socket_count_from_key k' = Some s' \<longrightarrow> n \<le> s' \<longrightarrow> s \<le> s')"
proof -
  from assms obtain s where "min_by_key snd (covering_keys n cs) = Some (i, s)"
    by (auto simp: pick_best_pve_socket_key_def)
  note found = min_by_key_Some [OF this]
  then have mem: "(i, s) \<in> set (covering_keys n cs)" by simp
  have least: "s \<le> s'" if "(j, s') \<in> set (covering_keys n cs)" for j s'
    using found that by fastforce
  from mem obtain k where "(i, k) \<in> set cs" "socket_count_from_key k = Some s" "n \<le> s"
    by (auto simp: mem_covering_keys)
  moreover have "s \<le> s'" if "(j, k') \<in> set cs" "socket_count_from_key k' = Some s'" "n \<le> s'" for j k' s'
    using least [of j s'] that by (auto simp: mem_covering_keys)
  ultimately show ?thesis by blast
qed

lemma pick_best_None:
  assumes "pick_best_pve_socket_key n cs = None" and "(i, k) \<in> set cs" and "socket_count_from_key k = Some s"
  shows "s < n"
  using assms mem_covering_keys [of i s n cs] by (force simp: pick_best_pve_socket_key_def)

text \<open>The parts of a key that the schema accepts.\<close>

lemma schema_key_cases:
  assumes "subscription_key_schema k"
  obtains (pve) sockets l secret where "k = ''pve'' @ sockets @ [l] @ ''-'' @ secret" "l \<in> set ''cbsp''"
      "sockets \<noteq> []" "list_all is_ascii_digit sockets" "length sockets \<le> 3" "length secret = 10" "list_all is_lower_hex secret"
  | (pbs) l secret where "k = ''pbs'' @ [l] @ ''-'' @ secret" "l \<in> set ''cbsp''" "length secret = 10"
      "list_all is_lower_hex secret"
proof -
  from assms obtain prefix secret where split: "split_once CHR ''-'' k = Some (prefix, secret)"
    and p: "prefix \<noteq> []" "last prefix \<in> set ''cbsp''" "length secret = 10" "list_all is_lower_hex secret"
    and body: "butlast prefix = ''pbs'' \<or>
      (\<exists>sockets. butlast prefix = ''pve'' @ sockets \<and> sockets \<noteq> [] \<and> list_all is_ascii_digit sockets)"
    and len: "length k \<le> 18"
    by (auto simp: subscription_key_schema_def product_key_regex_def strip_prefix_Some split: option.splits)
  have k: "k = butlast prefix @ [last prefix] @ ''-'' @ secret"
    using split p(1) by (simp add: split_once_Some)
  from body show ?thesis
  proof
    assume "butlast prefix = ''pbs''"
    with k p that(2) [of "last prefix" secret] show ?thesis by simp
  next
    assume "\<exists>sockets. butlast prefix = ''pve'' @ sockets \<and> sockets \<noteq> [] \<and> list_all is_ascii_digit sockets"
    then obtain sockets where s: "butlast prefix = ''pve'' @ sockets" "sockets \<noteq> []" "list_all is_ascii_digit sockets"
      by blast
    have "length k = 3 + length sockets + 1 + 1 + 10" using p(3) by (subst k) (simp add: s(1))
    with len k s p that(1) [of sockets "last prefix" secret] show ?thesis by simp
  qed
qed

lemma no_dash_digits: "list_all is_ascii_digit s \<Longrightarrow> CHR ''-'' \<notin> set s"
  by (auto simp: list_all_iff is_ascii_digit_def)

lemma parse_digits_bound:
  "list_all is_ascii_digit s \<Longrightarrow> \<exists>n. parse_digits acc s = Some n \<and> n < (acc + 1) * 10 ^ length s"
proof (induction s arbitrary: acc)
  case (Cons c s)
  then have "digit_val c \<le> 9" by (auto simp: is_ascii_digit_def digit_val_def)
  from Cons obtain n where n: "parse_digits (10 * acc + digit_val c) s = Some n"
    "n < (10 * acc + digit_val c + 1) * 10 ^ length s" by auto
  have "(10 * acc + digit_val c + 1) * 10 ^ length s \<le> (10 * (acc + 1)) * 10 ^ length s"
    using \<open>digit_val c \<le> 9\<close> by (intro mult_right_mono) simp_all
  also have "(10 * (acc + 1)) * 10 ^ length s = (acc + 1) * 10 ^ length (c # s)" by (simp add: algebra_simps)
  finally have "n < (acc + 1) * 10 ^ length (c # s)" using n(2) by (rule less_le_trans [rotated])
  with n(1) Cons.prems show ?case by (intro exI [of _ n]) simp
qed simp

lemma parse_u32_digits:
  assumes "list_all is_ascii_digit s" and "s \<noteq> []" and "length s \<le> 3"
  shows "\<exists>n. parse_u32 s = Some n \<and> n \<le> 999"
proof -
  obtain n where n: "parse_digits 0 s = Some n" "n < 10 ^ length s"
    using parse_digits_bound [OF assms(1), of 0] by auto
  have "(10 :: nat) ^ length s \<le> 10 ^ 3" using assms(3) by (intro power_increasing) simp_all
  with n(2) have "n \<le> 999" by simp
  moreover have "hd s \<noteq> CHR ''+''" using assms(1,2) by (cases s) (auto simp: is_ascii_digit_def)
  ultimately show ?thesis
    using n(1) assms(2) by (cases s) (auto simp: parse_u32_def parse_unsigned_def split: list.splits)
qed

lemma level_of_split:
  assumes "split_once CHR ''-'' k = Some (p @ [l], secret)" and "l \<in> set ''cbsp''"
  shows "\<exists>lv \<in> {LvCommunity, LvBasic, LvStandard, LvPremium}. level_from_key (Some k) = Some lv"
proof -
  have "k \<noteq> []" using assms(1) by auto
  then have "level_from_key (Some k) = (if is_cont l then None else Some (level_from_str [l]))"
    using assms(1) by (simp add: level_from_key_def)
  with assms(2) show ?thesis by (auto simp: level_from_str_def is_cont_def)
qed

section \<open>Properties\<close>

text \<open>
  C36. Keys that the schema accepts are always understood: the product is Proxmox VE or Backup Server and
  agrees with the prefix, the level is one of the four paid levels, and exactly Proxmox VE keys have a
  socket count, of at most 999, so that parsing it never overflows.
\<close>

theorem schema_keys_understood:
  assumes "subscription_key_schema k"
  shows "(product_from_key k = Some PtPve \<and> (\<exists>n \<le> 999. socket_count_from_key k = Some n) \<or>
          product_from_key k = Some PtPbs \<and> socket_count_from_key k = None) \<and>
         (\<exists>l \<in> {LvCommunity, LvBasic, LvStandard, LvPremium}. level_from_key (Some k) = Some l)"
  using assms
proof (cases rule: schema_key_cases)
  case (pve sockets l secret)
  have dash: "CHR ''-'' \<notin> set (''pve'' @ sockets @ [l])" using pve no_dash_digits by auto
  have split: "split_once CHR ''-'' k = Some (''pve'' @ sockets @ [l], secret)"
    using split_once_append [OF dash, of secret] pve(1) by simp
  have "\<not> is_ascii_digit l" using pve(2) by (auto simp: is_ascii_digit_def)
  then have "takeWhile is_ascii_digit (sockets @ [l]) = sockets"
    using pve(4) by (simp add: list_all_iff takeWhile_append2)
  then have "\<exists>n \<le> 999. socket_count_from_key k = Some n"
    using parse_u32_digits [OF pve(4,3,5)]
    by (auto simp: socket_count_from_key_def split strip_prefix_def)
  moreover have "product_from_key k = Some PtPve" by (simp add: product_from_key_def split starts_with_def)
  moreover have "\<exists>lv \<in> {LvCommunity, LvBasic, LvStandard, LvPremium}. level_from_key (Some k) = Some lv"
    using level_of_split [of k "''pve'' @ sockets" l secret] split pve(2) by simp
  ultimately show ?thesis by blast
next
  case (pbs l secret)
  have dash: "CHR ''-'' \<notin> set (''pbs'' @ [l])" using pbs by auto
  have split: "split_once CHR ''-'' k = Some (''pbs'' @ [l], secret)"
    using split_once_append [OF dash, of secret] pbs(1) by simp
  have "socket_count_from_key k = None" by (simp add: socket_count_from_key_def split strip_prefix_def)
  moreover have "product_from_key k = Some PtPbs" by (simp add: product_from_key_def split starts_with_def)
  moreover have "\<exists>lv \<in> {LvCommunity, LvBasic, LvStandard, LvPremium}. level_from_key (Some k) = Some lv"
    using level_of_split [of k "''pbs''" l secret] split pbs(2) by simp
  ultimately show ?thesis by blast
qed

theorem schema_keys_understood_witness:
  "subscription_key_schema ''pve4b-1234567890'' \<and> (\<exists>n \<le> 999. socket_count_from_key ''pve4b-1234567890'' = Some n)"
proof -
  have "subscription_key_schema ''pve4b-1234567890''" "product_from_key ''pve4b-1234567890'' \<noteq> Some PtPbs"
    by code_simp+
  with schema_keys_understood [of "''pve4b-1234567890''"] show ?thesis by blast
qed

text \<open>A key of a remote whose prefix ends in a character outside ASCII makes \<^verbatim>\<open>SubscriptionLevel::from_key\<close>
  panic: the last byte of the prefix is not a character. Here the prefix is an e with acute accent.\<close>

lemma level_of_non_ascii_key_panics: "level_from_key (Some [char_of (195 :: nat), char_of (169 :: nat), CHR ''-'', CHR ''1'']) = None"
  by code_simp

end
