(* ===== verification/SubscriptionPool.thy ===== *)
theory SubscriptionPool
  imports SubscriptionKeys ResourceListing
begin

unbundle bit_operations_syntax

text \<open>
  The subscription key pool, from \<^verbatim>\<open>server/src/api/subscriptions/mod.rs\<close> over
  \<^verbatim>\<open>lib/pdm-config/src/subscriptions.rs\<close>: keys, their assignment to nodes of remotes, and the pending
  pushes and clears that a worker applies.

  The state \<open>pool_state\<close> holds the text of the pool file with its sections, the sections of the shadow file,
  and the requests sent to remotes. The digest of the pool is that of the text. \<open>ps_faults\<close> says which of the
  coming calls (locking, reading or replacing a file, a request to a remote) fail. A handler that waits for the
  network takes \<open>meanwhile\<close>, what other handlers do to the state in that time: between reading the pool and
  locking it, during the fetch of \<^verbatim>\<open>collect_node_status\<close>, and between a deletion on a remote and the update of
  the pool. The part of a handler under the lock is a definition of its own, named \<open>..._locked\<close>. \<open>live\<close> is the
  answer of \<^verbatim>\<open>get_subscription_info_for_remote\<close> for each remote. The remaining code outside is in
  \<open>sub_env\<close>: the section-config writer, digests, access control, the schema of node names, the remotes
  configuration and the hash of node states.
\<close>

section \<open>State and effects\<close>

record SubscriptionKeyShadow =
  sh_key :: str
  sh_product_type :: ProductType
  sh_info :: str

datatype request = PushKey str str str | DeleteKey str str ProductType | CheckKey str str ProductType | InvalidateCache str

record pool_state =
  ps_text :: str
  ps_keys :: "(str, SubscriptionKeyEntry) alist"
  ps_shadow :: "(str, SubscriptionKeyShadow) alist"
  ps_requests :: "(request \<times> bool) list"
  ps_faults :: "bool list"

record RemoteNodeStatus =
  rn_remote :: str
  rn_ty :: RemoteType
  rn_node :: str
  rn_sockets :: "int option"
  rn_status :: SubscriptionStatus
  rn_level :: SubscriptionLevel
  rn_assigned_key :: "str option"
  rn_current_key :: "str option"
  rn_pending_clear :: bool
  rn_check_time :: "int option"
  rn_next_due_date :: "str option"

record ('a, 'd) sub_env =
  su_write :: "(str, SubscriptionKeyEntry) alist \<Rightarrow> str"
  su_digest :: "str \<Rightarrow> 'd"
  su_modified :: "'d \<Rightarrow> 'd option \<Rightarrow> bool"
  su_default_status :: SubscriptionStatus
  su_node_schema :: "str \<Rightarrow> bool"
  su_remotes :: "(str \<times> Remote) list option"
  su_acl :: "'a acl_env"
  su_hash :: "(str \<times> str \<times> SubscriptionStatus \<times> int option \<times> bool) list \<Rightarrow> str"

datatype sub_error =
    SubIo
  | NoAuth
  | Denied
  | PoolModified
  | InvalidParameter
  | NoKeysProvided
  | UnrecognisedKey str
  | KeyExists str
  | KeyNotFound str
  | LiveSubscription str
  | RemoteNotFound str
  | RemotesUnreadable
  | TypeMismatch
  | AlreadyAssigned str
  | NotManaged
  | ClearQueued
  | NoPendingClear
  | QueryFailed str
  | NoLiveSubscription
  | ChangedDuringFetch
  | AlreadyManaged
  | BoundElsewhere
  | SchemaRejected
  | NodeStatusChanged
  | RequestFailed
  | ApplyFailed nat nat "(str \<times> str) list"
  | Panicked

type_synonym 'r pool_io = "(sub_error, pool_state, 'r) io"
type_synonym live_info = "str \<Rightarrow> str + (str, NodeSubscriptionInfo option) alist"

definition pool_sys :: "(pool_state \<Rightarrow> 'r) \<Rightarrow> (pool_state \<Rightarrow> pool_state) \<Rightarrow> 'r pool_io" where
  "pool_sys r w s =
     (case ps_faults s of
        [] \<Rightarrow> (Inr (r s), w s)
      | f # fs \<Rightarrow> let s' = s\<lparr>ps_faults := fs\<rparr> in if f then (Inl SubIo, s') else (Inr (r s'), w s'))"

definition sub_lock :: "unit pool_io" where
  "sub_lock = pool_sys (\<lambda>_. ()) (\<lambda>s. s)"

definition sub_config :: "('a, 'd) sub_env \<Rightarrow> ((str, SubscriptionKeyEntry) alist \<times> 'd) pool_io" where
  "sub_config E = pool_sys (\<lambda>s. (ps_keys s, su_digest E (ps_text s))) (\<lambda>s. s)"

definition sub_save :: "('a, 'd) sub_env \<Rightarrow> (str, SubscriptionKeyEntry) alist \<Rightarrow> 'd pool_io" where
  "sub_save E config = pool_sys (\<lambda>_. su_digest E (su_write E config)) (\<lambda>s. s\<lparr>ps_text := su_write E config, ps_keys := config\<rparr>)"

definition shadow_config :: "(str, SubscriptionKeyShadow) alist pool_io" where
  "shadow_config = pool_sys ps_shadow (\<lambda>s. s)"

definition save_shadow :: "(str, SubscriptionKeyShadow) alist \<Rightarrow> unit pool_io" where
  "save_shadow shadow = pool_sys (\<lambda>_. ()) (\<lambda>s. s\<lparr>ps_shadow := shadow\<rparr>)"

definition send_request :: "request \<Rightarrow> unit pool_io" where
  "send_request q s =
     (case ps_faults s of
        [] \<Rightarrow> (Inr (), s\<lparr>ps_requests := ps_requests s @ [(q, True)]\<rparr>)
      | f # fs \<Rightarrow>
          (if f then Inl RequestFailed else Inr (), s\<lparr>ps_requests := ps_requests s @ [(q, \<not> f)], ps_faults := fs\<rparr>))"

section \<open>Access and digests\<close>

definition require :: "bool \<Rightarrow> sub_error \<Rightarrow> unit pool_io" where
  "require b e = (if b then io_return () else io_fail e)"

definition auth_of :: "'a option \<Rightarrow> 'a pool_io" where
  "auth_of caller = (case caller of Some a \<Rightarrow> io_return a | None \<Rightarrow> io_fail NoAuth)"

definition may_modify :: "('a, 'd) sub_env \<Rightarrow> 'a \<Rightarrow> str \<Rightarrow> bool" where
  "may_modify E auth_id remote = acl_check_privs (su_acl E) auth_id [''resource'', remote] PRIV_RESOURCE_MODIFY False"

definition has_priv :: "('a, 'd) sub_env \<Rightarrow> 'a \<Rightarrow> str \<Rightarrow> u64 \<Rightarrow> bool" where
  "has_priv E auth_id remote priv \<longleftrightarrow> acl_lookup_privs (su_acl E) auth_id [''resource'', remote] AND priv \<noteq> 0"

definition check_modify :: "('a, 'd) sub_env \<Rightarrow> 'a \<Rightarrow> str option \<Rightarrow> unit pool_io" where
  "check_modify E auth_id remote =
     (case remote of Some r \<Rightarrow> require (may_modify E auth_id r) Denied | None \<Rightarrow> io_return ())"

definition sub_detect_modification :: "('a, 'd) sub_env \<Rightarrow> 'd \<Rightarrow> 'd option \<Rightarrow> unit pool_io" where
  "sub_detect_modification E current digest = require (\<not> su_modified E current digest) PoolModified"

definition remotes_config :: "('a, 'd) sub_env \<Rightarrow> (str \<times> Remote) list pool_io" where
  "remotes_config E = (case su_remotes E of Some rs \<Rightarrow> io_return rs | None \<Rightarrow> io_fail RemotesUnreadable)"

definition binding :: "SubscriptionKeyEntry \<Rightarrow> (str \<times> str) option" where
  "binding e = (case (ke_remote e, ke_node e) of (Some r, Some n) \<Rightarrow> Some (r, n) | _ \<Rightarrow> None)"

definition bound_to :: "SubscriptionKeyEntry \<Rightarrow> str \<Rightarrow> str \<Rightarrow> bool" where
  "bound_to e remote node \<longleftrightarrow> ke_remote e = Some remote \<and> ke_node e = Some node"

definition find_bound :: "(str, SubscriptionKeyEntry) alist \<Rightarrow> str \<Rightarrow> str \<Rightarrow> (str \<times> SubscriptionKeyEntry) option" where
  "find_bound config remote node = List.find (\<lambda>(_, e). bound_to e remote node) config"

section \<open>Keys\<close>

definition list_keys :: "('a, 'd) sub_env \<Rightarrow> 'a option \<Rightarrow> (SubscriptionKeyEntry list \<times> 'd) pool_io" where
  "list_keys E caller =
     io_bind (auth_of caller) (\<lambda>auth_id.
     io_bind (sub_config E) (\<lambda>(config, digest).
       let visible = filter (\<lambda>(_, e). case ke_remote e of
                 Some r \<Rightarrow> has_priv E auth_id r PRIV_RESOURCE_AUDIT | None \<Rightarrow> True) config
       in io_bind
            (io_fold (\<lambda>(_, e) acc. case level_from_key (Some (ke_key e)) of
                 Some l \<Rightarrow> io_return (acc @ [e\<lparr>ke_level := l\<rparr>]) | None \<Rightarrow> io_fail Panicked) visible [])
            (\<lambda>entries. io_return (entries, digest))))"

definition new_entry ::
  "('a, 'd) sub_env \<Rightarrow> str \<Rightarrow> ProductType \<Rightarrow> SubscriptionLevel \<Rightarrow> SubscriptionKeySource \<Rightarrow> (str \<times> str) option \<Rightarrow> SubscriptionKeyEntry" where
  "new_entry E key product level source target =
     \<lparr>ke_key = key, ke_product_type = product, ke_level = level, ke_source = source,
      ke_remote = map_option fst target, ke_node = map_option snd target, ke_pending_clear = False,
      ke_serverid = None, ke_status = su_default_status E, ke_next_due_date = None, ke_product_name = None,
      ke_check_time = None\<rparr>"

text \<open>The loop of \<^verbatim>\<open>add_keys\<close> over its input: the entries so far, the keys seen and the number of duplicates.\<close>

definition collect_key ::
  "('a, 'd) sub_env \<Rightarrow> str \<Rightarrow> SubscriptionKeyEntry list \<times> str list \<times> nat \<Rightarrow> (SubscriptionKeyEntry list \<times> str list \<times> nat) pool_io" where
  "collect_key E key acc =
     (case acc of (entries, seen, deduplicated) \<Rightarrow>
        if key \<in> set seen then io_return (entries, seen, deduplicated + 1)
        else (case product_from_key key of
                None \<Rightarrow> io_fail (UnrecognisedKey (redact_key key))
              | Some product \<Rightarrow>
                  (case level_from_key (Some key) of
                     None \<Rightarrow> io_fail Panicked
                   | Some level \<Rightarrow>
                       io_return (entries @ [new_entry E key product level Manual None], key # seen, deduplicated))))"

definition insert_new :: "SubscriptionKeyEntry \<Rightarrow> (str, SubscriptionKeyEntry) alist \<Rightarrow> (str, SubscriptionKeyEntry) alist pool_io" where
  "insert_new entry config =
     (case al_get config (ke_key entry) of
        Some existing \<Rightarrow> io_fail (KeyExists (ke_key existing))
      | None \<Rightarrow> io_return (al_put (ke_key entry) entry config))"

definition add_keys :: "('a, 'd) sub_env \<Rightarrow> str list \<Rightarrow> 'd option \<Rightarrow> (nat \<times> nat \<times> 'd) pool_io" where
  "add_keys E keys digest =
     io_bind (require (list_all subscription_key_schema keys) InvalidParameter) (\<lambda>_.
     io_bind (require (keys \<noteq> []) NoKeysProvided) (\<lambda>_.
     io_bind (io_fold (collect_key E) keys ([], [], 0)) (\<lambda>(entries, _, deduplicated).
     io_bind sub_lock (\<lambda>_.
     io_bind (sub_config E) (\<lambda>(config, config_digest).
     io_bind (sub_detect_modification E config_digest digest) (\<lambda>_.
     io_bind (io_fold insert_new entries config) (\<lambda>config'.
     io_bind (sub_save E config') (\<lambda>new_digest.
       io_return (length entries, deduplicated, new_digest)))))))))"

definition get_key :: "('a, 'd) sub_env \<Rightarrow> 'a option \<Rightarrow> str \<Rightarrow> (SubscriptionKeyEntry \<times> 'd) pool_io" where
  "get_key E caller key =
     io_bind (auth_of caller) (\<lambda>auth_id.
     io_bind (sub_config E) (\<lambda>(config, digest).
       case al_get config key of
         None \<Rightarrow> io_fail (KeyNotFound key)
       | Some e \<Rightarrow>
           if (case ke_remote e of Some r \<Rightarrow> \<not> has_priv E auth_id r PRIV_RESOURCE_AUDIT | None \<Rightarrow> False)
           then io_fail (KeyNotFound key)
           else (case level_from_key (Some (ke_key e)) of
                   Some l \<Rightarrow> io_return (e\<lparr>ke_level := l\<rparr>, digest) | None \<Rightarrow> io_fail Panicked)))"

text \<open>Whether the key is the active one on the node it is bound to.\<close>

definition check_synced_assignment_for_unassign ::
  "('a, 'd) sub_env \<Rightarrow> live_info \<Rightarrow> str \<Rightarrow> (str \<times> str) option \<Rightarrow> (str \<times> str) option pool_io" where
  "check_synced_assignment_for_unassign E live key target =
     (case target of
        None \<Rightarrow> io_return None
      | Some (remote, node) \<Rightarrow>
          io_bind (remotes_config E) (\<lambda>remotes.
            case map_of remotes remote of
              None \<Rightarrow> io_return None
            | Some _ \<Rightarrow>
                (case live remote of
                   Inl _ \<Rightarrow> io_return None
                 | Inr infos \<Rightarrow>
                     io_return
                       (case map_of infos node of
                          Some (Some info) \<Rightarrow>
                            if si_status info = StatusActive \<and> si_key info = Some key then Some (remote, node) else None
                        | _ \<Rightarrow> None))))"

definition delete_key_locked ::
  "('a, 'd) sub_env \<Rightarrow> 'a \<Rightarrow> str \<Rightarrow> 'd option \<Rightarrow> 'd \<Rightarrow> bool \<Rightarrow> (str \<times> str) option \<Rightarrow> 'd pool_io" where
  "delete_key_locked E auth_id key digest pre_digest pre_had_binding synced_block =
     io_bind sub_lock (\<lambda>_.
     io_bind (sub_config E) (\<lambda>(config, config_digest).
     io_bind (sub_detect_modification E config_digest digest) (\<lambda>_.
       case al_get config key of
         None \<Rightarrow> io_fail (KeyNotFound key)
       | Some entry \<Rightarrow>
           io_bind (check_modify E auth_id (ke_remote entry)) (\<lambda>_.
             let bound_post = ke_remote entry \<noteq> None;
                 raced = config_digest \<noteq> pre_digest;
                 still_synced = (case synced_block of Some (r, n) \<Rightarrow> bound_to entry r n | None \<Rightarrow> False);
                 appeared_unchecked = (\<not> pre_had_binding \<and> bound_post)
             in if still_synced \<or> raced \<and> bound_post \<or> appeared_unchecked then io_fail (LiveSubscription key)
                else io_bind (sub_save E (al_del key config)) (\<lambda>new_digest.
                     io_bind (io_try (io_bind shadow_config (\<lambda>shadow. save_shadow (al_del key shadow)))) (\<lambda>_.
                       io_return new_digest))))))"

definition delete_key ::
  "('a, 'd) sub_env \<Rightarrow> (pool_state \<Rightarrow> pool_state) \<Rightarrow> live_info \<Rightarrow> 'a option \<Rightarrow> str \<Rightarrow> 'd option \<Rightarrow> 'd pool_io" where
  "delete_key E meanwhile live caller key digest =
     io_bind (auth_of caller) (\<lambda>auth_id.
     io_bind (sub_config E) (\<lambda>(pre_config, pre_digest).
       case al_get pre_config key of
         None \<Rightarrow> io_fail (KeyNotFound key)
       | Some pre_entry \<Rightarrow>
           io_bind (check_modify E auth_id (ke_remote pre_entry)) (\<lambda>_.
           io_bind (check_synced_assignment_for_unassign E live key (binding pre_entry)) (\<lambda>synced_block.
           io_bind (io_modify meanwhile) (\<lambda>_.
             delete_key_locked E auth_id key digest pre_digest (binding pre_entry \<noteq> None) synced_block)))))"

section \<open>Assignments\<close>

definition set_assignment_locked ::
  "('a, 'd) sub_env \<Rightarrow> 'a \<Rightarrow> str \<Rightarrow> str \<Rightarrow> str \<Rightarrow> 'd option \<Rightarrow> 'd \<Rightarrow> bool \<Rightarrow> (str \<times> str) option \<Rightarrow> 'd pool_io" where
  "set_assignment_locked E auth_id key remote node digest pre_digest pre_had_binding synced_block =
     io_bind sub_lock (\<lambda>_.
     io_bind (sub_config E) (\<lambda>(config, config_digest).
     io_bind (sub_detect_modification E config_digest digest) (\<lambda>_.
       case al_get config key of
         None \<Rightarrow> io_fail (KeyNotFound key)
       | Some stored \<Rightarrow>
           io_bind (if ke_remote stored \<noteq> Some remote then check_modify E auth_id (ke_remote stored) else io_return ()) (\<lambda>_.
             let bound_post = ke_remote stored \<noteq> None;
                 post_moves = (case binding stored of Some (r, n) \<Rightarrow> r \<noteq> remote \<or> n \<noteq> node | None \<Rightarrow> False);
                 raced = config_digest \<noteq> pre_digest;
                 still_synced = (case synced_block of Some (r, n) \<Rightarrow> bound_to stored r n | None \<Rightarrow> False);
                 appeared_unchecked = (\<not> pre_had_binding \<and> bound_post \<and> post_moves)
             in if still_synced \<and> post_moves \<or> raced \<and> bound_post \<and> post_moves \<or> appeared_unchecked
                then io_fail (LiveSubscription key)
                else
                  io_bind (remotes_config E) (\<lambda>remotes.
                    case map_of remotes remote of
                      None \<Rightarrow> io_fail (RemoteNotFound remote)
                    | Some remote_entry \<Rightarrow>
                        if \<not> matches_remote_type (ke_product_type stored) (remote_ty remote_entry) then io_fail TypeMismatch
                        else (case List.find (\<lambda>(_, other). ke_key other \<noteq> key \<and> bound_to other remote node) config of
                                Some (_, other) \<Rightarrow> io_fail (AlreadyAssigned (ke_key other))
                              | None \<Rightarrow>
                                  let entry = stored\<lparr>ke_remote := Some remote, ke_node := Some node\<rparr>;
                                      entry = (if post_moves then entry\<lparr>ke_pending_clear := False\<rparr> else entry)
                                  in sub_save E (al_put key entry config)))))))"

definition set_assignment ::
  "('a, 'd) sub_env \<Rightarrow> (pool_state \<Rightarrow> pool_state) \<Rightarrow> live_info \<Rightarrow> 'a option \<Rightarrow> str \<Rightarrow> str \<Rightarrow> str \<Rightarrow> 'd option \<Rightarrow> 'd pool_io" where
  "set_assignment E meanwhile live caller key remote node digest =
     io_bind (require (su_node_schema E node) InvalidParameter) (\<lambda>_.
     io_bind (auth_of caller) (\<lambda>auth_id.
     io_bind (require (may_modify E auth_id remote) Denied) (\<lambda>_.
     io_bind (sub_config E) (\<lambda>(pre_config, pre_digest).
       let pre_binding = Option.bind (al_get pre_config key) binding;
           rebind_moves_binding = (case pre_binding of Some (r, n) \<Rightarrow> r \<noteq> remote \<or> n \<noteq> node | None \<Rightarrow> False)
       in io_bind (if rebind_moves_binding then check_modify E auth_id (map_option fst pre_binding) else io_return ()) (\<lambda>_.
          io_bind (if rebind_moves_binding then check_synced_assignment_for_unassign E live key pre_binding
                   else io_return None) (\<lambda>synced_block.
          io_bind (io_modify meanwhile) (\<lambda>_.
            set_assignment_locked E auth_id key remote node digest pre_digest (pre_binding \<noteq> None) synced_block)))))))"

definition unbind :: "SubscriptionKeyEntry \<Rightarrow> SubscriptionKeyEntry" where
  "unbind e = e\<lparr>ke_remote := None, ke_node := None, ke_pending_clear := False\<rparr>"

definition clear_assignment_locked ::
  "('a, 'd) sub_env \<Rightarrow> 'a \<Rightarrow> str \<Rightarrow> 'd option \<Rightarrow> 'd \<Rightarrow> bool \<Rightarrow> (str \<times> str) option \<Rightarrow> 'd pool_io" where
  "clear_assignment_locked E auth_id key digest pre_digest pre_had_binding synced_block =
     io_bind sub_lock (\<lambda>_.
     io_bind (sub_config E) (\<lambda>(config, config_digest).
     io_bind (sub_detect_modification E config_digest digest) (\<lambda>_.
       case al_get config key of
         None \<Rightarrow> io_fail (KeyNotFound key)
       | Some stored \<Rightarrow>
           io_bind (check_modify E auth_id (ke_remote stored)) (\<lambda>_.
             let bound_post = ke_remote stored \<noteq> None;
                 raced = config_digest \<noteq> pre_digest;
                 still_synced = (case synced_block of Some (r, n) \<Rightarrow> bound_to stored r n | None \<Rightarrow> False);
                 appeared_unchecked = (\<not> pre_had_binding \<and> bound_post)
             in if still_synced \<or> raced \<and> bound_post \<or> appeared_unchecked then io_fail (LiveSubscription key)
                else sub_save E (al_put key (unbind stored) config)))))"

definition clear_assignment ::
  "('a, 'd) sub_env \<Rightarrow> (pool_state \<Rightarrow> pool_state) \<Rightarrow> live_info \<Rightarrow> 'a option \<Rightarrow> str \<Rightarrow> 'd option \<Rightarrow> 'd pool_io" where
  "clear_assignment E meanwhile live caller key digest =
     io_bind (auth_of caller) (\<lambda>auth_id.
     io_bind (sub_config E) (\<lambda>(pre_config, pre_digest).
     io_bind (check_modify E auth_id (Option.bind (al_get pre_config key) ke_remote)) (\<lambda>_.
       let pre_binding = Option.bind (al_get pre_config key) binding
       in io_bind (check_synced_assignment_for_unassign E live key pre_binding) (\<lambda>synced_block.
          io_bind (io_modify meanwhile) (\<lambda>_.
            clear_assignment_locked E auth_id key digest pre_digest (pre_binding \<noteq> None) synced_block)))))"

section \<open>Clears\<close>

definition queue_clear :: "('a, 'd) sub_env \<Rightarrow> 'a option \<Rightarrow> str \<Rightarrow> str \<Rightarrow> 'd option \<Rightarrow> 'd pool_io" where
  "queue_clear E caller remote node digest =
     io_bind (auth_of caller) (\<lambda>auth_id.
     io_bind (require (may_modify E auth_id remote) Denied) (\<lambda>_.
     io_bind sub_lock (\<lambda>_.
     io_bind (sub_config E) (\<lambda>(config, config_digest).
     io_bind (sub_detect_modification E config_digest digest) (\<lambda>_.
       case find_bound config remote node of
         None \<Rightarrow> io_fail NotManaged
       | Some (i, entry) \<Rightarrow>
           if ke_pending_clear entry then io_fail ClearQueued
           else sub_save E (al_put i (entry\<lparr>ke_pending_clear := True\<rparr>) config))))))"

definition revert_pending_clear :: "('a, 'd) sub_env \<Rightarrow> 'a option \<Rightarrow> str \<Rightarrow> str \<Rightarrow> 'd option \<Rightarrow> 'd pool_io" where
  "revert_pending_clear E caller remote node digest =
     io_bind (auth_of caller) (\<lambda>auth_id.
     io_bind (require (may_modify E auth_id remote) Denied) (\<lambda>_.
     io_bind sub_lock (\<lambda>_.
     io_bind (sub_config E) (\<lambda>(config, config_digest).
     io_bind (sub_detect_modification E config_digest digest) (\<lambda>_.
       case find_bound config remote node of
         None \<Rightarrow> io_fail NotManaged
       | Some (i, entry) \<Rightarrow>
           if \<not> ke_pending_clear entry then io_fail NoPendingClear
           else sub_save E (al_put i (entry\<lparr>ke_pending_clear := False\<rparr>) config))))))"

definition product_of_remote :: "RemoteType \<Rightarrow> ProductType" where
  "product_of_remote ty = (case ty of Pve \<Rightarrow> PtPve | Pbs \<Rightarrow> PtPbs)"

definition push_key_to_remote :: "str \<Rightarrow> str \<Rightarrow> str \<Rightarrow> unit pool_io" where
  "push_key_to_remote remote key node_name =
     (case product_from_key key of
        None \<Rightarrow> io_fail (UnrecognisedKey key)
      | Some p \<Rightarrow> if p \<in> {PtPve, PtPbs} then send_request (PushKey remote node_name key) else io_fail TypeMismatch)"

definition delete_subscription_on_remote :: "str \<Rightarrow> ProductType \<Rightarrow> str \<Rightarrow> unit pool_io" where
  "delete_subscription_on_remote remote p node_name =
     (if p \<in> {PtPve, PtPbs} then send_request (DeleteKey remote node_name p) else io_fail TypeMismatch)"

definition check_subscription_on_remote :: "str \<Rightarrow> ProductType \<Rightarrow> str \<Rightarrow> unit pool_io" where
  "check_subscription_on_remote remote p node_name =
     (if p \<in> {PtPve, PtPbs} then send_request (CheckKey remote node_name p) else io_fail TypeMismatch)"

definition check_subscription :: "('a, 'd) sub_env \<Rightarrow> 'a option \<Rightarrow> str \<Rightarrow> str \<Rightarrow> unit pool_io" where
  "check_subscription E caller remote node =
     io_bind (auth_of caller) (\<lambda>auth_id.
     io_bind (require (may_modify E auth_id remote) Denied) (\<lambda>_.
     io_bind (remotes_config E) (\<lambda>remotes.
       case map_of remotes remote of
         None \<Rightarrow> io_fail (RemoteNotFound remote)
       | Some r \<Rightarrow>
           io_bind (check_subscription_on_remote remote (product_of_remote (remote_ty r)) node) (\<lambda>_.
           io_bind (io_try (send_request (InvalidateCache remote))) (\<lambda>_. io_return ())))))"

section \<open>Adopting keys\<close>

definition adopt_key_locked ::
  "('a, 'd) sub_env \<Rightarrow> str \<Rightarrow> str \<Rightarrow> 'd option \<Rightarrow> 'd \<Rightarrow> str \<Rightarrow> 'd pool_io" where
  "adopt_key_locked E remote node digest pre_digest live_key =
     io_bind sub_lock (\<lambda>_.
     io_bind (sub_config E) (\<lambda>(config, config_digest).
     io_bind (sub_detect_modification E config_digest digest) (\<lambda>_.
     io_bind (require (config_digest = pre_digest) ChangedDuringFetch) (\<lambda>_.
     io_bind (require (\<not> list_ex (\<lambda>(_, e). bound_to e remote node) config) AlreadyManaged) (\<lambda>_.
       case al_get config live_key of
         Some existing \<Rightarrow>
           if ke_remote existing \<noteq> None \<or> ke_node existing \<noteq> None then io_fail BoundElsewhere
           else sub_save E (al_put live_key (existing\<lparr>ke_remote := Some remote, ke_node := Some node\<rparr>) config)
       | None \<Rightarrow>
           if \<not> subscription_key_schema live_key then io_fail SchemaRejected
           else (case product_from_key live_key of
                   None \<Rightarrow> io_fail (UnrecognisedKey (redact_key live_key))
                 | Some product \<Rightarrow>
                     (case level_from_key (Some live_key) of
                        None \<Rightarrow> io_fail Panicked
                      | Some level \<Rightarrow>
                          sub_save E (al_put live_key (new_entry E live_key product level Adopted (Some (remote, node))) config))))))))"

definition adopt_key ::
  "('a, 'd) sub_env \<Rightarrow> (pool_state \<Rightarrow> pool_state) \<Rightarrow> live_info \<Rightarrow> 'a option \<Rightarrow> str \<Rightarrow> str \<Rightarrow> 'd option \<Rightarrow> 'd pool_io" where
  "adopt_key E meanwhile live caller remote node digest =
     io_bind (require (su_node_schema E node) InvalidParameter) (\<lambda>_.
     io_bind (auth_of caller) (\<lambda>auth_id.
     io_bind (require (may_modify E auth_id remote) Denied) (\<lambda>_.
     io_bind (sub_config E) (\<lambda>(_, pre_digest).
     io_bind (remotes_config E) (\<lambda>remotes.
       case map_of remotes remote of
         None \<Rightarrow> io_fail (RemoteNotFound remote)
       | Some _ \<Rightarrow>
           (case live remote of
              Inl err \<Rightarrow> io_fail (QueryFailed err)
            | Inr infos \<Rightarrow>
                (case Option.bind (Option.bind (map_of infos node) (\<lambda>i. i)) si_key of
                   None \<Rightarrow> io_fail NoLiveSubscription
                 | Some live_key \<Rightarrow>
                     io_bind (io_modify meanwhile) (\<lambda>_.
                       adopt_key_locked E remote node digest pre_digest live_key))))))))"

section \<open>Node states\<close>

definition node_fields ::
  "NodeSubscriptionInfo option \<Rightarrow>
   SubscriptionStatus \<times> SubscriptionLevel \<times> int option \<times> str option \<times> int option \<times> str option" where
  "node_fields info =
     (case info of
        Some i \<Rightarrow> (si_status i, si_level i, si_sockets i, si_key i, si_check_time i, si_next_due_date i)
      | None \<Rightarrow> (StatusNotFound, LvNone, None, None, None, None))"

definition node_status_of ::
  "str \<Rightarrow> RemoteType \<Rightarrow> str \<Rightarrow> NodeSubscriptionInfo option \<Rightarrow> str option \<Rightarrow> bool \<Rightarrow> RemoteNodeStatus" where
  "node_status_of remote ty node info assigned pending =
     (case node_fields info of (status, level, sockets, current_key, check_time, due) \<Rightarrow>
        \<lparr>rn_remote = remote, rn_ty = ty, rn_node = node, rn_sockets = sockets, rn_status = status, rn_level = level,
         rn_assigned_key = assigned, rn_current_key = current_key, rn_pending_clear = pending,
         rn_check_time = check_time, rn_next_due_date = due\<rparr>)"

definition compare_status :: "RemoteNodeStatus \<Rightarrow> RemoteNodeStatus \<Rightarrow> ordering" where
  "compare_status a b = cmp_of (rn_remote a, rn_node a) (rn_remote b, rn_node b)"

definition collect_node_status ::
  "('a, 'd) sub_env \<Rightarrow> (pool_state \<Rightarrow> pool_state) \<Rightarrow> live_info \<Rightarrow> 'a option \<Rightarrow> RemoteNodeStatus list pool_io" where
  "collect_node_status E meanwhile live caller =
     io_bind (auth_of caller) (\<lambda>auth_id.
     io_bind (remotes_config E) (\<lambda>remotes.
       let visible = filter (\<lambda>(name, _). has_priv E auth_id name PRIV_RESOURCE_AUDIT) remotes
       in io_bind (sub_config E) (\<lambda>(keys, _).
          io_bind (io_modify meanwhile) (\<lambda>_.
            io_return (sort_by compare_status
              (concat (map (\<lambda>(name, remote).
                 case live name of
                   Inl _ \<Rightarrow> []
                 | Inr infos \<Rightarrow>
                     map (\<lambda>(node, info).
                       case find_bound keys name node of
                         Some (_, e) \<Rightarrow> node_status_of name (remote_ty remote) node info (Some (ke_key e)) (ke_pending_clear e)
                       | None \<Rightarrow> node_status_of name (remote_ty remote) node info None False) infos) visible)))))))"

definition collect_status_uncached :: "live_info \<Rightarrow> (str \<times> Remote) list \<Rightarrow> RemoteNodeStatus list" where
  "collect_status_uncached live remotes =
     concat (map (\<lambda>(name, remote).
       case live name of
         Inl _ \<Rightarrow> []
       | Inr infos \<Rightarrow> map (\<lambda>(node, info). node_status_of name (remote_ty remote) node info None False) infos) remotes)"

definition adopt_candidate ::
  "('a, 'd) sub_env \<Rightarrow> 'a \<Rightarrow> RemoteNodeStatus \<Rightarrow> (str, SubscriptionKeyEntry) alist \<times> (str \<times> str \<times> str) list \<Rightarrow>
   ((str, SubscriptionKeyEntry) alist \<times> (str \<times> str \<times> str) list) pool_io" where
  "adopt_candidate E auth_id n acc =
     (case acc of (config, adopted) \<Rightarrow>
        case rn_current_key n of
          None \<Rightarrow> io_return acc
        | Some current_key \<Rightarrow>
            if rn_assigned_key n \<noteq> None \<or> \<not> has_priv E auth_id (rn_remote n) PRIV_RESOURCE_MODIFY \<or>
               \<not> su_node_schema E (rn_node n) \<or> list_ex (\<lambda>(_, e). bound_to e (rn_remote n) (rn_node n)) config
            then io_return acc
            else
              (let adopted' = adopted @ [(rn_remote n, rn_node n, current_key)]
               in case al_get config current_key of
                    Some existing \<Rightarrow>
                      if ke_remote existing \<noteq> None \<or> ke_node existing \<noteq> None then io_return acc
                      else io_return
                        (al_put current_key
                           (existing\<lparr>ke_remote := Some (rn_remote n), ke_node := Some (rn_node n)\<rparr>) config, adopted')
                  | None \<Rightarrow>
                      if \<not> subscription_key_schema current_key then io_return acc
                      else (case product_from_key current_key of
                              None \<Rightarrow> io_return acc
                            | Some product \<Rightarrow>
                                (case level_from_key (Some current_key) of
                                   None \<Rightarrow> io_fail Panicked
                                 | Some level \<Rightarrow>
                                     io_return
                                       (al_put current_key
                                          (new_entry E current_key product level Adopted (Some (rn_remote n, rn_node n)))
                                          config, adopted')))))"

definition adopt_all_locked ::
  "('a, 'd) sub_env \<Rightarrow> 'a \<Rightarrow> RemoteNodeStatus list \<Rightarrow> 'd option \<Rightarrow> (str \<times> str \<times> str) list pool_io" where
  "adopt_all_locked E auth_id node_statuses digest =
     io_bind sub_lock (\<lambda>_.
     io_bind (sub_config E) (\<lambda>(config, config_digest).
     io_bind (sub_detect_modification E config_digest digest) (\<lambda>_.
     io_bind (io_fold (adopt_candidate E auth_id) node_statuses (config, [])) (\<lambda>(config', adopted).
       if adopted = [] then io_return adopted
       else io_bind (sub_save E config') (\<lambda>_. io_return adopted)))))"

definition adopt_all ::
  "('a, 'd) sub_env \<Rightarrow> (pool_state \<Rightarrow> pool_state) \<Rightarrow> live_info \<Rightarrow> 'a option \<Rightarrow> 'd option \<Rightarrow> (str \<times> str \<times> str) list pool_io" where
  "adopt_all E meanwhile live caller digest =
     io_bind (auth_of caller) (\<lambda>auth_id.
     io_bind (collect_node_status E meanwhile live caller) (\<lambda>node_statuses.
     io_bind (io_modify meanwhile) (\<lambda>_.
       adopt_all_locked E auth_id node_statuses digest)))"

section \<open>Proposals\<close>

record ProposedAssignment =
  pa_key :: str
  pa_remote :: str
  pa_node :: str
  pa_key_sockets :: "nat option"
  pa_node_sockets :: "int option"

record 'd AutoAssignProposal =
  aa_assignments :: "ProposedAssignment list"
  aa_keys_digest :: 'd
  aa_node_status_digest :: str

definition hash_node_status :: "('a, 'd) sub_env \<Rightarrow> RemoteNodeStatus list \<Rightarrow> str" where
  "hash_node_status E statuses =
     su_hash E
       (sort_by (\<lambda>a b. cmp_of (fst a, fst (snd a)) (fst b, fst (snd b)))
         (map (\<lambda>n. (rn_remote n, rn_node n, rn_status n, rn_sockets n, rn_assigned_key n \<noteq> None)) statuses))"

text \<open>\<^verbatim>\<open>as u32\<close> of an \<^verbatim>\<open>i64\<close>.\<close>

definition as_u32 :: "int \<Rightarrow> nat" where
  "as_u32 i = nat (i mod 2 ^ 32)"

definition candidates ::
  "(str, SubscriptionKeyEntry) alist \<Rightarrow> str list \<Rightarrow> RemoteType \<Rightarrow> (str, SubscriptionKeyEntry) alist" where
  "candidates config taken ty =
     filter (\<lambda>(i, e). ke_remote e = None \<and> i \<notin> set taken \<and> matches_remote_type (ke_product_type e) ty) config"

definition best_key :: "(str, SubscriptionKeyEntry) alist \<Rightarrow> str list \<Rightarrow> RemoteNodeStatus \<Rightarrow> str option" where
  "best_key config taken n =
     (if rn_ty n = Pve then
        pick_best_pve_socket_key (as_u32 (case rn_sockets n of Some s \<Rightarrow> s | None \<Rightarrow> 1))
          (map (\<lambda>(i, e). (i, ke_key e)) (candidates config taken (rn_ty n)))
      else (case candidates config taken (rn_ty n) of (i, _) # _ \<Rightarrow> Some i | [] \<Rightarrow> None))"

definition propose ::
  "(str, SubscriptionKeyEntry) alist \<Rightarrow> RemoteNodeStatus \<Rightarrow> ProposedAssignment list \<times> str list \<Rightarrow>
   ProposedAssignment list \<times> str list" where
  "propose config n acc =
     (case acc of (proposals, taken) \<Rightarrow>
        case best_key config taken n of
          None \<Rightarrow> acc
        | Some key_id \<Rightarrow>
            (proposals @
              [\<lparr>pa_key = key_id, pa_remote = rn_remote n, pa_node = rn_node n,
                pa_key_sockets = Option.bind (al_get config key_id) (\<lambda>e. socket_count_from_key (ke_key e)),
                pa_node_sockets = rn_sockets n\<rparr>], key_id # taken))"

definition target_nodes :: "RemoteNodeStatus list \<Rightarrow> RemoteNodeStatus list" where
  "target_nodes node_statuses =
     sort_by (\<lambda>a b. cmp_of (- (case rn_sockets a of Some s \<Rightarrow> s | None \<Rightarrow> 0)) (- (case rn_sockets b of Some s \<Rightarrow> s | None \<Rightarrow> 0)))
       (filter (\<lambda>n. rn_assigned_key n = None \<and> rn_status n \<noteq> StatusActive) node_statuses)"

definition compute_proposals ::
  "(str, SubscriptionKeyEntry) alist \<Rightarrow> RemoteNodeStatus list \<Rightarrow> ProposedAssignment list" where
  "compute_proposals config node_statuses = fst (fold (propose config) (target_nodes node_statuses) ([], []))"

definition auto_assign ::
  "('a, 'd) sub_env \<Rightarrow> (pool_state \<Rightarrow> pool_state) \<Rightarrow> live_info \<Rightarrow> 'a option \<Rightarrow> 'd AutoAssignProposal pool_io" where
  "auto_assign E meanwhile live caller =
     io_bind (collect_node_status E meanwhile live caller) (\<lambda>node_statuses.
     io_bind (sub_config E) (\<lambda>(config, keys_digest).
       io_return \<lparr>aa_assignments = compute_proposals config node_statuses, aa_keys_digest = keys_digest,
         aa_node_status_digest = hash_node_status E node_statuses\<rparr>))"

definition apply_proposal ::
  "('a, 'd) sub_env \<Rightarrow> 'a \<Rightarrow> (str \<times> Remote) list \<Rightarrow> ProposedAssignment \<Rightarrow>
   (str, SubscriptionKeyEntry) alist \<times> ProposedAssignment list \<Rightarrow> (str, SubscriptionKeyEntry) alist \<times> ProposedAssignment list" where
  "apply_proposal E auth_id remotes p acc =
     (case acc of (config, applied) \<Rightarrow>
        if \<not> has_priv E auth_id (pa_remote p) PRIV_RESOURCE_MODIFY \<or> \<not> su_node_schema E (pa_node p) then acc
        else (case map_of remotes (pa_remote p) of
                None \<Rightarrow> acc
              | Some remote_entry \<Rightarrow>
                  (case al_get config (pa_key p) of
                     None \<Rightarrow> acc
                   | Some entry \<Rightarrow>
                       if \<not> matches_remote_type (ke_product_type entry) (remote_ty remote_entry) \<or>
                          list_ex (\<lambda>(_, e). ke_key e \<noteq> pa_key p \<and> bound_to e (pa_remote p) (pa_node p)) config
                       then acc
                       else if ke_remote entry = None then
                         (al_put (pa_key p)
                            (entry\<lparr>ke_remote := Some (pa_remote p), ke_node := Some (pa_node p), ke_pending_clear := False\<rparr>)
                            config, applied @ [p])
                       else acc)))"

definition bulk_assign_locked ::
  "('a, 'd) sub_env \<Rightarrow> 'a \<Rightarrow> 'd AutoAssignProposal \<Rightarrow> ProposedAssignment list pool_io" where
  "bulk_assign_locked E auth_id proposal =
     io_bind sub_lock (\<lambda>_.
     io_bind (sub_config E) (\<lambda>(config, config_digest).
     io_bind (sub_detect_modification E config_digest (Some (aa_keys_digest proposal))) (\<lambda>_.
     io_bind (remotes_config E) (\<lambda>remotes.
       let (config', applied) = fold (apply_proposal E auth_id remotes) (aa_assignments proposal) (config, [])
       in if applied = [] then io_return applied
          else io_bind (sub_save E config') (\<lambda>_. io_return applied)))))"

definition bulk_assign ::
  "('a, 'd) sub_env \<Rightarrow> (pool_state \<Rightarrow> pool_state) \<Rightarrow> live_info \<Rightarrow> 'a option \<Rightarrow> 'd AutoAssignProposal \<Rightarrow>
   ProposedAssignment list pool_io" where
  "bulk_assign E meanwhile live caller proposal =
     io_bind (auth_of caller) (\<lambda>auth_id.
     io_bind (collect_node_status E meanwhile live caller) (\<lambda>node_statuses.
     io_bind (require (hash_node_status E node_statuses = aa_node_status_digest proposal) NodeStatusChanged) (\<lambda>_.
     io_bind (io_modify meanwhile) (\<lambda>_.
       bulk_assign_locked E auth_id proposal))))"

section \<open>Pending changes\<close>

datatype PendingOp = Push | Clear

record PendingEntry =
  pe_key :: str
  pe_remote :: str
  pe_node :: str
  pe_op :: PendingOp

definition pending_of ::
  "('a, 'd) sub_env \<Rightarrow> 'a \<Rightarrow> RemoteNodeStatus list \<Rightarrow> SubscriptionKeyEntry \<Rightarrow> PendingEntry option" where
  "pending_of E auth_id node_statuses entry =
     (case (ke_remote entry, ke_node entry) of
        (Some remote, Some node) \<Rightarrow>
          if \<not> has_priv E auth_id remote PRIV_RESOURCE_MODIFY then None
          else if ke_pending_clear entry then
            Some \<lparr>pe_key = ke_key entry, pe_remote = remote, pe_node = node, pe_op = Clear\<rparr>
          else let is_pending =
                 (case List.find (\<lambda>n. rn_remote n = remote \<and> rn_node n = node) node_statuses of
                    Some n \<Rightarrow> rn_current_key n \<noteq> Some (ke_key entry)
                  | None \<Rightarrow> True)
               in if is_pending then Some \<lparr>pe_key = ke_key entry, pe_remote = remote, pe_node = node, pe_op = Push\<rparr>
                  else None
      | _ \<Rightarrow> None)"

definition compute_pending ::
  "('a, 'd) sub_env \<Rightarrow> 'a \<Rightarrow> RemoteNodeStatus list \<Rightarrow> PendingEntry list pool_io" where
  "compute_pending E auth_id node_statuses =
     io_bind (sub_config E) (\<lambda>(config, _).
       io_return (List.map_filter (\<lambda>(_, e). pending_of E auth_id node_statuses e) config))"

definition pool_assignment_still_valid :: "(str, SubscriptionKeyEntry) alist \<Rightarrow> PendingEntry \<Rightarrow> bool" where
  "pool_assignment_still_valid config entry =
     (case al_get config (pe_key entry) of
        None \<Rightarrow> False
      | Some stored \<Rightarrow> bound_to stored (pe_remote entry) (pe_node entry))"

definition drop_binding :: "('a, 'd) sub_env \<Rightarrow> PendingEntry \<Rightarrow> unit pool_io" where
  "drop_binding E entry =
     io_bind sub_lock (\<lambda>_.
     io_bind (sub_config E) (\<lambda>(config, _).
       let updated = (case al_get config (pe_key entry) of
             Some stored \<Rightarrow>
               if bound_to stored (pe_remote entry) (pe_node entry) then al_put (pe_key entry) (unbind stored) config else config
           | None \<Rightarrow> config)
       in io_bind (sub_save E updated) (\<lambda>_. io_return ())))"

text \<open>The work on one entry; the loop collects its errors and goes on.\<close>

definition execute_pending ::
  "('a, 'd) sub_env \<Rightarrow> (pool_state \<Rightarrow> pool_state) \<Rightarrow> (str \<times> Remote) list \<Rightarrow> PendingEntry \<Rightarrow> unit pool_io" where
  "execute_pending E meanwhile remotes entry =
     (case pe_op entry of
        Push \<Rightarrow>
          (case map_of remotes (pe_remote entry) of
             None \<Rightarrow> io_fail (RemoteNotFound (pe_remote entry))
           | Some _ \<Rightarrow> push_key_to_remote (pe_remote entry) (pe_key entry) (pe_node entry))
      | Clear \<Rightarrow>
          (case product_from_key (pe_key entry) of
             None \<Rightarrow> io_fail (UnrecognisedKey (redact_key (pe_key entry)))
           | Some product \<Rightarrow>
               io_bind (case map_of remotes (pe_remote entry) of
                   Some _ \<Rightarrow> delete_subscription_on_remote (pe_remote entry) product (pe_node entry)
                 | None \<Rightarrow> io_return ())
               (\<lambda>_. io_bind (io_modify meanwhile) (\<lambda>_. drop_binding E entry))))"

definition op_consistent :: "(str, SubscriptionKeyEntry) alist \<Rightarrow> PendingEntry \<Rightarrow> bool" where
  "op_consistent config entry =
     (let current = (case al_get config (pe_key entry) of Some e \<Rightarrow> ke_pending_clear e | None \<Rightarrow> False)
      in case pe_op entry of Push \<Rightarrow> \<not> current | Clear \<Rightarrow> current)"

definition apply_step ::
  "('a, 'd) sub_env \<Rightarrow> (pool_state \<Rightarrow> pool_state) \<Rightarrow> (str \<times> Remote) list \<Rightarrow> PendingEntry \<Rightarrow> nat \<times> (str \<times> str) list \<Rightarrow>
   (nat \<times> (str \<times> str) list) pool_io" where
  "apply_step E meanwhile remotes entry acc =
     (case acc of (done_count, failures) \<Rightarrow>
        io_bind (io_modify meanwhile) (\<lambda>_.
        io_bind (sub_config E) (\<lambda>(config, _).
          if \<not> pool_assignment_still_valid config entry \<or> \<not> op_consistent config entry then io_return acc
          else io_bind (io_try (execute_pending E meanwhile remotes entry)) (\<lambda>r.
            case r of
              Inl _ \<Rightarrow> io_return (done_count, failures @ [(pe_remote entry, pe_node entry)])
            | Inr _ \<Rightarrow>
                io_bind (io_try (send_request (InvalidateCache (pe_remote entry)))) (\<lambda>_.
                  io_return (done_count + 1, failures))))))"

definition run_apply_pending ::
  "('a, 'd) sub_env \<Rightarrow> (pool_state \<Rightarrow> pool_state) \<Rightarrow> live_info \<Rightarrow> 'a \<Rightarrow> nat pool_io" where
  "run_apply_pending E meanwhile live auth_id =
     io_bind (remotes_config E) (\<lambda>remotes.
     io_bind (compute_pending E auth_id (collect_status_uncached live remotes)) (\<lambda>pending.
       if pending = [] then io_return 0
       else io_bind (io_fold (apply_step E meanwhile remotes) pending (0, [])) (\<lambda>(done_count, failures).
         if failures \<noteq> [] then io_fail (ApplyFailed done_count (length pending) failures)
         else io_return done_count)))"

text \<open>The API call starts the worker iff something is pending.\<close>

definition apply_pending ::
  "('a, 'd) sub_env \<Rightarrow> (pool_state \<Rightarrow> pool_state) \<Rightarrow> live_info \<Rightarrow> 'a option \<Rightarrow> 'd option \<Rightarrow> bool pool_io" where
  "apply_pending E meanwhile live caller digest =
     io_bind (auth_of caller) (\<lambda>auth_id.
     io_bind (sub_config E) (\<lambda>(_, config_digest).
     io_bind (sub_detect_modification E config_digest digest) (\<lambda>_.
     io_bind (collect_node_status E meanwhile live caller) (\<lambda>node_statuses.
     io_bind (compute_pending E auth_id node_statuses) (\<lambda>pending.
       io_return (pending \<noteq> []))))))"

definition discard_pending ::
  "PendingEntry \<Rightarrow> (str, SubscriptionKeyEntry) alist \<times> nat \<Rightarrow> (str, SubscriptionKeyEntry) alist \<times> nat" where
  "discard_pending entry acc =
     (case acc of (config, cleared) \<Rightarrow>
        case al_get config (pe_key entry) of
          Some stored \<Rightarrow>
            if bound_to stored (pe_remote entry) (pe_node entry) then
              (al_put (pe_key entry)
                 (case pe_op entry of Clear \<Rightarrow> stored\<lparr>ke_pending_clear := False\<rparr> | Push \<Rightarrow> unbind stored) config, cleared + 1)
            else acc
        | None \<Rightarrow> acc)"

definition clear_pending_locked ::
  "('a, 'd) sub_env \<Rightarrow> PendingEntry list \<Rightarrow> 'd option \<Rightarrow> nat pool_io" where
  "clear_pending_locked E pending digest =
     io_bind sub_lock (\<lambda>_.
     io_bind (sub_config E) (\<lambda>(config, locked_digest).
     io_bind (sub_detect_modification E locked_digest digest) (\<lambda>_.
       let (config', cleared) = fold discard_pending pending (config, 0)
       in if cleared > 0 then io_bind (sub_save E config') (\<lambda>_. io_return cleared) else io_return cleared)))"

definition clear_pending ::
  "('a, 'd) sub_env \<Rightarrow> (pool_state \<Rightarrow> pool_state) \<Rightarrow> live_info \<Rightarrow> 'a option \<Rightarrow> 'd option \<Rightarrow> nat pool_io" where
  "clear_pending E meanwhile live caller digest =
     io_bind (auth_of caller) (\<lambda>auth_id.
     io_bind (sub_config E) (\<lambda>(_, pre_digest).
     io_bind (sub_detect_modification E pre_digest digest) (\<lambda>_.
     io_bind (collect_node_status E meanwhile live caller) (\<lambda>node_statuses.
     io_bind (compute_pending E auth_id node_statuses) (\<lambda>pending.
       if pending = [] then io_return 0
       else io_bind (io_modify meanwhile) (\<lambda>_. clear_pending_locked E pending digest))))))"

section \<open>Calls\<close>

text \<open>The calls of the router. Results are dropped; \<^verbatim>\<open>apply-pending\<close> includes the worker it starts.\<close>

datatype 'd pool_call =
    ListKeys
  | AddKeys "str list" "'d option"
  | GetKey str
  | RemoveKey str "'d option"
  | SetAssignment str str str "'d option"
  | ClearAssignment str "'d option"
  | QueueClear str str "'d option"
  | RevertPendingClear str str "'d option"
  | CheckSubscription str str
  | AdoptKey str str "'d option"
  | AdoptAll "'d option"
  | NodeStatus
  | AutoAssign
  | BulkAssign "'d AutoAssignProposal"
  | ApplyPending "'d option"
  | ClearPending "'d option"

definition ignore :: "'r pool_io \<Rightarrow> unit pool_io" where
  "ignore m = io_bind m (\<lambda>_. io_return ())"

definition handle ::
  "('a, 'd) sub_env \<Rightarrow> (pool_state \<Rightarrow> pool_state) \<Rightarrow> live_info \<Rightarrow> 'a \<Rightarrow> 'd pool_call \<Rightarrow> unit pool_io" where
  "handle E meanwhile live a call =
     (case call of
        ListKeys \<Rightarrow> ignore (list_keys E (Some a))
      | AddKeys keys digest \<Rightarrow> ignore (add_keys E keys digest)
      | GetKey key \<Rightarrow> ignore (get_key E (Some a) key)
      | RemoveKey key digest \<Rightarrow> ignore (delete_key E meanwhile live (Some a) key digest)
      | SetAssignment key remote node digest \<Rightarrow> ignore (set_assignment E meanwhile live (Some a) key remote node digest)
      | ClearAssignment key digest \<Rightarrow> ignore (clear_assignment E meanwhile live (Some a) key digest)
      | QueueClear remote node digest \<Rightarrow> ignore (queue_clear E (Some a) remote node digest)
      | RevertPendingClear remote node digest \<Rightarrow> ignore (revert_pending_clear E (Some a) remote node digest)
      | CheckSubscription remote node \<Rightarrow> check_subscription E (Some a) remote node
      | AdoptKey remote node digest \<Rightarrow> ignore (adopt_key E meanwhile live (Some a) remote node digest)
      | AdoptAll digest \<Rightarrow> ignore (adopt_all E meanwhile live (Some a) digest)
      | NodeStatus \<Rightarrow> ignore (collect_node_status E meanwhile live (Some a))
      | AutoAssign \<Rightarrow> ignore (auto_assign E meanwhile live (Some a))
      | BulkAssign proposal \<Rightarrow> ignore (bulk_assign E meanwhile live (Some a) proposal)
      | ApplyPending digest \<Rightarrow>
          io_bind (apply_pending E meanwhile live (Some a) digest) (\<lambda>start.
            if start then io_bind (io_modify meanwhile) (\<lambda>_. ignore (run_apply_pending E meanwhile live a)) else io_return ())
      | ClearPending digest \<Rightarrow> ignore (clear_pending E meanwhile live (Some a) digest))"

end
