(* ===== verification/SubscriptionPoolInv.thy ===== *)
theory SubscriptionPoolInv
  imports SubscriptionPool
begin

text \<open>
  The changes that handlers may make to the key pool, as an abstract step relation \<open>pool_change\<close> on its
  sections, and the simulation: whatever calls fail, every handler changes the pool only by such steps.
  The locale \<open>pool_guarantee\<close> is the contract between the two: a predicate on pools that implies the
  invariant and is kept by the steps of a caller is kept by the caller's handlers.
\<close>

section \<open>Invariant\<close>

definition entry_ok :: "('a, 'd) sub_env \<Rightarrow> str \<Rightarrow> SubscriptionKeyEntry \<Rightarrow> bool" where
  "entry_ok E k e \<longleftrightarrow>
     ke_key e = k \<and> subscription_key_schema k \<and> product_from_key k = Some (ke_product_type e) \<and>
     (ke_remote e = None \<longleftrightarrow> ke_node e = None) \<and> (\<forall>n. ke_node e = Some n \<longrightarrow> su_node_schema E n) \<and>
     (ke_pending_clear e \<longrightarrow> ke_remote e \<noteq> None)"

definition pool_inv :: "('a, 'd) sub_env \<Rightarrow> (str, SubscriptionKeyEntry) alist \<Rightarrow> bool" where
  "pool_inv E K \<longleftrightarrow>
     al_keys_distinct K \<and> (\<forall>k e. al_get K k = Some e \<longrightarrow> entry_ok E k e) \<and>
     (\<forall>k k' e e' r n. al_get K k = Some e \<longrightarrow> al_get K k' = Some e' \<longrightarrow> bound_to e r n \<longrightarrow> bound_to e' r n \<longrightarrow> k = k')"

lemma pool_inv_distinct: "pool_inv E K \<Longrightarrow> al_keys_distinct K"
  by (simp add: pool_inv_def)

lemma pool_inv_entry: "pool_inv E K \<Longrightarrow> al_get K k = Some e \<Longrightarrow> entry_ok E k e"
  by (simp add: pool_inv_def)

lemma pool_inv_set: "pool_inv E K \<Longrightarrow> (k, e) \<in> set K \<longleftrightarrow> al_get K k = Some e"
  by (rule al.items_get) (simp add: pool_inv_def)

section \<open>Abstract changes\<close>

definition authorized :: "('a, 'd) sub_env \<Rightarrow> 'a \<Rightarrow> str \<Rightarrow> bool" where
  "authorized E a r \<longleftrightarrow> may_modify E a r \<or> has_priv E a r PRIV_RESOURCE_MODIFY"

definition entry_authorized :: "('a, 'd) sub_env \<Rightarrow> 'a \<Rightarrow> SubscriptionKeyEntry \<Rightarrow> bool" where
  "entry_authorized E a e \<longleftrightarrow> (\<forall>r. ke_remote e = Some r \<longrightarrow> authorized E a r)"

definition node_free :: "(str, SubscriptionKeyEntry) alist \<Rightarrow> str \<Rightarrow> str \<Rightarrow> str \<Rightarrow> bool" where
  "node_free K k r n \<longleftrightarrow> (\<forall>k' e. al_get K k' = Some e \<longrightarrow> bound_to e r n \<longrightarrow> k' = k)"

inductive pool_change ::
  "('a, 'd) sub_env \<Rightarrow> 'a \<Rightarrow> (str, SubscriptionKeyEntry) alist \<Rightarrow> (str, SubscriptionKeyEntry) alist \<Rightarrow> bool" for E a where
  ch_add: "al_get K k = None \<Longrightarrow> subscription_key_schema k \<Longrightarrow> product_from_key k = Some p \<Longrightarrow>
    pool_change E a K (al_put k (new_entry E k p l Manual None) K)"
| ch_adopt: "al_get K k = None \<Longrightarrow> subscription_key_schema k \<Longrightarrow> product_from_key k = Some p \<Longrightarrow>
    authorized E a r \<Longrightarrow> su_node_schema E n \<Longrightarrow> node_free K k r n \<Longrightarrow>
    pool_change E a K (al_put k (new_entry E k p l Adopted (Some (r, n))) K)"
| ch_bind: "al_get K k = Some e \<Longrightarrow> entry_authorized E a e \<Longrightarrow> authorized E a r \<Longrightarrow> su_node_schema E n \<Longrightarrow>
    node_free K k r n \<Longrightarrow> (f \<Longrightarrow> ke_pending_clear e) \<Longrightarrow>
    pool_change E a K (al_put k (e\<lparr>ke_remote := Some r, ke_node := Some n, ke_pending_clear := f\<rparr>) K)"
| ch_flag: "al_get K k = Some e \<Longrightarrow> ke_remote e = Some r \<Longrightarrow> authorized E a r \<Longrightarrow>
    pool_change E a K (al_put k (e\<lparr>ke_pending_clear := f\<rparr>) K)"
| ch_unbind: "al_get K k = Some e \<Longrightarrow> entry_authorized E a e \<Longrightarrow> pool_change E a K (al_put k (unbind e) K)"
| ch_remove: "al_get K k = Some e \<Longrightarrow> entry_authorized E a e \<Longrightarrow> pool_change E a K (al_del k K)"

inductive_cases pool_changeE: "pool_change E a K K'"

lemma pool_inv_put:
  assumes "pool_inv E K" and "entry_ok E k e" and "\<And>r n. bound_to e r n \<Longrightarrow> node_free K k r n"
  shows "pool_inv E (al_put k e K)"
proof -
  have "k1 = k2" if "((al_get K)(k \<mapsto> e)) k1 = Some e1" "((al_get K)(k \<mapsto> e)) k2 = Some e2" "bound_to e1 r n" "bound_to e2 r n"
    for k1 k2 e1 e2 r n
  proof (cases "k1 = k \<or> k2 = k")
    case True
    with that assms(3) [of r n] show ?thesis unfolding node_free_def fun_upd_def by (metis option.inject)
  next
    case False
    with that assms(1) show ?thesis unfolding pool_inv_def by (metis fun_upd_other)
  qed
  moreover have "entry_ok E k1 e1" if "((al_get K)(k \<mapsto> e)) k1 = Some e1" for k1 e1
    using that assms(2) pool_inv_entry [OF assms(1), of k1 e1] by (cases "k1 = k") simp_all
  ultimately show ?thesis
    unfolding pool_inv_def al_get_put
    using al_keys_distinct_put [OF pool_inv_distinct [OF assms(1)]] by blast
qed

lemma pool_inv_node_free: "pool_inv E K \<Longrightarrow> al_get K k = Some e \<Longrightarrow> bound_to e r n \<Longrightarrow> node_free K k r n"
  unfolding pool_inv_def node_free_def by blast

lemma pool_change_inv:
  assumes "pool_change E a K K'" and "pool_inv E K"
  shows "pool_inv E K'"
  using assms(1)
proof cases
  case (ch_add k p l)
  then show ?thesis
    by (auto intro!: pool_inv_put [OF assms(2)] simp: entry_ok_def new_entry_def bound_to_def)
next
  case (ch_adopt k p r n l)
  then show ?thesis
    by (auto intro!: pool_inv_put [OF assms(2)] simp: entry_ok_def new_entry_def bound_to_def)
next
  case (ch_bind k e r n f)
  then show ?thesis using pool_inv_entry [OF assms(2) ch_bind(2)]
    by (auto intro!: pool_inv_put [OF assms(2)] simp: entry_ok_def bound_to_def)
next
  case (ch_flag k e r f)
  then show ?thesis using pool_inv_entry [OF assms(2) ch_flag(2)] pool_inv_node_free [OF assms(2) ch_flag(2)]
    by (auto intro!: pool_inv_put [OF assms(2)] simp: entry_ok_def bound_to_def)
next
  case (ch_unbind k e)
  then show ?thesis using pool_inv_entry [OF assms(2) ch_unbind(2)]
    by (auto intro!: pool_inv_put [OF assms(2)] simp: entry_ok_def unbind_def bound_to_def)
next
  case (ch_remove k e)
  show ?thesis
    using assms(2) unfolding ch_remove(1) pool_inv_def al_get_del
    by (auto simp: al_del_def al_keys_distinct_filter split: if_splits)
qed

text \<open>Which entries differ between two pools, and who may have changed them.\<close>

definition changes_authorized ::
  "('a, 'd) sub_env \<Rightarrow> 'a \<Rightarrow> (str, SubscriptionKeyEntry) alist \<Rightarrow> (str, SubscriptionKeyEntry) alist \<Rightarrow> bool" where
  "changes_authorized E a K K' \<longleftrightarrow>
     (\<forall>k. al_get K' k = al_get K k \<or>
        (\<forall>e. al_get K k = Some e \<longrightarrow> entry_authorized E a e) \<and> (\<forall>e. al_get K' k = Some e \<longrightarrow> entry_authorized E a e))"

lemma changes_authorized_refl: "changes_authorized E a K K"
  by (simp add: changes_authorized_def)

lemma changes_authorized_trans:
  "changes_authorized E a K K' \<Longrightarrow> changes_authorized E a K' K'' \<Longrightarrow> changes_authorized E a K K''"
  unfolding changes_authorized_def by metis

lemma pool_change_authorized: "pool_change E a K K' \<Longrightarrow> changes_authorized E a K K'"
  by (erule pool_changeE)
    (auto simp: changes_authorized_def al_get_put al_get_del entry_authorized_def new_entry_def unbind_def)

section \<open>Actions that leave the pool alone\<close>

named_theorems keeps_intros \<open>rules for actions that do not change the sections of the pool\<close>

definition keeps :: "'r pool_io \<Rightarrow> bool" where
  "keeps m \<longleftrightarrow> (\<forall>s. ps_keys (snd (m s)) = ps_keys s)"

lemma keeps_return [keeps_intros]: "keeps (io_return x)"
  by (simp add: keeps_def io_return_def)

lemma keeps_fail [keeps_intros]: "keeps (io_fail e)"
  by (simp add: keeps_def io_fail_def)

lemma keeps_bind [keeps_intros]: "keeps m \<Longrightarrow> (\<And>x. keeps (f x)) \<Longrightarrow> keeps (io_bind m f)"
  by (auto simp: keeps_def io_bind_def split: prod.split sum.split) (metis snd_conv)+

lemma keeps_try [keeps_intros]: "keeps m \<Longrightarrow> keeps (io_try m)"
  by (auto simp: keeps_def io_try_def split: prod.split)  (metis snd_conv)+

lemma keeps_sys: "(\<And>s. ps_keys (w s) = ps_keys s) \<Longrightarrow> keeps (pool_sys r w)"
  by (auto simp: keeps_def pool_sys_def Let_def split: list.split)

lemma keeps_basic [keeps_intros]:
  "keeps sub_lock" "keeps (sub_config E)" "keeps shadow_config" "keeps (save_shadow x)" "keeps (send_request q)"
  "keeps (require b e)" "keeps (auth_of c)" "keeps (remotes_config E)" "keeps (sub_detect_modification E d d')"
  "keeps (check_modify E a r)" "keeps (check_synced_assignment_for_unassign E live k t)"
  by (auto intro!: keeps_sys keeps_intros
      simp: sub_lock_def sub_config_def shadow_config_def save_shadow_def require_def auth_of_def remotes_config_def
        sub_detect_modification_def check_modify_def check_synced_assignment_for_unassign_def
      split: option.split sum.split)
    (simp add: keeps_def send_request_def split: list.split)

lemma keeps_requests [keeps_intros]:
  "keeps (push_key_to_remote r k n)" "keeps (delete_subscription_on_remote r p n)"
  by (auto intro!: keeps_intros simp: push_key_to_remote_def delete_subscription_on_remote_def split: option.split)

lemma keeps_adopt_candidate [keeps_intros]: "keeps (adopt_candidate E a ns acc)"
  by (auto intro!: keeps_intros simp: adopt_candidate_def Let_def split: prod.split option.split)

lemma keeps_reading [keeps_intros]: "keeps (compute_pending E a ns)"
  by (auto intro!: keeps_intros simp: compute_pending_def split: prod.split)

section \<open>Rules for a predicate on the pool\<close>

abbreviation pool_keeps :: "((str, SubscriptionKeyEntry) alist \<Rightarrow> bool) \<Rightarrow> 'r pool_io \<Rightarrow> bool" where
  "pool_keeps P \<equiv> io_inv (\<lambda>s. P (ps_keys s))"

lemma inv_keeps: "keeps m \<Longrightarrow> pool_keeps P m"
  by (simp add: keeps_def io_inv_def)

lemma inv_after: "keeps m \<Longrightarrow> (\<And>x. pool_keeps P (f x)) \<Longrightarrow> pool_keeps P (io_bind m f)"
  by (rule io_inv_bind [OF inv_keeps])

lemma inv_result:
  assumes "keeps m" and "\<And>s x s'. m s = (Inr x, s') \<Longrightarrow> pool_keeps P (f x)"
  shows "pool_keeps P (io_bind m f)"
  using inv_keeps [OF assms(1), of P] assms(2)
  unfolding io_inv_def io_bind_def by (fastforce split: prod.split sum.split)

lemma inv_config:
  assumes "\<And>c d. P c \<Longrightarrow> pool_keeps P (g c d)"
  shows "pool_keeps P (io_bind (sub_config E) (case_prod g))"
  using assms unfolding io_inv_def io_bind_def
  by (auto simp: sub_config_def pool_sys_def Let_def split: list.splits)

lemma inv_save: "P c \<Longrightarrow> pool_keeps P (sub_save E c)"
  by (auto simp: io_inv_def sub_save_def pool_sys_def Let_def split: list.splits)

lemma inv_save_then: "(\<And>d. keeps (f d)) \<Longrightarrow> P c \<Longrightarrow> pool_keeps P (io_bind (sub_save E c) f)"
  by (rule io_inv_bind [OF inv_save inv_keeps])

lemma inv_require: "(b \<Longrightarrow> pool_keeps P (f ())) \<Longrightarrow> pool_keeps P (io_bind (require b e) f)"
  by (auto simp: require_def io_inv_def io_bind_def io_return_def io_fail_def)

lemma inv_auth: "pool_keeps P (f a) \<Longrightarrow> pool_keeps P (io_bind (auth_of (Some a)) f)"
  by (simp add: auth_of_def io_inv_def io_bind_def io_return_def)

lemma inv_check_modify:
  "((\<And>r. t = Some r \<Longrightarrow> authorized E a r) \<Longrightarrow> pool_keeps P (f ())) \<Longrightarrow> pool_keeps P (io_bind (check_modify E a t) f)"
  by (cases t) (auto simp: check_modify_def require_def authorized_def io_inv_def io_bind_def io_return_def io_fail_def)

lemma inv_check_modify_if:
  "((c \<Longrightarrow> \<forall>r. t = Some r \<longrightarrow> authorized E a r) \<Longrightarrow> pool_keeps P (f ())) \<Longrightarrow>
   pool_keeps P (io_bind (if c then check_modify E a t else io_return ()) f)"
  using inv_check_modify [of t E a P f] by (cases c) (auto simp: io_bind_def io_return_def io_inv_def)

lemma inv_fold:
  assumes "\<And>x b. x \<in> set xs \<Longrightarrow> I b \<Longrightarrow> io_triple (\<lambda>_. True) (g x b) (\<lambda>b' _. I b') (\<lambda>_. True)"
    and "keeps (io_fold g xs b)" and "I b" and "\<And>b'. I b' \<Longrightarrow> pool_keeps P (f b')"
  shows "pool_keeps P (io_bind (io_fold g xs b) f)"
proof (rule inv_result [OF assms(2)])
  fix s x s'
  assume "io_fold g xs b s = (Inr x, s')"
  moreover have "io_triple (\<lambda>_. True) (io_fold g xs b) (\<lambda>b' s. I b' \<and> True) (\<lambda>_. True)"
    by (rule io_triple_fold [where I = I and b = b]) (use assms(1,3) in simp_all)
  ultimately show "pool_keeps P (f x)"
    using assms(4) by (auto dest: io_triple_InrD)
qed

lemma keeps_fold [keeps_intros]: "(\<And>x b. keeps (g x b)) \<Longrightarrow> keeps (io_fold g xs b)"
  by (induction xs arbitrary: b) (auto intro!: keeps_intros)

lemma inv_meanwhile:
  "(\<And>s. P (ps_keys s) \<Longrightarrow> P (ps_keys (w s))) \<Longrightarrow> pool_keeps P m \<Longrightarrow> pool_keeps P (io_bind (io_modify w) (\<lambda>_. m))"
  by (intro io_inv_bind io_inv_modify)

lemmas inv_step = io_inv_return io_inv_fail inv_save inv_save_then inv_config inv_require inv_auth inv_check_modify
  inv_after [OF keeps_basic(1)] inv_after [OF keeps_basic(9)] inv_after [OF keeps_basic(8)]
  io_inv_if io_inv_case_option io_inv_case_sum io_inv_case_prod

lemma keeps_if: "keeps m \<Longrightarrow> keeps m' \<Longrightarrow> keeps (if b then m else m')"
  by simp

lemma keeps_calls:
  "keeps (list_keys E c)" "keeps (get_key E c k)" "keeps (check_subscription E c r n)"
  by (auto intro!: keeps_intros
      simp: list_keys_def get_key_def check_subscription_def Let_def check_subscription_on_remote_def
      split: prod.split option.split)

text \<open>Reading calls change the pool only by what other callers do while the remotes are asked.\<close>

lemma reading_inv:
  assumes "\<And>s. P (ps_keys s) \<Longrightarrow> P (ps_keys (w s))"
  shows "pool_keeps P (collect_node_status E w live c)" "pool_keeps P (auto_assign E w live c)" "pool_keeps P (apply_pending E w live c d)"
proof -
  show status: "pool_keeps P (collect_node_status E w live c)"
    unfolding collect_node_status_def Let_def
    by (rule inv_step inv_after [OF keeps_basic(7)] inv_meanwhile | simp add: assms)+
  show "pool_keeps P (auto_assign E w live c)"
    unfolding auto_assign_def by (rule inv_step io_inv_bind [OF status])+
  show "pool_keeps P (apply_pending E w live c d)"
    unfolding apply_pending_def
    by (rule inv_step inv_after [OF keeps_basic(7)] io_inv_bind [OF status] inv_after [OF keeps_reading])+
qed

section \<open>Results of the helpers\<close>

lemma pending_of_Some:
  "pending_of E a ns e = Some p \<Longrightarrow>
   pe_key p = ke_key e \<and> bound_to e (pe_remote p) (pe_node p) \<and> has_priv E a (pe_remote p) PRIV_RESOURCE_MODIFY \<and>
   (pe_op p = Clear \<longleftrightarrow> ke_pending_clear e)"
  by (auto simp: pending_of_def bound_to_def Let_def split: option.splits if_splits)

lemma compute_pending_Inr:
  "compute_pending E a ns s = (Inr ps, s') \<Longrightarrow> p \<in> set ps \<Longrightarrow> \<exists>k e. (k, e) \<in> set (ps_keys s) \<and> pending_of E a ns e = Some p"
  unfolding compute_pending_def io_bind_eq_Inr
  by (auto simp: io_return_def set_map_filter sub_config_def pool_sys_def Let_def split: list.splits if_splits) blast+

lemma pending_authorized:
  "compute_pending E a ns s = (Inr ps, s') \<Longrightarrow> \<forall>p \<in> set ps. authorized E a (pe_remote p)"
  by (auto dest!: compute_pending_Inr pending_of_Some simp: authorized_def)

definition fresh_entry :: "('a, 'd) sub_env \<Rightarrow> SubscriptionKeyEntry \<Rightarrow> bool" where
  "fresh_entry E e \<longleftrightarrow>
     (\<exists>k p l. e = new_entry E k p l Manual None \<and> subscription_key_schema k \<and> product_from_key k = Some p)"

lemma collect_key_fresh:
  assumes "subscription_key_schema k" and "\<forall>e \<in> set (fst acc). fresh_entry E e"
  shows "io_triple (\<lambda>_. True) (collect_key E k acc) (\<lambda>acc' _. \<forall>e \<in> set (fst acc'). fresh_entry E e) (\<lambda>_. True)"
proof -
  have "fresh_entry E (new_entry E k p l Manual None)" if "product_from_key k = Some p" for p l
    using that assms(1) unfolding fresh_entry_def by blast
  then show ?thesis
    using assms(2) unfolding collect_key_def
    by (auto intro!: io_triple_return io_triple_fail split: prod.split option.split)
qed

lemma keeps_adding [keeps_intros]: "keeps (collect_key E k acc)" "keeps (insert_new e K)"
  by (auto intro!: keeps_intros simp: collect_key_def insert_new_def split: prod.split option.split)

section \<open>Handlers change the pool by steps\<close>

locale pool_guarantee =
  fixes E :: "('a, 'd) sub_env" and a :: 'a and P :: "(str, SubscriptionKeyEntry) alist \<Rightarrow> bool"
  assumes sound: "P K \<Longrightarrow> pool_inv E K" and step: "P K \<Longrightarrow> pool_change E a K K' \<Longrightarrow> P K'"
begin

lemma remove_step: "P K \<Longrightarrow> al_get K k = Some e \<Longrightarrow> (\<And>r. ke_remote e = Some r \<Longrightarrow> authorized E a r) \<Longrightarrow> P (al_del k K)"
  by (rule step [OF _ ch_remove]) (auto simp: entry_authorized_def)

lemma unbind_step: "P K \<Longrightarrow> al_get K k = Some e \<Longrightarrow> (\<And>r. ke_remote e = Some r \<Longrightarrow> authorized E a r) \<Longrightarrow> P (al_put k (unbind e) K)"
  by (rule step [OF _ ch_unbind]) (auto simp: entry_authorized_def)

lemma bind_step:
  assumes "P K" "al_get K k = Some e" "\<And>r. ke_remote e = Some r \<Longrightarrow> authorized E a r" "authorized E a r" "su_node_schema E n"
    "node_free K k r n" "f \<Longrightarrow> ke_pending_clear e"
  shows "P (al_put k (e\<lparr>ke_remote := Some r, ke_node := Some n, ke_pending_clear := f\<rparr>) K)"
  by (rule step [OF assms(1) ch_bind]) (use assms in \<open>auto simp: entry_authorized_def\<close>)

lemma rebind_step:
  assumes "P K" "al_get K k = Some e" "\<And>r. ke_remote e = Some r \<Longrightarrow> authorized E a r" "authorized E a r" "su_node_schema E n"
    "node_free K k r n"
  shows "P (al_put k (e\<lparr>ke_remote := Some r, ke_node := Some n\<rparr>) K)"
  using bind_step [OF assms, of "ke_pending_clear e"] by simp

lemma free_of_others:
  assumes "P K" and "\<not> list_ex (\<lambda>(_, e). ke_key e \<noteq> k \<and> bound_to e r n) K"
  shows "node_free K k r n"
  using assms(2) pool_inv_set [OF sound [OF assms(1)]] pool_inv_entry [OF sound [OF assms(1)]]
  unfolding node_free_def list_ex_iff entry_ok_def by fastforce

lemma free_of_all: "P K \<Longrightarrow> \<not> list_ex (\<lambda>(_, e). bound_to e r n) K \<Longrightarrow> node_free K k r n"
  by (rule free_of_others) (auto simp: list_ex_iff)

lemma find_bound_Some:
  "P K \<Longrightarrow> find_bound K r n = Some (k, e) \<Longrightarrow> al_get K k = Some e \<and> bound_to e r n"
  unfolding find_bound_def find_Some_iff
  by (auto simp: pool_inv_set [OF sound, symmetric] in_set_conv_nth)

lemma flag_step: "P K \<Longrightarrow> find_bound K r n = Some (k, e) \<Longrightarrow> authorized E a r \<Longrightarrow> P (al_put k (e\<lparr>ke_pending_clear := f\<rparr>) K)"
  by (rule step [OF _ ch_flag]) (auto dest: find_bound_Some simp: bound_to_def)

lemma delete_key_locked_keeps: "pool_keeps P (delete_key_locked E a k d pd b sb)"
  unfolding delete_key_locked_def Let_def
  by ((rule inv_step keeps_intros)+; blast intro: remove_step)

lemma clear_assignment_locked_keeps: "pool_keeps P (clear_assignment_locked E a k d pd b sb)"
  unfolding clear_assignment_locked_def Let_def
  by ((rule inv_step)+; blast intro: unbind_step)

lemma queue_clear_keeps: "pool_keeps P (queue_clear E (Some a) r n d)"
  unfolding queue_clear_def
  by ((rule inv_step)+; use flag_step in \<open>auto simp: authorized_def\<close>)

lemma revert_pending_clear_keeps: "pool_keeps P (revert_pending_clear E (Some a) r n d)"
  unfolding revert_pending_clear_def
  by ((rule inv_step)+; use flag_step in \<open>auto simp: authorized_def\<close>)

lemma assign_step:
  assumes "su_node_schema E n" "authorized E a r" "P K" "al_get K k = Some e"
    "ke_remote e \<noteq> Some r \<Longrightarrow> \<forall>r'. ke_remote e = Some r' \<longrightarrow> authorized E a r'"
    "List.find (\<lambda>(_, e'). ke_key e' \<noteq> k \<and> bound_to e' r n) K = None"
  shows "P (al_put k (if m then e\<lparr>ke_remote := Some r, ke_node := Some n, ke_pending_clear := False\<rparr>
             else e\<lparr>ke_remote := Some r, ke_node := Some n\<rparr>) K)"
proof -
  have "node_free K k r n"
    by (rule free_of_others [OF assms(3)]) (use assms(6) in \<open>auto simp: find_None_iff list_ex_iff\<close>)
  moreover have "authorized E a r'" if "ke_remote e = Some r'" for r'
    using that assms(2,5) by (cases "r' = r") auto
  ultimately show ?thesis
    using rebind_step [OF assms(3,4) _ assms(2,1)] bind_step [OF assms(3,4) _ assms(2,1), of False] by auto
qed

lemma set_assignment_locked_keeps:
  assumes "su_node_schema E n" and "authorized E a r"
  shows "pool_keeps P (set_assignment_locked E a k r n d pd b sb)"
  unfolding set_assignment_locked_def Let_def
  by (rule inv_step inv_check_modify_if | (rule assign_step [OF assms]; simp))+

lemma adopt_key_locked_keeps:
  assumes "su_node_schema E n" and "authorized E a r"
  shows "pool_keeps P (adopt_key_locked E r n d pd k)"
proof -
  have old: "P (al_put k (e\<lparr>ke_remote := Some r, ke_node := Some n\<rparr>) K)"
    if "P K" "\<not> list_ex (\<lambda>(_, e). bound_to e r n) K" "al_get K k = Some e" "ke_remote e = None" for K e
    by (rule rebind_step) (use that assms free_of_all in auto)
  have new: "P (al_put k (new_entry E k p l Adopted (Some (r, n))) K)"
    if "P K" "\<not> list_ex (\<lambda>(_, e). bound_to e r n) K" "al_get K k = None" "subscription_key_schema k" "product_from_key k = Some p" for K p l
    by (rule step [OF _ ch_adopt]) (use that assms free_of_all in auto)
  show ?thesis
    unfolding adopt_key_locked_def by (rule inv_step | (rule old new; simp))+
qed

lemma adopt_candidate_keeps:
  assumes "P (fst acc)"
  shows "io_triple (\<lambda>_. True) (adopt_candidate E a ns acc) (\<lambda>acc' _. P (fst acc')) (\<lambda>_. True)"
proof -
  obtain K l where acc: "acc = (K, l)" by force
  let ?r = "rn_remote ns" and ?n = "rn_node ns"
  have old: "P (al_put k (e\<lparr>ke_remote := Some ?r, ke_node := Some ?n\<rparr>) K)"
    if "has_priv E a ?r PRIV_RESOURCE_MODIFY" "su_node_schema E ?n"
      "\<not> list_ex (\<lambda>(_, e). bound_to e ?r ?n) K" "al_get K k = Some e" "ke_remote e = None" for k e
    by (rule rebind_step) (use that assms acc free_of_all in \<open>auto simp: authorized_def\<close>)
  have new: "P (al_put k (new_entry E k p lv Adopted (Some (?r, ?n))) K)"
    if "has_priv E a ?r PRIV_RESOURCE_MODIFY" "su_node_schema E ?n" "\<not> list_ex (\<lambda>(_, e). bound_to e ?r ?n) K"
      "al_get K k = None" "subscription_key_schema k" "product_from_key k = Some p" for k p lv
    by (rule step [OF _ ch_adopt]) (use that assms acc free_of_all in \<open>auto simp: authorized_def\<close>)
  show ?thesis
    unfolding adopt_candidate_def acc Let_def prod.case
    by (intro io_triple_case_option io_triple_if io_triple_return io_triple_fail; use assms acc old new in auto)
qed

lemma adopt_all_locked_keeps: "pool_keeps P (adopt_all_locked E a ns d)"
  unfolding adopt_all_locked_def
  by (rule inv_step inv_fold [where I = "\<lambda>b. P (fst b)"] adopt_candidate_keeps keeps_intros | simp add: keeps_adopt_candidate)+

lemma apply_proposal_keeps:
  assumes "P (fst acc)"
  shows "P (fst (apply_proposal E a remotes p acc))"
proof -
  obtain K l where acc: "acc = (K, l)" by force
  have "P (al_put (pa_key p) (e\<lparr>ke_remote := Some (pa_remote p), ke_node := Some (pa_node p), ke_pending_clear := False\<rparr>) K)"
    if "has_priv E a (pa_remote p) PRIV_RESOURCE_MODIFY" "su_node_schema E (pa_node p)" "al_get K (pa_key p) = Some e"
      "\<not> list_ex (\<lambda>(_, e). ke_key e \<noteq> pa_key p \<and> bound_to e (pa_remote p) (pa_node p)) K" "ke_remote e = None" for e
    by (rule bind_step) (use that assms acc free_of_others in \<open>auto simp: authorized_def\<close>)
  then show ?thesis
    using assms unfolding apply_proposal_def acc by (auto split: option.split)
qed

lemma bulk_assign_locked_keeps: "pool_keeps P (bulk_assign_locked E a proposal)"
proof -
  have "P (fst (fold (apply_proposal E a remotes) ps acc))" if "P (fst acc)" for remotes ps acc
    using that by (induction ps arbitrary: acc) (auto simp: apply_proposal_keeps)
  then show ?thesis
    unfolding bulk_assign_locked_def Let_def
    by (intro inv_step keeps_return) (metis fst_conv)
qed

lemma discard_pending_keeps:
  assumes "P (fst acc)" and "authorized E a (pe_remote p)"
  shows "P (fst (discard_pending p acc))"
proof -
  obtain K l where acc: "acc = (K, l)" by force
  have "P (al_put (pe_key p) (e\<lparr>ke_pending_clear := False\<rparr>) K)" "P (al_put (pe_key p) (unbind e) K)"
    if "al_get K (pe_key p) = Some e" "bound_to e (pe_remote p) (pe_node p)" for e
    by (rule step [OF _ ch_flag] unbind_step; use that assms acc in \<open>auto simp: bound_to_def\<close>)+
  then show ?thesis
    using assms unfolding discard_pending_def acc by (auto split: option.split PendingOp.split)
qed

lemma clear_pending_locked_keeps:
  assumes "\<forall>p \<in> set ps. authorized E a (pe_remote p)"
  shows "pool_keeps P (clear_pending_locked E ps d)"
proof -
  have "P (fst (fold discard_pending ps acc))" if "P (fst acc)" for acc
    using that assms by (induction ps arbitrary: acc) (auto simp: discard_pending_keeps)
  then show ?thesis
    unfolding clear_pending_locked_def Let_def
    by (intro inv_step keeps_return) (metis fst_conv)
qed

lemma drop_binding_keeps:
  assumes "authorized E a (pe_remote p)"
  shows "pool_keeps P (drop_binding E p)"
  unfolding drop_binding_def Let_def
  by (intro inv_step keeps_return) (auto intro!: unbind_step simp: bound_to_def assms split: option.split)

lemma execute_pending_keeps:
  "authorized E a (pe_remote p) \<Longrightarrow> (\<And>s. P (ps_keys s) \<Longrightarrow> P (ps_keys (w s))) \<Longrightarrow>
   pool_keeps P (execute_pending E w remotes p)"
  unfolding execute_pending_def
  by (auto intro!: io_inv_intros inv_meanwhile drop_binding_keeps inv_keeps [OF keeps_requests(1)] inv_keeps [OF keeps_requests(2)]
      split: PendingOp.split option.split)

lemma apply_step_keeps:
  assumes "authorized E a (pe_remote p)" and "\<And>s. P (ps_keys s) \<Longrightarrow> P (ps_keys (w s))"
  shows "pool_keeps P (apply_step E w remotes p acc)"
  unfolding apply_step_def
  by (auto intro!: io_inv_intros io_inv_modify execute_pending_keeps inv_keeps [OF keeps_basic(2)] inv_keeps [OF keeps_basic(5)]
      assms split: prod.split sum.split)

lemma run_apply_pending_keeps:
  assumes "\<And>s. P (ps_keys s) \<Longrightarrow> P (ps_keys (w s))"
  shows "pool_keeps P (run_apply_pending E w live a)"
proof -
  have fold: "pool_keeps P (io_fold (apply_step E w remotes) ps acc)" if "\<forall>p \<in> set ps. authorized E a (pe_remote p)" for remotes ps acc
    using that by (induction ps arbitrary: acc) (auto intro!: io_inv_return io_inv_bind apply_step_keeps assms)
  show ?thesis
    unfolding run_apply_pending_def
    by (rule inv_step inv_result [OF keeps_reading] io_inv_bind [OF fold] pending_authorized | assumption)+
qed

lemma insert_new_keeps:
  assumes "fresh_entry E e" "P K"
  shows "io_triple (\<lambda>_. True) (insert_new e K) (\<lambda>K' _. P K') (\<lambda>_. True)"
proof -
  obtain k p l where "e = new_entry E k p l Manual None" "subscription_key_schema k" "product_from_key k = Some p"
    using assms(1) unfolding fresh_entry_def by blast
  then show ?thesis
    using step [OF assms(2) ch_add, of k p l] unfolding insert_new_def
    by (auto intro!: io_triple_return io_triple_fail simp: new_entry_def split: option.split)
qed

lemma add_keys_keeps: "pool_keeps P (add_keys E ks d)"
  unfolding add_keys_def
  by (rule inv_step keeps_intros inv_fold [where I = "\<lambda>acc. \<forall>e \<in> set (fst acc). fresh_entry E e"]
      inv_fold [where I = P] collect_key_fresh insert_new_keeps | simp add: list_all_iff)+

lemma delete_key_keeps:
  "(\<And>s. P (ps_keys s) \<Longrightarrow> P (ps_keys (w s))) \<Longrightarrow> pool_keeps P (delete_key E w live (Some a) k d)"
  unfolding delete_key_def
  by (rule inv_step inv_after [OF keeps_basic(11)] inv_meanwhile | simp add: delete_key_locked_keeps)+

lemma clear_assignment_keeps:
  "(\<And>s. P (ps_keys s) \<Longrightarrow> P (ps_keys (w s))) \<Longrightarrow> pool_keeps P (clear_assignment E w live (Some a) k d)"
  unfolding clear_assignment_def Let_def
  by (rule inv_step inv_after [OF keeps_basic(11)] inv_meanwhile | simp add: clear_assignment_locked_keeps)+

lemma set_assignment_keeps:
  "(\<And>s. P (ps_keys s) \<Longrightarrow> P (ps_keys (w s))) \<Longrightarrow> pool_keeps P (set_assignment E w live (Some a) k r n d)"
  unfolding set_assignment_def Let_def
  by (rule inv_step inv_check_modify_if inv_after [OF keeps_if [OF keeps_basic(11) keeps_return]] inv_meanwhile
      set_assignment_locked_keeps | simp add: authorized_def)+

lemma adopt_key_keeps:
  "(\<And>s. P (ps_keys s) \<Longrightarrow> P (ps_keys (w s))) \<Longrightarrow> pool_keeps P (adopt_key E w live (Some a) r n d)"
  unfolding adopt_key_def
  by (rule inv_step inv_meanwhile adopt_key_locked_keeps | simp add: authorized_def)+

lemma adopt_all_keeps:
  "(\<And>s. P (ps_keys s) \<Longrightarrow> P (ps_keys (w s))) \<Longrightarrow> pool_keeps P (adopt_all E w live (Some a) d)"
  unfolding adopt_all_def
  by (rule inv_auth io_inv_bind [OF reading_inv(1)] inv_meanwhile | simp add: adopt_all_locked_keeps)+

lemma bulk_assign_keeps:
  "(\<And>s. P (ps_keys s) \<Longrightarrow> P (ps_keys (w s))) \<Longrightarrow> pool_keeps P (bulk_assign E w live (Some a) pr)"
  unfolding bulk_assign_def
  by (rule inv_auth inv_require io_inv_bind [OF reading_inv(1)] inv_meanwhile | simp add: bulk_assign_locked_keeps)+

lemma clear_pending_keeps:
  "(\<And>s. P (ps_keys s) \<Longrightarrow> P (ps_keys (w s))) \<Longrightarrow> pool_keeps P (clear_pending E w live (Some a) d)"
  unfolding clear_pending_def
  by (rule inv_step io_inv_bind [OF reading_inv(1)] inv_result [OF keeps_reading] inv_meanwhile
      clear_pending_locked_keeps pending_authorized | assumption | simp)+

lemma handle_keeps:
  assumes "\<And>s. P (ps_keys s) \<Longrightarrow> P (ps_keys (w s))"
  shows "pool_keeps P (handle E w live a call)"
  by (cases call)
    (auto simp: handle_def ignore_def assms
      intro!: io_inv_bind [OF _ io_inv_return] delete_key_keeps clear_assignment_keeps set_assignment_keeps adopt_key_keeps
        adopt_all_keeps bulk_assign_keeps clear_pending_keeps add_keys_keeps queue_clear_keeps revert_pending_clear_keeps
        inv_keeps [OF keeps_calls(1)] inv_keeps [OF keeps_calls(2)] inv_keeps [OF keeps_calls(3)] reading_inv io_inv_bind [OF reading_inv(3)] io_inv_if inv_meanwhile run_apply_pending_keeps io_inv_return)

end

interpretation guarded_inv: pool_guarantee E a "pool_inv E" for E :: "('a, 'd) sub_env" and a :: 'a
  by unfold_locales (auto intro: pool_change_inv)

interpretation guarded_changes: pool_guarantee E a "\<lambda>K. pool_inv E K \<and> changes_authorized E a K0 K"
  for E :: "('a, 'd) sub_env" and a :: 'a and K0
  by unfold_locales (auto intro: pool_change_inv changes_authorized_trans pool_change_authorized)

end
