(* ===== verification/SubscriptionPoolProps.thy ===== *)
theory SubscriptionPoolProps
  imports SubscriptionPoolInv
begin

text \<open>
  What the key pool promises: it stays well formed, is changed only by callers who may modify the remotes
  concerned, never loses a key that is live on its node, and proposes sound and maximal assignments.
\<close>

section \<open>Sequences of calls\<close>

text \<open>Calls one after the other, each with the answers of the remotes and its caller.\<close>

definition run_calls ::
  "('a, 'd) sub_env \<Rightarrow> (pool_state \<Rightarrow> pool_state) \<Rightarrow> (live_info \<times> 'a \<times> 'd pool_call) list \<Rightarrow> pool_state \<Rightarrow> pool_state" where
  "run_calls E w calls s = fold (\<lambda>(live, a, call) s. snd (handle E w live a call s)) calls s"

lemma run_calls_inv:
  assumes "\<And>s. pool_inv E (ps_keys s) \<Longrightarrow> pool_inv E (ps_keys (w s))"
  shows "pool_inv E (ps_keys s) \<Longrightarrow> pool_inv E (ps_keys (run_calls E w calls s))"
  using io_invD [OF guarded_inv.handle_keeps [OF assms]]
  by (induction calls arbitrary: s) (auto simp: run_calls_def)

section \<open>Live keys\<close>

text \<open>The remote is configured and reports the key as the active one of the node.\<close>

definition active_on :: "('a, 'd) sub_env \<Rightarrow> live_info \<Rightarrow> str \<Rightarrow> str \<Rightarrow> str \<Rightarrow> bool" where
  "active_on E live k r n \<longleftrightarrow>
     (\<exists>remotes infos info. su_remotes E = Some remotes \<and> map_of remotes r \<noteq> None \<and> live r = Inr infos \<and>
        map_of infos n = Some (Some info) \<and> si_status info = StatusActive \<and> si_key info = Some k)"

text \<open>The pool file and the shadow file have these contents.\<close>

definition pool_is ::
  "(str, SubscriptionKeyEntry) alist \<Rightarrow> str \<Rightarrow> (str, SubscriptionKeyShadow) alist \<Rightarrow> pool_state \<Rightarrow> bool" where
  "pool_is K t sh s \<longleftrightarrow> ps_keys s = K \<and> ps_text s = t \<and> ps_shadow s = sh"

text \<open>What other callers leave in the pool file in the window between asking the remote and locking the pool.\<close>

definition changing :: "(str, SubscriptionKeyEntry) alist \<Rightarrow> str \<Rightarrow> pool_state \<Rightarrow> pool_state" where
  "changing K t s = s\<lparr>ps_keys := K, ps_text := t\<rparr>"

text \<open>Run on such a pool, the action fails, and the pool is then as the last argument says.\<close>

definition rejects ::
  "(str, SubscriptionKeyEntry) alist \<Rightarrow> str \<Rightarrow> (str, SubscriptionKeyShadow) alist \<Rightarrow> (pool_state \<Rightarrow> bool) \<Rightarrow> 'r pool_io \<Rightarrow> bool" where
  "rejects K t sh left m \<longleftrightarrow> io_triple (pool_is K t sh) m (\<lambda>_ _. False) left \<and> (\<forall>s. pool_is K t sh s \<longrightarrow> left s)"

text \<open>Actions without an effect but on the schedule of failures.\<close>

definition still :: "'r pool_io \<Rightarrow> bool" where
  "still m \<longleftrightarrow> (\<forall>s. \<exists>fs. snd (m s) = s\<lparr>ps_faults := fs\<rparr>)"

lemma still_sys: "still (pool_sys r (\<lambda>s. s))"
proof -
  have "snd (pool_sys r (\<lambda>s. s) s) = s\<lparr>ps_faults := (case ps_faults s of [] \<Rightarrow> [] | _ # fs \<Rightarrow> fs)\<rparr>" for s
    by (auto simp: pool_sys_def Let_def split: list.split)
  then show ?thesis unfolding still_def by blast
qed

lemma still_return: "still (io_return x)" "still (io_fail e)"
proof -
  have "\<exists>fs. s = s\<lparr>ps_faults := fs\<rparr>" for s :: pool_state by (rule exI [of _ "ps_faults s"]) simp
  then show "still (io_return x)" "still (io_fail e)" by (simp_all add: still_def io_return_def io_fail_def)
qed

lemma still_basic:
  "still sub_lock" "still (require b e)" "still (auth_of c)" "still (remotes_config E)"
  "still (sub_detect_modification E d d')" "still (check_modify E a t)"
  by (auto simp: sub_lock_def still_sys require_def auth_of_def remotes_config_def sub_detect_modification_def check_modify_def
      still_return split: option.split)

lemma still_if: "still m \<Longrightarrow> still m' \<Longrightarrow> still (if b then m else m')"
  by simp

lemma still_check: "still (check_synced_assignment_for_unassign E live k t)"
proof -
  have "\<exists>r. check_synced_assignment_for_unassign E live k t s = (r, s)" for s
    by (auto simp: check_synced_assignment_for_unassign_def remotes_config_def io_bind_def io_return_def io_fail_def
        split: option.split sum.split prod.split)
  then show ?thesis unfolding still_def by (metis pool_state.surjective pool_state.update_convs(5) snd_conv)
qed

lemma rejects_fail: "rejects K t sh (pool_is K t sh) (io_fail e)"
  by (simp add: rejects_def io_triple_fail)

lemma rejects_result:
  assumes "still m" and "\<And>s x s'. m s = (Inr x, s') \<Longrightarrow> rejects K t sh left (f x)" and "\<And>s. pool_is K t sh s \<Longrightarrow> left s"
  shows "rejects K t sh left (io_bind m f)"
proof -
  have pool: "pool_is K t sh s'" if "pool_is K t sh s" "m s = (r, s')" for s r s'
    using that spec [OF assms(1) [unfolded still_def], of s] by (auto simp: pool_is_def)
  have "io_triple (pool_is K t sh) (io_bind m f) (\<lambda>_ _. False) left"
  proof (rule io_triple_bind)
    show "io_triple (pool_is K t sh) m (\<lambda>x s. rejects K t sh left (f x) \<and> pool_is K t sh s) left"
      by (rule io_tripleI) (use assms(2,3) pool in blast)+
  qed (auto intro!: io_triple_pure simp: rejects_def)
  then show ?thesis using assms(3) by (simp add: rejects_def)
qed

lemma rejects_after:
  "still m \<Longrightarrow> (\<And>x. rejects K t sh left (f x)) \<Longrightarrow> rejects K t sh left (io_bind m f)"
  by (rule rejects_result) (auto simp: rejects_def)

lemma rejects_config:
  assumes "rejects K t sh left (g K (su_digest E t))"
  shows "rejects K t sh left (io_bind (sub_config E) (case_prod g))"
proof -
  have "io_triple (pool_is K t sh) (sub_config E) (\<lambda>cd s. cd = (K, su_digest E t) \<and> pool_is K t sh s) left"
    using assms unfolding rejects_def
    by (intro io_tripleI) (auto simp: sub_config_def pool_sys_def pool_is_def Let_def split: list.splits if_splits)
  from io_triple_bind [OF this, of "case_prod g" "\<lambda>_ _. False"] assms show ?thesis
    unfolding rejects_def by (auto intro!: io_triple_pure)
qed

lemma rejects_window:
  assumes "rejects K' t' sh (pool_is K' t' sh) m" and "pool_is K' t' sh \<le> left" and "pool_is K t sh \<le> left"
  shows "rejects K t sh left (io_bind (io_modify (changing K' t')) (\<lambda>_. m))"
proof -
  have "io_triple (pool_is K t sh) (io_modify (changing K' t')) (\<lambda>_. pool_is K' t' sh) left"
    by (rule io_tripleI) (auto simp: io_modify_def changing_def pool_is_def)
  moreover have "io_triple (pool_is K' t' sh) m (\<lambda>_ _. False) left"
    by (rule io_triple_conseq [OF conjunct1 [OF assms(1) [unfolded rejects_def]]]) (use assms(2) in auto)
  ultimately show ?thesis
    using assms(3) by (auto simp: rejects_def intro: io_triple_bind)
qed

lemmas rejects_steps = rejects_config rejects_fail rejects_after [OF still_basic(1)] rejects_after [OF still_basic(3)]
  rejects_after [OF still_basic(2)] rejects_after [OF still_basic(5)] rejects_after [OF still_basic(6)]

lemma check_synced_active:
  assumes "active_on E live k r n" and "check_synced_assignment_for_unassign E live k (Some (r, n)) s = (Inr x, s')"
  shows "x = Some (r, n)"
  using assms unfolding active_on_def check_synced_assignment_for_unassign_def
  by (auto simp: io_bind_eq_Inr remotes_config_def io_return_def)

text \<open>Under the lock, the bound entry stops the three calls if the check has seen it, or if the file was changed.\<close>

lemma delete_key_locked_rejects:
  assumes "al_get K k = Some e" and "bound_to e r n" and "sb = Some (r, n) \<or> su_digest E t \<noteq> pd \<or> \<not> b"
  shows "rejects K t sh (pool_is K t sh) (delete_key_locked E a k d pd b sb)"
  unfolding delete_key_locked_def
  by (rule rejects_steps)+ (use assms in \<open>auto simp: bound_to_def intro!: rejects_after [OF still_basic(6)] rejects_fail\<close>)

lemma clear_assignment_locked_rejects:
  assumes "al_get K k = Some e" and "bound_to e r n" and "sb = Some (r, n) \<or> su_digest E t \<noteq> pd \<or> \<not> b"
  shows "rejects K t sh (pool_is K t sh) (clear_assignment_locked E a k d pd b sb)"
  unfolding clear_assignment_locked_def
  by (rule rejects_steps)+ (use assms in \<open>auto simp: bound_to_def intro!: rejects_after [OF still_basic(6)] rejects_fail\<close>)

lemma set_assignment_locked_rejects:
  assumes "al_get K k = Some e" and "bound_to e r n" and "(r', n') \<noteq> (r, n)"
    and "sb = Some (r, n) \<or> su_digest E t \<noteq> pd \<or> \<not> b"
  shows "rejects K t sh (pool_is K t sh) (set_assignment_locked E a k r' n' d pd b sb)"
proof -
  have "binding e = Some (r, n)" using assms(2) by (simp add: binding_def bound_to_def)
  with assms have stop: "(case sb of Some (r, n) \<Rightarrow> bound_to e r n | None \<Rightarrow> False) \<and>
        (case binding e of Some (r, n) \<Rightarrow> r \<noteq> r' \<or> n \<noteq> n' | None \<Rightarrow> False) \<or>
      su_digest E t \<noteq> pd \<and> ke_remote e \<noteq> None \<and> (case binding e of Some (r, n) \<Rightarrow> r \<noteq> r' \<or> n \<noteq> n' | None \<Rightarrow> False) \<or>
      \<not> b \<and> ke_remote e \<noteq> None \<and> (case binding e of Some (r, n) \<Rightarrow> r \<noteq> r' \<or> n \<noteq> n' | None \<Rightarrow> False)"
    by (auto simp: bound_to_def)
  show ?thesis
    unfolding set_assignment_locked_def Let_def
    by (rule rejects_steps)+ (simp only: assms(1) option.case stop if_True,
      rule rejects_after [OF still_if [OF still_basic(6) still_return(1)] rejects_fail])
qed

text \<open>Either the check has seen the entry, or the digest has changed.\<close>

lemma checked_or_changed:
  assumes "al_get K' k = Some e" and "bound_to e r n" and "active_on E live k r n"
    and "su_digest E t' = su_digest E t \<Longrightarrow> al_get K' k = al_get K k"
    and "check_synced_assignment_for_unassign E live k (Option.bind (al_get K k) binding) s = (Inr x, s')"
  shows "x = Some (r, n) \<or> su_digest E t' \<noteq> su_digest E t"
proof (cases "su_digest E t' = su_digest E t")
  case True
  with assms have "Option.bind (al_get K k) binding = Some (r, n)" by (auto simp: bound_to_def binding_def)
  with assms(3,5) show ?thesis using check_synced_active by metis
qed simp

text \<open>The three calls as a whole.\<close>

abbreviation either_pool ::
  "(str, SubscriptionKeyEntry) alist \<Rightarrow> str \<Rightarrow> (str, SubscriptionKeyEntry) alist \<Rightarrow> str \<Rightarrow> (str, SubscriptionKeyShadow) alist \<Rightarrow>
   pool_state \<Rightarrow> bool" where
  "either_pool K t K' t' sh s \<equiv> pool_is K t sh s \<or> pool_is K' t' sh s"

lemma delete_key_rejects:
  assumes "al_get K' k = Some e" "bound_to e r n" "active_on E live k r n" "su_digest E t' = su_digest E t \<Longrightarrow> al_get K' k = al_get K k"
  shows "rejects K t sh (either_pool K t K' t' sh) (delete_key E (changing K' t') live (Some a) k d)"
  unfolding delete_key_def
proof ((rule rejects_steps)+, cases "al_get K k")
  case None
  then show "rejects K t sh (either_pool K t K' t' sh) (case al_get K k of None \<Rightarrow> io_fail (KeyNotFound k) | Some pre_entry \<Rightarrow> f pre_entry)" for f
    by (auto simp: rejects_def intro: io_triple_fail)
next
  fix x
  case (Some e0)
  have "rejects K' t' sh (pool_is K' t' sh) (delete_key_locked E a' k d (su_digest E t) (binding e0 \<noteq> None) sb)"
    if "check_synced_assignment_for_unassign E live k (binding e0) s = (Inr sb, s')" for a' sb s s'
    by (rule delete_key_locked_rejects [OF assms(1,2)])
      (use checked_or_changed [OF assms, where s = s and x = sb and s' = s'] that Some in auto)
  then show "rejects K t sh (either_pool K t K' t' sh)
       (case al_get K k of None \<Rightarrow> io_fail (KeyNotFound k)
        | Some pre_entry \<Rightarrow>
            io_bind (check_modify E x (ke_remote pre_entry)) (\<lambda>_.
            io_bind (check_synced_assignment_for_unassign E live k (binding pre_entry)) (\<lambda>synced_block.
            io_bind (io_modify (changing K' t')) (\<lambda>_.
              delete_key_locked E x k d (su_digest E t) (binding pre_entry \<noteq> None) synced_block))))"
    unfolding Some option.case
    by (auto intro!: rejects_after [OF still_basic(6)] rejects_result [OF still_check] rejects_window)
qed

lemma clear_assignment_rejects:
  assumes "al_get K' k = Some e" "bound_to e r n" "active_on E live k r n" "su_digest E t' = su_digest E t \<Longrightarrow> al_get K' k = al_get K k"
  shows "rejects K t sh (either_pool K t K' t' sh) (clear_assignment E (changing K' t') live (Some a) k d)"
proof -
  have "rejects K' t' sh (pool_is K' t' sh) (clear_assignment_locked E a' k d (su_digest E t) b sb)"
    if "check_synced_assignment_for_unassign E live k (Option.bind (al_get K k) binding) s = (Inr sb, s')" for a' b sb s s'
    by (rule clear_assignment_locked_rejects [OF assms(1,2)]) (use checked_or_changed [OF assms that] in auto)
  then show ?thesis
    unfolding clear_assignment_def Let_def
    by - ((rule rejects_steps)+, auto intro!: rejects_result [OF still_check] rejects_window)
qed

lemma set_assignment_rejects:
  assumes ctx: "al_get K' k = Some e" "bound_to e r n" "active_on E live k r n" "su_digest E t' = su_digest E t \<Longrightarrow> al_get K' k = al_get K k"
    and move: "(r', n') \<noteq> (r, n)"
  shows "rejects K t sh (either_pool K t K' t' sh) (set_assignment E (changing K' t') live (Some a) k r' n' d)"
proof -
  let ?pre = "Option.bind (al_get K k) binding"
  let ?moves = "case ?pre of Some (r, n) \<Rightarrow> r \<noteq> r' \<or> n \<noteq> n' | None \<Rightarrow> False"
  have "sb = Some (r, n) \<or> su_digest E t' \<noteq> su_digest E t"
    if "(if ?moves then check_synced_assignment_for_unassign E live k ?pre else io_return None) s = (Inr sb, s')" for sb s s'
  proof (cases "su_digest E t' = su_digest E t")
    case True
    with ctx move have ?moves by (auto simp: bound_to_def binding_def)
    with that show ?thesis using checked_or_changed [OF ctx, where s = s and x = sb and s' = s'] by simp
  qed simp
  then have locked: "rejects K' t' sh (pool_is K' t' sh) (set_assignment_locked E a' k r' n' d (su_digest E t) b sb)"
    if "(if ?moves then check_synced_assignment_for_unassign E live k ?pre else io_return None) s = (Inr sb, s')" for a' b sb s s'
    using that by (intro set_assignment_locked_rejects [OF ctx(1,2) move]) blast
  show ?thesis
    unfolding set_assignment_def Let_def
    by (rule rejects_steps rejects_after [OF still_if [OF still_basic(6) still_return(1)]]
      rejects_result [OF still_if [OF still_check still_return(1)]] rejects_window locked | assumption | blast)+
qed

lemma rejects_ignore: "rejects K t sh left m \<Longrightarrow> rejects K t sh left (ignore m)"
  unfolding rejects_def ignore_def
  by (auto intro!: io_triple_bind [where R = "\<lambda>_ _. False"] simp: io_triple_def [of "\<lambda>_. False"])

text \<open>The calls that would take a key away from the node \<open>n\<close> of the remote \<open>r\<close>.\<close>

fun unassigns :: "str \<Rightarrow> str \<Rightarrow> str \<Rightarrow> 'd pool_call \<Rightarrow> bool" where
  "unassigns k r n (RemoveKey k' _) \<longleftrightarrow> k' = k"
| "unassigns k r n (ClearAssignment k' _) \<longleftrightarrow> k' = k"
| "unassigns k r n (SetAssignment k' r' n' _) \<longleftrightarrow> k' = k \<and> (r', n') \<noteq> (r, n)"
| "unassigns k r n _ \<longleftrightarrow> False"

lemma auth_run: "io_bind (auth_of (Some a)) f = f a"
  by (rule ext) (simp add: auth_of_def io_bind_def io_return_def)

section \<open>Proposals\<close>

definition needed_sockets :: "RemoteNodeStatus \<Rightarrow> nat" where
  "needed_sockets n = as_u32 (case rn_sockets n of Some s \<Rightarrow> s | None \<Rightarrow> 1)"

text \<open>A free key of the right product that covers the sockets of the node.\<close>

definition fits :: "SubscriptionKeyEntry \<Rightarrow> RemoteNodeStatus \<Rightarrow> bool" where
  "fits e n \<longleftrightarrow>
     ke_remote e = None \<and> matches_remote_type (ke_product_type e) (rn_ty n) \<and>
     (rn_ty n = Pve \<longrightarrow> (\<exists>s. socket_count_from_key (ke_key e) = Some s \<and> needed_sockets n \<le> s))"

definition key_sockets :: "SubscriptionKeyEntry \<Rightarrow> nat" where
  "key_sockets e = (case socket_count_from_key (ke_key e) of Some s \<Rightarrow> s | None \<Rightarrow> 0)"

definition tightest :: "(str, SubscriptionKeyEntry) alist \<Rightarrow> str set \<Rightarrow> SubscriptionKeyEntry \<Rightarrow> RemoteNodeStatus \<Rightarrow> bool" where
  "tightest config used e n \<longleftrightarrow>
     (rn_ty n = Pve \<longrightarrow> (\<forall>k' e'. al_get config k' = Some e' \<longrightarrow> k' \<notin> used \<longrightarrow> fits e' n \<longrightarrow> key_sockets e \<le> key_sockets e'))"

lemma mem_candidates:
  "al_keys_distinct config \<Longrightarrow> (k, e) \<in> set (candidates config taken ty) \<longleftrightarrow>
     al_get config k = Some e \<and> k \<notin> set taken \<and> ke_remote e = None \<and> matches_remote_type (ke_product_type e) ty"
  by (auto simp: candidates_def al.items_get [symmetric])

lemma best_key_Some:
  assumes d: "al_keys_distinct config" and "best_key config taken n = Some k"
  shows "\<exists>e. al_get config k = Some e \<and> k \<notin> set taken \<and> fits e n \<and> tightest config (set taken) e n"
proof (cases "rn_ty n = Pve")
  case True
  let ?cs = "map (\<lambda>(i, e). (i, ke_key e)) (candidates config taken (rn_ty n))"
  have "pick_best_pve_socket_key (needed_sockets n) ?cs = Some k"
    using assms(2) True by (simp add: best_key_def needed_sockets_def)
  from pick_best_Some [OF this] obtain e s where e: "(k, e) \<in> set (candidates config taken (rn_ty n))"
    and s: "socket_count_from_key (ke_key e) = Some s" "needed_sockets n \<le> s"
    and least: "\<And>j e' s'. (j, e') \<in> set (candidates config taken (rn_ty n)) \<Longrightarrow>
      socket_count_from_key (ke_key e') = Some s' \<Longrightarrow> needed_sockets n \<le> s' \<Longrightarrow> s \<le> s'"
    by force
  have "tightest config (set taken) e n"
    using least s unfolding tightest_def mem_candidates [OF d] fits_def key_sockets_def by fastforce
  then show ?thesis
    using e s unfolding mem_candidates [OF d] fits_def by blast
next
  case False
  then obtain e where "(k, e) \<in> set (candidates config taken (rn_ty n))"
    using assms(2) by (auto simp: best_key_def split: list.splits)
  then show ?thesis
    using False unfolding mem_candidates [OF d] fits_def tightest_def by blast
qed

lemma best_key_None:
  assumes d: "al_keys_distinct config" and "best_key config taken n = None"
    and "al_get config k = Some e" and "k \<notin> set taken"
  shows "\<not> fits e n"
proof
  assume fit: "fits e n"
  then have mem: "(k, e) \<in> set (candidates config taken (rn_ty n))"
    using assms by (simp add: mem_candidates fits_def)
  show False
  proof (cases "rn_ty n = Pve")
    case True
    then have none: "pick_best_pve_socket_key (needed_sockets n) (map (\<lambda>(i, e). (i, ke_key e)) (candidates config taken (rn_ty n))) = None"
      using assms(2) by (simp add: best_key_def needed_sockets_def)
    from fit True obtain s where s: "socket_count_from_key (ke_key e) = Some s" "needed_sockets n \<le> s" by (auto simp: fits_def)
    with pick_best_None [OF none, of k "ke_key e" s] mem show False by force
  next
    case False
    with assms(2) mem show False by (cases "candidates config taken (rn_ty n)") (auto simp: best_key_def)
  qed
qed

abbreviation node_of :: "RemoteNodeStatus \<Rightarrow> str \<times> str" where
  "node_of n \<equiv> (rn_remote n, rn_node n)"

abbreviation target_of :: "ProposedAssignment \<Rightarrow> str \<times> str" where
  "target_of p \<equiv> (pa_remote p, pa_node p)"

text \<open>A proposal gives a node of \<open>ts\<close> a fitting key, the smallest that is left over; a node without a proposal has
  no fitting key left over.\<close>

definition sound_proposal ::
  "(str, SubscriptionKeyEntry) alist \<Rightarrow> RemoteNodeStatus set \<Rightarrow> str set \<Rightarrow> ProposedAssignment \<Rightarrow> bool" where
  "sound_proposal config ts used p \<longleftrightarrow>
     (\<exists>e n. al_get config (pa_key p) = Some e \<and> n \<in> ts \<and> node_of n = target_of p \<and> fits e n \<and> tightest config used e n)"

definition served :: "(str, SubscriptionKeyEntry) alist \<Rightarrow> ProposedAssignment set \<Rightarrow> RemoteNodeStatus \<Rightarrow> bool" where
  "served config ps n \<longleftrightarrow>
     node_of n \<in> target_of ` ps \<or> (\<forall>k e. al_get config k = Some e \<longrightarrow> k \<notin> pa_key ` ps \<longrightarrow> \<not> fits e n)"

lemma sound_proposal_mono:
  "sound_proposal config ts used p \<Longrightarrow> ts \<subseteq> ts' \<Longrightarrow> used \<subseteq> used' \<Longrightarrow> sound_proposal config ts' used' p"
  unfolding sound_proposal_def tightest_def by blast

lemma served_mono: "served config ps n \<Longrightarrow> ps \<subseteq> ps' \<Longrightarrow> served config ps' n"
  unfolding served_def by blast

text \<open>The state of the loop of \<^verbatim>\<open>compute_proposals\<close> after the nodes \<open>ts\<close>.\<close>

definition proposals_inv ::
  "(str, SubscriptionKeyEntry) alist \<Rightarrow> RemoteNodeStatus list \<Rightarrow> ProposedAssignment list \<times> str list \<Rightarrow> bool" where
  "proposals_inv config ts acc \<longleftrightarrow>
     (case acc of (ps, taken) \<Rightarrow>
        set taken = pa_key ` set ps \<and> distinct (map pa_key ps) \<and>
        target_of ` set ps \<subseteq> node_of ` set ts \<and> (distinct (map node_of ts) \<longrightarrow> distinct (map target_of ps)) \<and>
        (\<forall>p \<in> set ps. sound_proposal config (set ts) (pa_key ` set ps) p) \<and> (\<forall>n \<in> set ts. served config (set ps) n))"

lemma proposals_invI:
  assumes "set taken = pa_key ` set ps" "distinct (map pa_key ps)" "target_of ` set ps \<subseteq> node_of ` set ts"
    "distinct (map node_of ts) \<Longrightarrow> distinct (map target_of ps)"
    "\<And>p. p \<in> set ps \<Longrightarrow> sound_proposal config (set ts) (pa_key ` set ps) p" "\<And>n. n \<in> set ts \<Longrightarrow> served config (set ps) n"
  shows "proposals_inv config ts (ps, taken)"
  using assms unfolding proposals_inv_def by blast

lemma proposals_invD:
  assumes "proposals_inv config ts (ps, taken)"
  shows "set taken = pa_key ` set ps" "distinct (map pa_key ps)" "target_of ` set ps \<subseteq> node_of ` set ts"
    "distinct (map node_of ts) \<Longrightarrow> distinct (map target_of ps)"
    "p \<in> set ps \<Longrightarrow> sound_proposal config (set ts) (pa_key ` set ps) p" "n \<in> set ts \<Longrightarrow> served config (set ps) n"
  using assms unfolding proposals_inv_def by blast+

lemma propose_inv:
  assumes d: "al_keys_distinct config" and "proposals_inv config ts acc"
  shows "proposals_inv config (ts @ [n]) (propose config n acc)"
proof -
  obtain ps taken where acc: "acc = (ps, taken)" by force
  note inv = proposals_invD [OF assms(2) [unfolded acc]]
  have sound: "sound_proposal config (set (ts @ [n])) used p" if "p \<in> set ps" "pa_key ` set ps \<subseteq> used" for p used
    by (rule sound_proposal_mono [OF inv(5) [OF that(1)] _ that(2)]) auto
  show ?thesis
  proof (cases "best_key config taken n")
    case None
    have "served config (set ps) n"
      using best_key_None [OF d None] unfolding served_def inv(1) by blast
    then have "proposals_inv config (ts @ [n]) (ps, taken)"
      using inv(3) by (intro proposals_invI inv(1,2) sound inv(4)) (auto simp: inv(6))
    then show ?thesis by (simp add: propose_def acc None)
  next
    case (Some k)
    from best_key_Some [OF d Some] obtain e where e: "al_get config k = Some e" "k \<notin> pa_key ` set ps" "fits e n"
      "tightest config (pa_key ` set ps) e n"
      unfolding inv(1) by blast
    obtain q where q: "propose config n acc = (ps @ [q], k # taken)" "pa_key q = k" "target_of q = node_of n"
      by (simp add: propose_def acc Some)
    have new: "sound_proposal config (set (ts @ [n])) (pa_key ` set (ps @ [q])) q"
      by (rule sound_proposal_mono [of config "{n}" "pa_key ` set ps"]) (use e q in \<open>auto simp: sound_proposal_def\<close>)
    have "sound_proposal config (set (ts @ [n])) (pa_key ` set (ps @ [q])) p" if "p \<in> set (ps @ [q])" for p
      using that new sound [of p "pa_key ` set (ps @ [q])"] by (cases "p = q") auto
    moreover have "served config (set (ps @ [q])) m" if "m \<in> set (ts @ [n])" for m
      using that inv(6) [of m] q(3) served_mono [of config "set ps" m "set (ps @ [q])"] by (auto simp: served_def [of _ _ n])
    moreover have "distinct (map target_of (ps @ [q]))" if "distinct (map node_of (ts @ [n]))"
    proof -
      have "node_of n \<notin> target_of ` set ps" using that inv(3) by auto
      then show ?thesis using that inv(4) q(3) by simp
    qed
    moreover have "target_of ` set (ps @ [q]) \<subseteq> node_of ` set (ts @ [n])"
      using inv(3) q(3) by auto
    ultimately show ?thesis
      unfolding q(1) using e(2) q(2) inv(1,2) by (intro proposals_invI) simp_all
  qed
qed

lemma fold_propose_inv:
  assumes "al_keys_distinct config"
  shows "proposals_inv config ts (fold (propose config) ts ([], []))"
  by (induction ts rule: rev_induct) (simp add: proposals_inv_def, simp add: propose_inv [OF assms])

lemma mem_target_nodes: "n \<in> set (target_nodes ns) \<longleftrightarrow> n \<in> set ns \<and> rn_assigned_key n = None \<and> rn_status n \<noteq> StatusActive"
  by (simp add: target_nodes_def)

lemma distinct_target_nodes:
  assumes "distinct (map node_of ns)"
  shows "distinct (map node_of (target_nodes ns))"
proof -
  have "distinct (map f (sort_by c xs)) \<longleftrightarrow> distinct (map f xs)" for c and xs :: "RemoteNodeStatus list" and f :: "_ \<Rightarrow> str \<times> str"
    by (rule mset_eq_imp_distinct_iff) simp
  then show ?thesis
    unfolding target_nodes_def using assms by (simp add: distinct_map_filter)
qed

section \<open>An example pool\<close>

text \<open>Two remotes, every privilege, a file that lists the keys, and its first 32 characters as digest.\<close>

definition example_env :: "(unit, str) sub_env" where
  "example_env =
     \<lparr>su_write = (\<lambda>K. concat (map fst K)), su_digest = take 32, su_modified = (\<lambda>d d'. d' \<noteq> None \<and> d' \<noteq> Some d), su_default_status = StatusNew,
      su_node_schema = (\<lambda>n. n \<noteq> []),
      su_remotes = Some [(''r1'', \<lparr>remote_ty = Pve, remote_id = ''r1''\<rparr>), (''r2'', \<lparr>remote_ty = Pbs, remote_id = ''r2''\<rparr>)],
      su_acl = \<lparr>acl_check_privs = (\<lambda>_ _ _ _. True), acl_any_privs_below = (\<lambda>_ _ _. Some True), acl_lookup_privs = (\<lambda>_ _. - 1)\<rparr>,
      su_hash = (\<lambda>_. ''h'')\<rparr>"

definition example_key :: str where
  "example_key = ''pve2b-1234567890''"

definition example_entry :: "bool \<Rightarrow> SubscriptionKeyEntry" where
  "example_entry pending = (new_entry example_env example_key PtPve LvBasic Manual (Some (''r1'', ''n1'')))\<lparr>ke_pending_clear := pending\<rparr>"

definition example_state :: "bool \<Rightarrow> pool_state" where
  "example_state pending =
     \<lparr>ps_text = example_key, ps_keys = [(example_key, example_entry pending)], ps_shadow = [], ps_requests = [], ps_faults = []\<rparr>"

text \<open>The node \<open>n1\<close> of \<open>r1\<close> runs the given key.\<close>

definition example_live :: "str \<Rightarrow> live_info" where
  "example_live k = (\<lambda>r. if r = ''r1'' then
     Inr [(''n1'', Some \<lparr>si_status = StatusActive, si_sockets = Some 2, si_key = Some k, si_level = LvBasic, si_serverid = None,
       si_check_time = None, si_next_due_date = None\<rparr>)] else Inl ''offline'')"

lemma example_schema: "subscription_key_schema example_key" "product_from_key example_key = Some PtPve"
  by code_simp+

lemma example_inv: "pool_inv example_env (ps_keys (example_state p))"
  using example_schema
  by (auto simp: pool_inv_def example_state_def example_entry_def new_entry_def entry_ok_def al_keys_distinct_def
      example_env_def split: if_splits)

section \<open>Properties\<close>

text \<open>
  C3. The pool stays well formed under every sequence of API calls, whatever reads, writes, locks and requests
  fail, and with other callers' calls in every window in which a handler waits for the network without the
  lock: keys are those of the schema with their product, a remote is bound together with a valid node, a
  clear is pending only on a bound key, and no node of a remote has two keys.
\<close>

theorem pool_stays_well_formed:
  assumes "pool_inv E (ps_keys s)"
  shows "pool_inv E (ps_keys (run_calls E (run_calls E id others) calls s))"
  by (rule run_calls_inv [OF run_calls_inv assms]) auto

theorem pool_stays_well_formed_witness:
  "pool_inv example_env (ps_keys (run_calls example_env
     (run_calls example_env id [(example_live example_key, (), QueueClear ''r1'' ''n1'' None)])
     [(example_live example_key, (), RemoveKey example_key None)] (example_state False)))"
  by (rule pool_stays_well_formed [OF example_inv])

text \<open>
  C27. A call changes, adds or removes an entry of the pool only if its caller may modify both the remote the
  entry was bound to and the one it is bound to afterwards. This covers the bulk calls and the worker.
\<close>

theorem pool_changes_authorized:
  assumes "pool_inv E (ps_keys s)" and "ps_keys (snd (handle E id live a call s)) = K'" and "al_get K' k \<noteq> al_get (ps_keys s) k"
    and "al_get (ps_keys s) k = Some e \<or> al_get K' k = Some e" and "ke_remote e = Some r"
  shows "may_modify E a r \<or> has_priv E a r PRIV_RESOURCE_MODIFY"
proof -
  have "changes_authorized E a (ps_keys s) K'"
    using io_invD [OF guarded_changes.handle_keeps [of E a "ps_keys s" id live call], of s] assms(1,2)
    by (simp add: changes_authorized_refl)
  with assms(3-5) show ?thesis
    by (auto simp: changes_authorized_def entry_authorized_def authorized_def)
qed

theorem pool_changes_authorized_witness:
  "al_get (ps_keys (snd (handle example_env id (example_live ''pve1c-0000000000'') () (RemoveKey example_key None) (example_state False)))) example_key = None \<and>
   (may_modify example_env () ''r1'' \<or> has_priv example_env () ''r1'' PRIV_RESOURCE_MODIFY)"
proof -
  have "ps_keys (snd (handle example_env id (example_live ''pve1c-0000000000'') () (RemoveKey example_key None) (example_state False))) = []"
    by code_simp
  then show ?thesis
    using pool_changes_authorized [where E = example_env and live = "example_live ''pve1c-0000000000''" and a = "()"
        and call = "RemoveKey example_key None" and s = "example_state False" and K' = "[]" and k = example_key and e = "example_entry False"
        and r = "''r1''"] example_inv
    by (simp add: example_state_def example_entry_def new_entry_def)
qed

text \<open>
  C4. A key that its remote reports as active on the node the pool binds it to is not taken away: removing it,
  clearing its assignment and moving it to another node all fail, and neither the pool nor the shadow file is
  written. The remote is asked before the pool is locked; other callers may leave any pool \<open>K'\<close> with any text
  \<open>t'\<close> in between, also one that binds the key only then. Either the call has failed before, with the pool as it
  was, or it leaves \<open>K'\<close> as it is. Of the digest it is assumed that it tells these two texts apart if the entry
  of the key has changed between them.
\<close>

theorem live_key_not_orphaned:
  assumes "al_get K' k = Some e" and "bound_to e r n" and "active_on E live k r n" and "unassigns k r n call"
    and "su_digest E t' = su_digest E (ps_text s) \<Longrightarrow> al_get K' k = al_get (ps_keys s) k"
    and "handle E (changing K' t') live a call s = (res, s')"
  shows "(\<exists>err. res = Inl err) \<and> (ps_keys s', ps_text s') \<in> {(ps_keys s, ps_text s), (K', t')} \<and> ps_shadow s' = ps_shadow s"
proof -
  note ctx = assms(1-3) assms(5)
  have "rejects (ps_keys s) (ps_text s) (ps_shadow s) (either_pool (ps_keys s) (ps_text s) K' t' (ps_shadow s))
      (handle E (changing K' t') live a call)"
    using assms(4) by (cases call)
      (auto simp: handle_def intro!: rejects_ignore delete_key_rejects [OF ctx] clear_assignment_rejects [OF ctx]
        set_assignment_rejects [OF ctx])
  then have run: "io_triple (pool_is (ps_keys s) (ps_text s) (ps_shadow s)) (handle E (changing K' t') live a call) (\<lambda>_ _. False)
      (either_pool (ps_keys s) (ps_text s) K' t' (ps_shadow s))"
    by (simp add: rejects_def)
  have "pool_is (ps_keys s) (ps_text s) (ps_shadow s) s" by (simp add: pool_is_def)
  note fate = io_triple_InrD [OF run this] io_triple_InlD [OF run this]
  show ?thesis
    using fate assms(6) by (cases res) (auto simp: pool_is_def)
qed

theorem live_key_not_orphaned_witness:
  "\<exists>err. fst (handle example_env (changing (ps_keys (example_state False)) example_key) (example_live example_key) ()
     (RemoveKey example_key None) (example_state False)) = Inl err"
proof -
  let ?w = "changing (ps_keys (example_state False)) example_key"
  obtain res s' where run: "handle example_env ?w (example_live example_key) () (RemoveKey example_key None) (example_state False) = (res, s')"
    by force
  have "al_get (ps_keys (example_state False)) example_key = Some (example_entry False)" "bound_to (example_entry False) ''r1'' ''n1''"
    "active_on example_env (example_live example_key) example_key ''r1'' ''n1''"
    by (auto simp: example_env_def example_state_def example_entry_def new_entry_def bound_to_def active_on_def example_live_def)
  from live_key_not_orphaned [OF this _ _ run] show ?thesis
    by (simp add: run)
qed

text \<open>
  C28. The proposals of auto-assign: no key and no node is proposed twice; every proposal gives an unassigned,
  inactive node a free key of its product that covers its sockets, and for PVE no key that is left over covers
  the node with fewer sockets; a node gets no proposal only if no key that is left over fits it.
\<close>

theorem proposals_sound_and_maximal:
  assumes "al_keys_distinct config" and "distinct (map node_of ns)" and "compute_proposals config ns = ps"
  shows "distinct (map pa_key ps) \<and> distinct (map target_of ps) \<and>
         (\<forall>p \<in> set ps. \<exists>e n. al_get config (pa_key p) = Some e \<and> n \<in> set ns \<and> node_of n = target_of p \<and>
            rn_assigned_key n = None \<and> rn_status n \<noteq> StatusActive \<and> fits e n \<and>
            (rn_ty n = Pve \<longrightarrow> (\<forall>k' e'. al_get config k' = Some e' \<longrightarrow> k' \<notin> pa_key ` set ps \<longrightarrow> fits e' n \<longrightarrow>
               key_sockets e \<le> key_sockets e'))) \<and>
         (\<forall>n \<in> set ns. rn_assigned_key n = None \<longrightarrow> rn_status n \<noteq> StatusActive \<longrightarrow> node_of n \<notin> target_of ` set ps \<longrightarrow>
            (\<forall>k e. al_get config k = Some e \<longrightarrow> k \<notin> pa_key ` set ps \<longrightarrow> \<not> fits e n))"
proof -
  obtain taken where run: "fold (propose config) (target_nodes ns) ([], []) = (ps, taken)"
    using assms(3) unfolding compute_proposals_def by (metis prod.collapse)
  note inv = proposals_invD [OF fold_propose_inv [OF assms(1), of "target_nodes ns", unfolded run]]
  have "distinct (map target_of ps)" by (rule inv(4) [OF distinct_target_nodes [OF assms(2)]])
  moreover have "(\<forall>p \<in> set ps. \<exists>e n. al_get config (pa_key p) = Some e \<and> n \<in> set ns \<and> node_of n = target_of p \<and>
            rn_assigned_key n = None \<and> rn_status n \<noteq> StatusActive \<and> fits e n \<and>
            (rn_ty n = Pve \<longrightarrow> (\<forall>k' e'. al_get config k' = Some e' \<longrightarrow> k' \<notin> pa_key ` set ps \<longrightarrow> fits e' n \<longrightarrow>
               key_sockets e \<le> key_sockets e')))"
    using inv(5) unfolding sound_proposal_def mem_target_nodes tightest_def by blast
  moreover have "(\<forall>n \<in> set ns. rn_assigned_key n = None \<longrightarrow> rn_status n \<noteq> StatusActive \<longrightarrow> node_of n \<notin> target_of ` set ps \<longrightarrow>
            (\<forall>k e. al_get config k = Some e \<longrightarrow> k \<notin> pa_key ` set ps \<longrightarrow> \<not> fits e n))"
    using inv(6) unfolding served_def mem_target_nodes by blast
  ultimately show ?thesis using inv(2) by blast
qed

lemma example_sockets: "socket_count_from_key example_key = Some 2"
proof -
  have "split_once CHR ''-'' example_key = Some (''pve2b'', ''1234567890'')" "strip_prefix ''pve'' ''pve2b'' = Some ''2b''"
    "takeWhile is_ascii_digit ''2b'' = ''2''" "parse_unsigned ''2'' = Some 2"
    by code_simp+
  then show ?thesis by (simp add: socket_count_from_key_def parse_u32_def)
qed

theorem proposals_sound_and_maximal_witness:
  "\<exists>p. compute_proposals [(example_key, unbind (example_entry False))] [node_status_of ''r1'' Pve ''n1'' None None False] = [p] \<and>
     (\<exists>e n. al_get [(example_key, unbind (example_entry False))] (pa_key p) = Some e \<and> node_of n = target_of p \<and> fits e n)"
proof -
  let ?p = "\<lparr>pa_key = example_key, pa_remote = ''r1'', pa_node = ''n1'', pa_key_sockets = Some 2, pa_node_sockets = None\<rparr>"
  have run: "compute_proposals [(example_key, unbind (example_entry False))] [node_status_of ''r1'' Pve ''n1'' None None False] = [?p]"
    by (simp add: compute_proposals_def target_nodes_def propose_def best_key_def candidates_def pick_best_pve_socket_key_def
        covering_keys_def map_filter_simps node_status_of_def node_fields_def unbind_def example_entry_def new_entry_def
        matches_remote_type_def as_u32_def example_sockets)
  have "\<exists>e n. al_get [(example_key, unbind (example_entry False))] (pa_key ?p) = Some e \<and> node_of n = target_of ?p \<and> fits e n"
    using proposals_sound_and_maximal [OF _ _ run] unfolding al_keys_distinct_def by fastforce
  with run show ?thesis by blast
qed

end
