(* ===== verification/SubscriptionWorker.thy ===== *)
theory SubscriptionWorker
  imports SubscriptionPoolProps
begin

text \<open>
  Pending changes of the key pool: the worker carries them all out when nothing fails, drops a binding only
  after the remote has deleted the key, and \<^verbatim>\<open>clear_pending\<close> takes them back.
\<close>

section \<open>Products\<close>

lemma schema_product:
  assumes "subscription_key_schema k"
  shows "product_from_key k = Some PtPve \<or> product_from_key k = Some PtPbs"
  using assms
proof (cases rule: schema_key_cases)
  case (pve sockets l secret)
  have "CHR ''-'' \<notin> set (''pve'' @ sockets @ [l])" using pve no_dash_digits by auto
  then show ?thesis
    using split_once_append [of "CHR ''-''" "''pve'' @ sockets @ [l]" secret] pve(1) by (simp add: product_from_key_def starts_with_def)
next
  case (pbs l secret)
  have "CHR ''-'' \<notin> set (''pbs'' @ [l])" using pbs by auto
  then show ?thesis
    using split_once_append [of "CHR ''-''" "''pbs'' @ [l]" secret] pbs(1) by (simp add: product_from_key_def starts_with_def)
qed

section \<open>What is to be done\<close>

text \<open>
  The pending changes of a caller, independent of how the code finds them: an entry is to be cleared if a clear is
  queued for it, and to be pushed if none is queued and its node is not seen to run its key, in both cases if the
  caller may modify the remote it is bound to. \<open>seen\<close> says which key a node of a remote is seen to run.
\<close>

definition live_key :: "live_info \<Rightarrow> str \<Rightarrow> str \<Rightarrow> str option" where
  "live_key live r n =
     (case live r of Inl _ \<Rightarrow> None | Inr infos \<Rightarrow> (case map_of infos n of Some (Some info) \<Rightarrow> si_key info | _ \<Rightarrow> None))"

definition to_clear :: "('a, 'd) sub_env \<Rightarrow> 'a \<Rightarrow> SubscriptionKeyEntry \<Rightarrow> bool" where
  "to_clear E a e \<longleftrightarrow> ke_pending_clear e \<and> (\<exists>r n. bound_to e r n \<and> has_priv E a r PRIV_RESOURCE_MODIFY)"

definition to_push :: "('a, 'd) sub_env \<Rightarrow> 'a \<Rightarrow> (str \<Rightarrow> str \<Rightarrow> str option) \<Rightarrow> SubscriptionKeyEntry \<Rightarrow> bool" where
  "to_push E a seen e \<longleftrightarrow>
     \<not> ke_pending_clear e \<and> (\<exists>r n. bound_to e r n \<and> has_priv E a r PRIV_RESOURCE_MODIFY \<and> seen r n \<noteq> Some (ke_key e))"

text \<open>The requests for one entry: the push, or the deletion if the remote is still configured; then the cached state
  of the remote is dropped.\<close>

definition requests_for ::
  "('a, 'd) sub_env \<Rightarrow> 'a \<Rightarrow> (str \<times> Remote) list \<Rightarrow> (str \<Rightarrow> str \<Rightarrow> str option) \<Rightarrow> SubscriptionKeyEntry \<Rightarrow> request list" where
  "requests_for E a remotes seen e =
     (case binding e of
        None \<Rightarrow> []
      | Some (r, n) \<Rightarrow>
          if to_clear E a e then
            (if map_of remotes r = None then [] else [DeleteKey r n (ke_product_type e)]) @ [InvalidateCache r]
          else if to_push E a seen e then [PushKey r n (ke_key e), InvalidateCache r]
          else [])"

text \<open>The key that a list of node states shows for a node.\<close>

definition status_key :: "RemoteNodeStatus list \<Rightarrow> str \<Rightarrow> str \<Rightarrow> str option" where
  "status_key ns r n = Option.bind (List.find (\<lambda>m. rn_remote m = r \<and> rn_node m = n) ns) rn_current_key"

lemma pending_of_spec:
  "pending_of E a ns e =
     (case binding e of
        None \<Rightarrow> None
      | Some (r, n) \<Rightarrow>
          if to_clear E a e then Some \<lparr>pe_key = ke_key e, pe_remote = r, pe_node = n, pe_op = Clear\<rparr>
          else if to_push E a (status_key ns) e then Some \<lparr>pe_key = ke_key e, pe_remote = r, pe_node = n, pe_op = Push\<rparr>
          else None)"
  by (auto simp: pending_of_def binding_def to_clear_def to_push_def bound_to_def status_key_def Let_def split: option.split)

lemma find_append: "List.find P (xs @ ys) = (case List.find P xs of Some x \<Rightarrow> Some x | None \<Rightarrow> List.find P ys)"
  by (induction xs) simp_all

lemma status_key_append: "status_key (xs @ ys) r n =
    (if \<exists>m \<in> set xs. rn_remote m = r \<and> rn_node m = n then status_key xs r n else status_key ys r n)"
proof (cases "List.find (\<lambda>m. rn_remote m = r \<and> rn_node m = n) xs")
  case None
  then have "\<not> (\<exists>m \<in> set xs. rn_remote m = r \<and> rn_node m = n)" by (simp add: find_None_iff)
  with None show ?thesis by (simp only: status_key_def find_append option.case if_False)
next
  case (Some m)
  then have "\<exists>m \<in> set xs. rn_remote m = r \<and> rn_node m = n" by (metis (mono_tags, lifting) find_None_iff option.distinct(1))
  with Some show ?thesis by (simp only: status_key_def find_append option.case if_True)
qed

lemma status_key_infos:
  assumes "\<And>node info. rn_remote (f node info) = r \<and> rn_node (f node info) = node \<and>
    rn_current_key (f node info) = Option.bind info si_key"
  shows "status_key (map (\<lambda>(node, info). f node info) infos) r' n =
    (if r' = r then (case map_of infos n of Some (Some info) \<Rightarrow> si_key info | _ \<Rightarrow> None) else None)"
proof (induction infos)
  case (Cons x infos)
  obtain node info where x: "x = (node, info)" by force
  have f: "rn_remote (f a b) = r" "rn_node (f a b) = a" "rn_current_key (f a b) = Option.bind b si_key" for a b
    using assms by blast+
  show ?case
  proof (cases "r' = r \<and> n = node")
    case True
    then show ?thesis by (cases info) (simp_all add: x status_key_def f)
  next
    case False
    then have "status_key (map (\<lambda>(node, info). f node info) (x # infos)) r' n = status_key (map (\<lambda>(node, info). f node info) infos) r' n"
      by (auto simp: x status_key_def f)
    with False Cons.IH show ?thesis by (auto simp: x)
  qed
qed (simp add: status_key_def)

lemma status_key_remotes:
  assumes "\<And>name remote node info. rn_remote (f name remote node info) = name \<and> rn_node (f name remote node info) = node \<and>
    rn_current_key (f name remote node info) = Option.bind info si_key"
  shows "status_key (concat (map (\<lambda>(name, remote). case live name of
        Inl _ \<Rightarrow> [] | Inr infos \<Rightarrow> map (\<lambda>(node, info). f name remote node info) infos) remotes)) r n =
    (if map_of remotes r = None then None else live_key live r n)"
proof (induction remotes)
  case (Cons x remotes)
  obtain name remote where x: "x = (name, remote)" by force
  show ?case
  proof (cases "live name")
    case (Inr infos)
    let ?ns = "map (\<lambda>(node, info). f name remote node info) infos"
    have here: "status_key ?ns r n = (if r = name then (case map_of infos n of Some (Some info) \<Rightarrow> si_key info | _ \<Rightarrow> None) else None)"
      by (rule status_key_infos) (rule assms)
    have "(\<exists>m \<in> set ?ns. rn_remote m = r \<and> rn_node m = n) \<longleftrightarrow> r = name \<and> map_of infos n \<noteq> None"
      by (force simp: assms map_of_eq_None_iff)
    then show ?thesis
      using here Cons.IH by (auto simp: x Inr status_key_append live_key_def split: option.split)
  qed (use Cons.IH in \<open>auto simp: x live_key_def\<close>)
qed (simp add: status_key_def)

lemma node_status_fields [simp]:
  "rn_remote (node_status_of name ty node info k p) = name" "rn_node (node_status_of name ty node info k p) = node"
  "rn_current_key (node_status_of name ty node info k p) = Option.bind info si_key"
  by (auto simp: node_status_of_def node_fields_def split: option.split)

lemma uncached_status_key:
  "status_key (collect_status_uncached live remotes) r n = (if map_of remotes r = None then None else live_key live r n)"
  unfolding collect_status_uncached_def by (rule status_key_remotes) simp

lemma find_insort_by:
  "(\<And>y. P x \<Longrightarrow> P y \<Longrightarrow> cmp x y \<noteq> Greater) \<Longrightarrow> List.find P (insort_by cmp x xs) = (if P x then Some x else List.find P xs)"
  by (induction xs) auto

lemma status_key_sort: "status_key (sort_by compare_status ns) r n = status_key ns r n"
proof -
  have "List.find (\<lambda>m. rn_remote m = r \<and> rn_node m = n) (sort_by compare_status ns) = List.find (\<lambda>m. rn_remote m = r \<and> rn_node m = n) ns"
  proof (induction ns)
    case (Cons x ns)
    have "List.find (\<lambda>m. rn_remote m = r \<and> rn_node m = n) (insort_by compare_status x xs) =
        (if rn_remote x = r \<and> rn_node x = n then Some x else List.find (\<lambda>m. rn_remote m = r \<and> rn_node m = n) xs)" for xs
      by (rule find_insort_by) (simp add: compare_status_def)
    with Cons show ?case by simp
  qed simp
  then show ?thesis by (simp add: status_key_def)
qed

section \<open>The list of pending changes\<close>

text \<open>The entries pending for a caller, in the order of the pool, and what they do to a map of entries.\<close>

definition pendings :: "('a, 'd) sub_env \<Rightarrow> 'a \<Rightarrow> RemoteNodeStatus list \<Rightarrow> (str, SubscriptionKeyEntry) alist \<Rightarrow> PendingEntry list" where
  "pendings E a ns K = List.map_filter (\<lambda>(_, e). pending_of E a ns e) K"

definition patched ::
  "(PendingEntry \<Rightarrow> SubscriptionKeyEntry \<Rightarrow> SubscriptionKeyEntry) \<Rightarrow> PendingEntry list \<Rightarrow> (str \<rightharpoonup> SubscriptionKeyEntry) \<Rightarrow> (str \<rightharpoonup> SubscriptionKeyEntry)" where
  "patched upd ps M k = (case List.find (\<lambda>p. pe_key p = k) ps of Some p \<Rightarrow> map_option (upd p) (M k) | None \<Rightarrow> M k)"

lemma patched_Nil [simp]: "patched upd [] M = M"
  by (simp add: patched_def fun_eq_iff)

lemma patched_Cons:
  assumes "pe_key p \<notin> pe_key ` set ps"
  shows "patched upd (p # ps) M = patched upd ps (M(pe_key p := map_option (upd p) (M (pe_key p))))"
proof
  fix k
  have "List.find (\<lambda>q. pe_key q = pe_key p) ps = None" using assms by (auto simp: find_None_iff image_iff)
  then show "patched upd (p # ps) M k = patched upd ps (M(pe_key p := map_option (upd p) (M (pe_key p)))) k"
    by (auto simp: patched_def split: option.split)
qed

lemma pendings_Cons:
  "pendings E a ns ((k, e) # K) = (case pending_of E a ns e of Some p \<Rightarrow> p # pendings E a ns K | None \<Rightarrow> pendings E a ns K)"
  by (simp add: pendings_def map_filter_simps split: option.split)

lemma pendings_key:
  "p \<in> set (pendings E a ns K) \<Longrightarrow> \<forall>(k, e) \<in> set K. ke_key e = k \<Longrightarrow> pe_key p \<in> fst ` set K"
  by (force simp: pendings_def set_map_filter dest!: pending_of_Some)

lemma distinct_pendings:
  "al_keys_distinct K \<Longrightarrow> \<forall>(k, e) \<in> set K. ke_key e = k \<Longrightarrow> distinct (map pe_key (pendings E a ns K))"
proof (induction K)
  case (Cons x K)
  obtain k e where x: "x = (k, e)" by force
  have IH: "distinct (map pe_key (pendings E a ns K))" and k: "k \<notin> fst ` set K" "ke_key e = k" "\<forall>(k, e) \<in> set K. ke_key e = k"
    using Cons by (simp_all add: al_keys_distinct_def x)
  have "k \<notin> pe_key ` set (pendings E a ns K)"
    using k pendings_key [of _ E a ns K] by blast
  then show ?case
    using IH k pending_of_Some [of E a ns e] by (auto simp: x pendings_Cons split: option.split)
qed (simp add: pendings_def map_filter_simps)

lemma find_pendings:
  "al_keys_distinct K \<Longrightarrow> \<forall>(k, e) \<in> set K. ke_key e = k \<Longrightarrow>
   List.find (\<lambda>p. pe_key p = k) (pendings E a ns K) = Option.bind (al_get K k) (pending_of E a ns)"
proof (induction K)
  case (Cons x K)
  obtain k' e where x: "x = (k', e)" by force
  have IH: "List.find (\<lambda>p. pe_key p = k) (pendings E a ns K) = Option.bind (al_get K k) (pending_of E a ns)"
    and k: "k' \<notin> fst ` set K" "ke_key e = k'"
    using Cons by (simp_all add: al_keys_distinct_def x)
  from k(1) have "al_get K k' = None" by (simp add: map_of_eq_None_iff)
  with IH k show ?case
    using pending_of_Some [of E a ns e] by (cases "pending_of E a ns e") (auto simp: x pendings_Cons)
qed (simp add: pendings_def map_filter_simps)

lemma pool_inv_keys: "pool_inv E K \<Longrightarrow> \<forall>(k, e) \<in> set K. ke_key e = k"
  unfolding pool_inv_def entry_ok_def using pool_inv_set [of E K] by (auto simp: al.items_get)

lemmas pendings_find = distinct_pendings [OF pool_inv_distinct pool_inv_keys] find_pendings [OF pool_inv_distinct pool_inv_keys]

lemma patched_pendings:
  assumes "pool_inv E K"
  shows "patched upd (pendings E a ns K) (al_get K) k =
    map_option (\<lambda>e. case pending_of E a ns e of Some p \<Rightarrow> upd p e | None \<Rightarrow> e) (al_get K k)"
  by (auto simp: patched_def pendings_find(2) [OF assms assms] split: option.split bind_splits)

section \<open>One step of the worker\<close>

definition requests_of :: "(str \<times> Remote) list \<Rightarrow> PendingEntry \<Rightarrow> request list" where
  "requests_of remotes p = (case pe_op p of
     Push \<Rightarrow> [PushKey (pe_remote p) (pe_node p) (pe_key p)]
   | Clear \<Rightarrow> if map_of remotes (pe_remote p) = None then []
       else [DeleteKey (pe_remote p) (pe_node p) (the (product_from_key (pe_key p)))]) @ [InvalidateCache (pe_remote p)]"

abbreviation answered :: "request list \<Rightarrow> (request \<times> bool) list" where
  "answered qs \<equiv> map (\<lambda>q. (q, True)) qs"

definition applied :: "PendingEntry \<Rightarrow> SubscriptionKeyEntry \<Rightarrow> SubscriptionKeyEntry" where
  "applied p e = (case pe_op p of Push \<Rightarrow> e | Clear \<Rightarrow> unbind e)"

definition ready :: "(str \<times> Remote) list \<Rightarrow> (str \<rightharpoonup> SubscriptionKeyEntry) \<Rightarrow> PendingEntry \<Rightarrow> bool" where
  "ready remotes M p \<longleftrightarrow>
     (pe_op p = Push \<longrightarrow> map_of remotes (pe_remote p) \<noteq> None) \<and> product_from_key (pe_key p) \<in> {Some PtPve, Some PtPbs} \<and>
     (\<exists>e. M (pe_key p) = Some e \<and> bound_to e (pe_remote p) (pe_node p) \<and> (pe_op p = Clear \<longleftrightarrow> ke_pending_clear e))"

lemma no_faults:
  assumes "ps_faults s = []"
  shows "sub_lock s = (Inr (), s)" "sub_config E s = (Inr (ps_keys s, su_digest E (ps_text s)), s)"
    "sub_save E c s = (Inr (su_digest E (su_write E c)), s\<lparr>ps_text := su_write E c, ps_keys := c\<rparr>)"
    "send_request q s = (Inr (), s\<lparr>ps_requests := ps_requests s @ [(q, True)]\<rparr>)"
  using assms by (simp_all add: sub_lock_def sub_config_def sub_save_def send_request_def pool_sys_def)

lemma apply_step_run:
  assumes w: "\<And>s. w s = s" and "ps_faults s = []" and "ready remotes (al_get (ps_keys s)) p"
  shows "\<exists>s'. apply_step E w remotes p (c, f) s = (Inr (c + 1, f), s') \<and> ps_faults s' = [] \<and>
    ps_requests s' = ps_requests s @ answered (requests_of remotes p) \<and>
    al_get (ps_keys s') = (al_get (ps_keys s))(pe_key p := map_option (applied p) (al_get (ps_keys s) (pe_key p)))"
proof -
  from assms(3) obtain e pr rm where e: "al_get (ps_keys s) (pe_key p) = Some e" "bound_to e (pe_remote p) (pe_node p)"
      "pe_op p = Clear \<longleftrightarrow> ke_pending_clear e"
    and pr: "product_from_key (pe_key p) = Some pr" "pr \<in> {PtPve, PtPbs}"
    and rm: "pe_op p = Push \<Longrightarrow> map_of remotes (pe_remote p) = Some rm"
    by (auto simp: ready_def)
  show ?thesis
    by (cases "pe_op p"; cases "map_of remotes (pe_remote p)")
      (use assms(2) e pr rm in \<open>simp_all add: apply_step_def execute_pending_def drop_binding_def push_key_to_remote_def
        delete_subscription_on_remote_def pool_assignment_still_valid_def op_consistent_def io_bind_def io_modify_def io_try_def
        io_return_def no_faults w requests_of_def applied_def al_get_put fun_upd_idem\<close>)
qed

lemma apply_fold_run:
  assumes w: "\<And>s. w s = s" and "ps_faults s = []" and "distinct (map pe_key ps)" and "\<forall>p \<in> set ps. ready remotes (al_get (ps_keys s)) p"
  shows "\<exists>s'. io_fold (apply_step E w remotes) ps (c, f) s = (Inr (c + length ps, f), s') \<and>
    ps_requests s' = ps_requests s @ answered (concat (map (requests_of remotes) ps)) \<and>
    al_get (ps_keys s') = patched applied ps (al_get (ps_keys s))"
  using assms(2-)
proof (induction ps arbitrary: s c)
  case Nil
  then show ?case by (simp add: io_return_def)
next
  case (Cons p ps)
  from apply_step_run [where w = w, OF w, of s remotes p E c f] Cons.prems obtain s1 where
    run: "apply_step E w remotes p (c, f) s = (Inr (c + 1, f), s1)" and faults: "ps_faults s1 = []"
    and reqs: "ps_requests s1 = ps_requests s @ answered (requests_of remotes p)"
    and keys: "al_get (ps_keys s1) = (al_get (ps_keys s))(pe_key p := map_option (applied p) (al_get (ps_keys s) (pe_key p)))"
    by auto
  have "ready remotes (al_get (ps_keys s1)) q" if "q \<in> set ps" for q
  proof -
    have "pe_key q \<noteq> pe_key p" using that Cons.prems(2) by (auto simp: image_iff)
    then show ?thesis using that Cons.prems(3) by (simp add: ready_def keys)
  qed
  then have "\<exists>s'. io_fold (apply_step E w remotes) ps (c + 1, f) s1 = (Inr (c + 1 + length ps, f), s') \<and>
    ps_requests s' = ps_requests s1 @ answered (concat (map (requests_of remotes) ps)) \<and>
    al_get (ps_keys s') = patched applied ps (al_get (ps_keys s1))"
    by (intro Cons.IH [OF faults]) (use Cons.prems(2) in simp_all)
  moreover have "pe_key p \<notin> pe_key ` set ps" using Cons.prems(2) by simp
  ultimately show ?case
    by (simp add: io_bind_def run reqs keys patched_Cons)
qed

lemma pendings_ready:
  assumes "pool_inv E K" and "\<And>k e r. al_get K k = Some e \<Longrightarrow> to_push E a (status_key ns) e \<Longrightarrow> ke_remote e = Some r \<Longrightarrow>
      map_of remotes r \<noteq> None"
    and "p \<in> set (pendings E a ns K)"
  shows "ready remotes (al_get K) p"
proof -
  from assms(3) obtain k e where mem: "(k, e) \<in> set K" and p: "pending_of E a ns e = Some p"
    by (auto simp: pendings_def set_map_filter)
  then have get: "al_get K k = Some e" using pool_inv_set [OF assms(1)] by blast
  then have e: "ke_key e = k" "subscription_key_schema k" using pool_inv_entry [OF assms(1)] by (auto simp: entry_ok_def)
  have "to_push E a (status_key ns) e" if "pe_op p = Push"
    using p that by (auto simp: pending_of_spec split: option.splits if_splits)
  then show ?thesis
    using pending_of_Some [OF p] get e assms(2) [OF get] schema_product [OF e(2)] unfolding ready_def by (auto simp: bound_to_def)
qed

lemma compute_pending_run:
  "ps_faults s = [] \<Longrightarrow> compute_pending E a ns s = (Inr (pendings E a ns (ps_keys s)), s)"
  by (simp add: compute_pending_def io_bind_def no_faults io_return_def pendings_def)

section \<open>Bindings are dropped only after a deletion\<close>

text \<open>Each entry is as in \<open>M\<close>, or was queued for clearing and has lost its binding after the deletion on its remote.\<close>

definition cleared_after_delete :: "(str \<times> Remote) list \<Rightarrow> (str \<rightharpoonup> SubscriptionKeyEntry) \<Rightarrow> pool_state \<Rightarrow> bool" where
  "cleared_after_delete remotes M s \<longleftrightarrow>
     (\<forall>k. al_get (ps_keys s) k = M k \<or>
        (\<exists>e r n p. M k = Some e \<and> bound_to e r n \<and> ke_pending_clear e \<and> al_get (ps_keys s) k = Some (unbind e) \<and>
           (map_of remotes r = None \<or> (DeleteKey r n p, True) \<in> set (ps_requests s))))"

lemma cleared_mono:
  "cleared_after_delete remotes M s \<Longrightarrow> ps_keys s' = ps_keys s \<Longrightarrow> set (ps_requests s) \<subseteq> set (ps_requests s') \<Longrightarrow>
   cleared_after_delete remotes M s'"
  unfolding cleared_after_delete_def by (metis subsetD)

lemma cleared_update:
  assumes "cleared_after_delete remotes M s" and "al_get (ps_keys s) k = Some e" and "bound_to e r n" and "ke_pending_clear e"
    and "map_of remotes r = None \<or> (DeleteKey r n p, True) \<in> set (ps_requests s)"
    and "ps_keys s' = al_put k (unbind e) (ps_keys s)" and "ps_requests s' = ps_requests s"
  shows "cleared_after_delete remotes M s'"
proof -
  have "M k = Some e"
    using spec [OF assms(1) [unfolded cleared_after_delete_def], of k] assms(2,3) by (auto simp: unbind_def bound_to_def)
  then show ?thesis
    using assms unfolding cleared_after_delete_def by (auto simp: al_get_put)
qed

lemma sys_effects:
  "sub_lock s = (x, s') \<Longrightarrow> ps_keys s' = ps_keys s \<and> ps_requests s' = ps_requests s"
  "sub_config E s = (y, s') \<Longrightarrow> ps_keys s' = ps_keys s \<and> ps_requests s' = ps_requests s \<and> (\<forall>cd. y = Inr cd \<longrightarrow> fst cd = ps_keys s)"
  "sub_save E c s = (z, s') \<Longrightarrow> ps_requests s' = ps_requests s \<and> (ps_keys s' = ps_keys s \<or> ps_keys s' = c)"
  "send_request q s = (u, s') \<Longrightarrow> ps_keys s' = ps_keys s \<and> (\<exists>b. ps_requests s' = ps_requests s @ [(q, b)] \<and> (u = Inr () \<longrightarrow> b))"
  by (auto simp: sub_lock_def sub_config_def sub_save_def send_request_def pool_sys_def Let_def split: list.splits if_splits)

text \<open>The entry is the one of the pool and is queued for clearing.\<close>

definition clearing :: "(str, SubscriptionKeyEntry) alist \<Rightarrow> PendingEntry \<Rightarrow> bool" where
  "clearing K p \<longleftrightarrow> pool_assignment_still_valid K p \<and> op_consistent K p"

lemma drop_binding_cleared:
  assumes "pe_op p = Clear"
  shows "io_triple
    (\<lambda>s. cleared_after_delete remotes M s \<and> clearing (ps_keys s) p \<and>
       (map_of remotes (pe_remote p) = None \<or> (\<exists>pr. (DeleteKey (pe_remote p) (pe_node p) pr, True) \<in> set (ps_requests s))))
    (drop_binding E p) (\<lambda>_. cleared_after_delete remotes M) (cleared_after_delete remotes M)"
proof (rule io_triple_sndI)
  fix s
  assume pre: "cleared_after_delete remotes M s \<and> clearing (ps_keys s) p \<and>
       (map_of remotes (pe_remote p) = None \<or> (\<exists>pr. (DeleteKey (pe_remote p) (pe_node p) pr, True) \<in> set (ps_requests s)))"
  then obtain e where e: "al_get (ps_keys s) (pe_key p) = Some e" "bound_to e (pe_remote p) (pe_node p)" "ke_pending_clear e"
    using assms by (auto simp: clearing_def pool_assignment_still_valid_def op_consistent_def split: option.splits)
  obtain r s' where run: "drop_binding E p s = (r, s')" by force
  then have "(ps_keys s' = ps_keys s \<or> ps_keys s' = al_put (pe_key p) (unbind e) (ps_keys s)) \<and> ps_requests s' = ps_requests s"
    unfolding drop_binding_def io_bind_def using e
    by (auto simp: io_return_def dest!: sys_effects split: prod.splits sum.splits)
  with pre e show "cleared_after_delete remotes M (snd (drop_binding E p s))"
    using cleared_mono [of remotes M s s'] cleared_update [of remotes M s "pe_key p" e] by (auto simp: run)
qed

lemma send_request_cleared:
  assumes "\<And>s. P s \<Longrightarrow> cleared_after_delete remotes M s"
  shows "io_triple P (send_request q) (\<lambda>_. cleared_after_delete remotes M) (cleared_after_delete remotes M)"
proof (rule io_triple_sndI)
  fix s
  assume "P s"
  obtain u s' where run: "send_request q s = (u, s')" by force
  have "cleared_after_delete remotes M s'"
    by (rule cleared_mono [OF assms [OF \<open>P s\<close>]]) (use sys_effects(4) [OF run] in auto)
  then show "cleared_after_delete remotes M (snd (send_request q s))" by (simp add: run)
qed

lemma delete_cleared:
  "io_triple (\<lambda>s. cleared_after_delete remotes M s \<and> clearing (ps_keys s) p)
     (case map_of remotes (pe_remote p) of Some _ \<Rightarrow> delete_subscription_on_remote (pe_remote p) pr (pe_node p) | None \<Rightarrow> io_return ())
     (\<lambda>_ s. cleared_after_delete remotes M s \<and> clearing (ps_keys s) p \<and>
       (map_of remotes (pe_remote p) = None \<or> (\<exists>pr. (DeleteKey (pe_remote p) (pe_node p) pr, True) \<in> set (ps_requests s))))
     (cleared_after_delete remotes M)"
proof (cases "map_of remotes (pe_remote p)")
  case None
  then show ?thesis by (auto intro: io_triple_return)
next
  case (Some r)
  have "io_triple (\<lambda>s. cleared_after_delete remotes M s \<and> clearing (ps_keys s) p) (send_request q)
     (\<lambda>_ s. cleared_after_delete remotes M s \<and> clearing (ps_keys s) p \<and> (q, True) \<in> set (ps_requests s))
     (cleared_after_delete remotes M)" for q
  proof (rule io_tripleI)
    fix s x s'
    assume "cleared_after_delete remotes M s \<and> clearing (ps_keys s) p" "send_request q s = (Inr x, s')"
    then show "cleared_after_delete remotes M s' \<and> clearing (ps_keys s') p \<and> (q, True) \<in> set (ps_requests s')"
      using sys_effects(4) [of q s "Inr x" s'] cleared_mono [of remotes M s s'] by (auto simp: subset_insertI)
  next
    fix s e s'
    assume "cleared_after_delete remotes M s \<and> clearing (ps_keys s) p" "send_request q s = (Inl e, s')"
    then show "cleared_after_delete remotes M s'"
      using sys_effects(4) [of q s "Inl e" s'] cleared_mono [of remotes M s s'] by (auto simp: subset_insertI)
  qed
  then show ?thesis
    unfolding Some delete_subscription_on_remote_def
    by (auto intro!: io_triple_fail intro: io_triple_conseq)
qed

lemma execute_pending_cleared:
  assumes w: "\<And>s. w s = s"
  shows "io_triple (\<lambda>s. cleared_after_delete remotes M s \<and> clearing (ps_keys s) p) (execute_pending E w remotes p)
     (\<lambda>_. cleared_after_delete remotes M) (cleared_after_delete remotes M)"
proof (cases "pe_op p")
  case Push
  then show ?thesis
    unfolding execute_pending_def push_key_to_remote_def
    by simp (intro io_triple_case_option io_triple_fail io_triple_if send_request_cleared; simp)
next
  case Clear
  have run: "io_bind (io_modify w) (\<lambda>_. m) = m" for m :: "unit pool_io"
    by (rule ext) (simp add: io_bind_def io_modify_def w)
  from Clear show ?thesis
    unfolding execute_pending_def
    by simp (intro io_triple_case_option io_triple_fail io_triple_bind [OF delete_cleared]; simp add: run drop_binding_cleared)
qed

lemma apply_step_cleared:
  assumes w: "\<And>s. w s = s"
  shows "io_triple (cleared_after_delete remotes M) (apply_step E w remotes p acc) (\<lambda>_. cleared_after_delete remotes M)
    (cleared_after_delete remotes M)"
proof -
  obtain c f where acc: "acc = (c, f)" by force
  have other: "io_triple (cleared_after_delete remotes M) (io_modify w) (\<lambda>_. cleared_after_delete remotes M) (cleared_after_delete remotes M)"
    by (rule io_triple_sndI) (simp add: io_modify_def w)
  have config: "io_triple (cleared_after_delete remotes M) (sub_config E)
      (\<lambda>cd s. cleared_after_delete remotes M s \<and> ps_keys s = fst cd) (cleared_after_delete remotes M)"
    by (rule io_tripleI) (auto dest!: sys_effects(2) elim: cleared_mono)
  have body: "io_triple (\<lambda>s. cleared_after_delete remotes M s \<and> ps_keys s = K)
      (if \<not> pool_assignment_still_valid K p \<or> \<not> op_consistent K p then io_return acc
       else io_bind (io_try (execute_pending E w remotes p)) (\<lambda>r. case r of
          Inl _ \<Rightarrow> io_return (c, f @ [(pe_remote p, pe_node p)])
        | Inr _ \<Rightarrow> io_bind (io_try (send_request (InvalidateCache (pe_remote p)))) (\<lambda>_. io_return (c + 1, f))))
      (\<lambda>_. cleared_after_delete remotes M) (cleared_after_delete remotes M)" for K
  proof (rule io_triple_if)
    assume "\<not> (\<not> pool_assignment_still_valid K p \<or> \<not> op_consistent K p)"
    then have "io_triple (\<lambda>s. cleared_after_delete remotes M s \<and> ps_keys s = K) (io_try (execute_pending E w remotes p))
        (\<lambda>_. cleared_after_delete remotes M) (cleared_after_delete remotes M)"
      by (intro io_triple_conseq [OF io_triple_try [OF execute_pending_cleared [OF w]]]) (auto simp: clearing_def split: sum.splits)
    moreover have "io_triple (cleared_after_delete remotes M) (io_try (send_request (InvalidateCache (pe_remote p))))
        (\<lambda>_. cleared_after_delete remotes M) (cleared_after_delete remotes M)"
      by (rule io_triple_conseq [OF io_triple_try [OF send_request_cleared [where P = "cleared_after_delete remotes M"]]])
        (auto split: sum.splits)
    ultimately show "io_triple (\<lambda>s. cleared_after_delete remotes M s \<and> ps_keys s = K)
      (io_bind (io_try (execute_pending E w remotes p)) (\<lambda>r. case r of
          Inl _ \<Rightarrow> io_return (c, f @ [(pe_remote p, pe_node p)])
        | Inr _ \<Rightarrow> io_bind (io_try (send_request (InvalidateCache (pe_remote p)))) (\<lambda>_. io_return (c + 1, f))))
      (\<lambda>_. cleared_after_delete remotes M) (cleared_after_delete remotes M)"
      by (auto intro!: io_triple_bind intro: io_triple_return split: sum.split)
  qed (auto intro: io_triple_return)
  show ?thesis
    unfolding apply_step_def acc prod.case
    by (rule io_triple_bind [OF other], rule io_triple_bind [OF config])
      (simp only: case_prod_beta body [unfolded acc])
qed

lemma io_bind_return: "io_bind (io_return x) f = f x"
  by (rule ext) (simp add: io_bind_def io_return_def)

lemma run_apply_pending_cleared:
  assumes "su_remotes E = Some remotes" and w: "\<And>s. w s = s" and "cleared_after_delete remotes M s"
  shows "cleared_after_delete remotes M (snd (run_apply_pending E w live a s))"
proof -
  let ?C = "cleared_after_delete remotes M"
  have "io_triple ?C (compute_pending E a ns) (\<lambda>_. ?C) ?C" for ns
    by (rule io_triple_sndI)
      (auto simp: compute_pending_def io_bind_def io_return_def elim!: cleared_mono dest!: sys_effects(2) split: prod.splits sum.splits)
  moreover have "io_triple ?C (io_fold (apply_step E w remotes) ps acc) (\<lambda>_. ?C) ?C" for ps acc
    using io_triple_fold [of ps "\<lambda>_. True" ?C "apply_step E w remotes" ?C acc] apply_step_cleared [OF w, of remotes M E] by simp
  ultimately have "io_triple ?C (run_apply_pending E w live a) (\<lambda>_. ?C) ?C"
    unfolding run_apply_pending_def remotes_config_def assms(1)
    by (auto intro!: io_triple_bind [where R = "\<lambda>_. ?C"] io_triple_if io_triple_return io_triple_fail split: prod.split
        simp: io_bind_return)
  then show ?thesis using assms(3) by (rule io_triple_sndD)
qed

section \<open>Taking pending changes back\<close>

definition discarded :: "PendingEntry \<Rightarrow> SubscriptionKeyEntry \<Rightarrow> SubscriptionKeyEntry" where
  "discarded p e = (case pe_op p of Clear \<Rightarrow> e\<lparr>ke_pending_clear := False\<rparr> | Push \<Rightarrow> unbind e)"

lemma discard_fold:
  assumes "distinct (map pe_key ps)"
    and "\<forall>p \<in> set ps. \<exists>e. al_get K (pe_key p) = Some e \<and> bound_to e (pe_remote p) (pe_node p)"
  shows "snd (fold discard_pending ps (K, c)) = c + length ps \<and>
    al_get (fst (fold discard_pending ps (K, c))) = patched discarded ps (al_get K)"
  using assms
proof (induction ps arbitrary: K c)
  case (Cons p ps)
  then obtain e where e: "al_get K (pe_key p) = Some e" "bound_to e (pe_remote p) (pe_node p)" by auto
  let ?K = "al_put (pe_key p) (discarded p e) K"
  have "discard_pending p (K, c) = (?K, c + 1)" by (simp add: discard_pending_def e discarded_def)
  moreover have "\<exists>e. al_get ?K (pe_key q) = Some e \<and> bound_to e (pe_remote q) (pe_node q)" if "q \<in> set ps" for q
    using that Cons.prems by (auto simp: al_get_put image_iff)
  moreover have "al_get ?K = (al_get K)(pe_key p := map_option (discarded p) (al_get K (pe_key p)))"
    by (simp add: al_get_put e)
  ultimately show ?case
    using Cons.IH [of ?K "c + 1"] Cons.prems(1) patched_Cons [of p ps discarded "al_get K"] by (simp add: fun_upd_def)
qed simp

text \<open>The worker sees the nodes of the configured remotes, a caller those of them that it may audit.\<close>

definition seen_live :: "(str \<times> Remote) list \<Rightarrow> live_info \<Rightarrow> str \<Rightarrow> str \<Rightarrow> str option" where
  "seen_live remotes live r n = (if map_of remotes r = None then None else live_key live r n)"

definition seen_by :: "('a, 'd) sub_env \<Rightarrow> 'a \<Rightarrow> (str \<times> Remote) list \<Rightarrow> live_info \<Rightarrow> str \<Rightarrow> str \<Rightarrow> str option" where
  "seen_by E a remotes live r n =
     (if has_priv E a r PRIV_RESOURCE_AUDIT then seen_live remotes live r n else None)"

lemma collect_node_status_run:
  assumes "ps_faults s = []" and "su_remotes E = Some remotes"
  shows "\<exists>ns. collect_node_status E id live (Some a) s = (Inr ns, s) \<and> status_key ns = seen_by E a remotes live"
proof -
  let ?visible = "filter (\<lambda>(name, _). has_priv E a name PRIV_RESOURCE_AUDIT) remotes"
  let ?f = "\<lambda>name remote node info. case find_bound (ps_keys s) name node of
       Some (_, e) \<Rightarrow> node_status_of name (remote_ty remote) node info (Some (ke_key e)) (ke_pending_clear e)
     | None \<Rightarrow> node_status_of name (remote_ty remote) node info None False"
  let ?ns = "concat (map (\<lambda>(name, remote). case live name of
       Inl _ \<Rightarrow> [] | Inr infos \<Rightarrow> map (\<lambda>(node, info). ?f name remote node info) infos) ?visible)"
  have "map_of ?visible r = (if has_priv E a r PRIV_RESOURCE_AUDIT then map_of remotes r else None)" for r
    by (induction remotes) auto
  then have "status_key ?ns r n = seen_by E a remotes live r n" for r n
    by (subst status_key_remotes) (auto simp: seen_by_def seen_live_def split: option.split)
  moreover have "collect_node_status E id live (Some a) s = (Inr (sort_by compare_status ?ns), s)"
    using assms by (simp add: collect_node_status_def auth_run remotes_config_def io_bind_return no_faults(2)
        io_return_def io_bind_def io_modify_def Let_def)
  ultimately show ?thesis by (auto simp: fun_eq_iff status_key_sort)
qed

section \<open>Properties\<close>

lemma pendings_requests:
  assumes "pool_inv E K"
  shows "concat (map (requests_of remotes) (pendings E a ns K)) = concat (map (\<lambda>(k, e). requests_for E a remotes (status_key ns) e) K)"
    and "length (pendings E a ns K) = length (filter (\<lambda>(k, e). to_clear E a e \<or> to_push E a (status_key ns) e) K)"
proof -
  have step: "(case pending_of E a ns e of Some p \<Rightarrow> requests_of remotes p | None \<Rightarrow> []) = requests_for E a remotes (status_key ns) e \<and>
      (pending_of E a ns e \<noteq> None \<longleftrightarrow> to_clear E a e \<or> to_push E a (status_key ns) e)" if "(k, e) \<in> set K" for k e
  proof -
    have "entry_ok E k e" using that pool_inv_set [OF assms] pool_inv_entry [OF assms] by blast
    then have "product_from_key (ke_key e) = Some (ke_product_type e)" by (simp add: entry_ok_def)
    then show ?thesis
      by (auto simp: pending_of_spec requests_for_def requests_of_def binding_def to_clear_def to_push_def bound_to_def split: option.split)
  qed
  have "concat (map (requests_of remotes) (pendings E a ns L)) = concat (map (\<lambda>(k, e). requests_for E a remotes (status_key ns) e) L) \<and>
      length (pendings E a ns L) = length (filter (\<lambda>(k, e). to_clear E a e \<or> to_push E a (status_key ns) e) L)" if "set L \<subseteq> set K" for L
    using that
  proof (induction L)
    case (Cons x L)
    obtain k e where x: "x = (k, e)" by force
    with Cons.prems have sub: "(k, e) \<in> set K" "set L \<subseteq> set K" by auto
    from step [OF sub(1)] Cons.IH [OF sub(2)] show ?case
      by (cases "pending_of E a ns e") (simp_all add: x pendings_Cons)
  qed (simp add: pendings_def map_filter_simps)
  then show "concat (map (requests_of remotes) (pendings E a ns K)) = concat (map (\<lambda>(k, e). requests_for E a remotes (status_key ns) e) K)"
    "length (pendings E a ns K) = length (filter (\<lambda>(k, e). to_clear E a e \<or> to_push E a (status_key ns) e) K)"
    by blast+
qed

lemma patched_entry:
  assumes "pool_inv E K"
  shows "patched upd (pendings E a ns K) (al_get K) k = map_option
    (\<lambda>e. case binding e of
        None \<Rightarrow> e
      | Some (r, n) \<Rightarrow>
          if to_clear E a e then upd \<lparr>pe_key = ke_key e, pe_remote = r, pe_node = n, pe_op = Clear\<rparr> e
          else if to_push E a (status_key ns) e then upd \<lparr>pe_key = ke_key e, pe_remote = r, pe_node = n, pe_op = Push\<rparr> e
          else e) (al_get K k)"
  unfolding patched_pendings [OF assms] pending_of_spec
  by (cases "al_get K k") (auto split: option.split)

lemma unbound_not_pending: "binding e = None \<Longrightarrow> \<not> to_clear E a e \<and> \<not> to_push E a seen e"
  by (auto simp: binding_def to_clear_def to_push_def bound_to_def)

definition example_remotes :: "(str \<times> Remote) list" where
  "example_remotes = [(''r1'', \<lparr>remote_ty = Pve, remote_id = ''r1''\<rparr>), (''r2'', \<lparr>remote_ty = Pbs, remote_id = ''r2''\<rparr>)]"

lemma example_facts:
  "ps_faults (example_state p) = []" "ps_requests (example_state p) = []" "su_remotes example_env = Some example_remotes"
  "\<not> su_modified example_env d None"
  by (simp_all add: example_state_def example_env_def example_remotes_def)



text \<open>
  C29. Whatever fails on the way, the worker takes the binding of a key out of the pool only if a clear of it was
  queued, and only after its deletion succeeded on the remote it was bound to, unless that remote is no longer
  configured; and it changes no entry in any other way.
\<close>

theorem unbound_only_after_delete:
  assumes "su_remotes E = Some remotes" and "ps_requests s = []" and "snd (run_apply_pending E id live a s) = s'"
    and "al_get (ps_keys s') k \<noteq> al_get (ps_keys s) k"
  shows "\<exists>e r n p. al_get (ps_keys s) k = Some e \<and> bound_to e r n \<and> ke_pending_clear e \<and> al_get (ps_keys s') k = Some (unbind e) \<and>
    (map_of remotes r = None \<or> (DeleteKey r n p, True) \<in> set (ps_requests s'))"
proof -
  have "cleared_after_delete remotes (al_get (ps_keys s)) s'"
    using run_apply_pending_cleared [where w = id, OF assms(1) id_apply, of "al_get (ps_keys s)" s live a] assms(3)
    by (simp add: cleared_after_delete_def [of _ _ s])
  with assms(4) show ?thesis unfolding cleared_after_delete_def by blast
qed

theorem unbound_only_after_delete_witness:
  "\<exists>p. (DeleteKey ''r1'' ''n1'' p, True) \<in>
     set (ps_requests (snd (run_apply_pending example_env id (example_live example_key) () (example_state True))))"
proof -
  let ?s = "snd (run_apply_pending example_env id (example_live example_key) () (example_state True))"
  have e: "al_get (ps_keys (example_state True)) example_key = Some (example_entry True)" by (simp add: example_state_def)
  have "map_option ke_remote (al_get (ps_keys ?s) example_key) = Some None" by code_simp
  then have "al_get (ps_keys ?s) example_key \<noteq> al_get (ps_keys (example_state True)) example_key"
    unfolding e by (auto simp: example_entry_def new_entry_def)
  from unbound_only_after_delete [OF example_facts(3,2) refl this] show ?thesis
    by (auto simp: e example_entry_def new_entry_def bound_to_def example_remotes_def)
qed

text \<open>
  C30. Clearing the pending changes, if no call fails, nobody interferes and the given digest is accepted, returns how
  many there were, and afterwards each key that was to be pushed is unbound, each queued clear is taken back, and
  every other entry is as before. The keys to be pushed are those whose node is not seen to run them, where the
  caller sees the nodes of the configured remotes that it may audit.
\<close>

theorem clear_pending_discards:
  assumes "pool_inv E (ps_keys s)" and "ps_faults s = []" and "su_remotes E = Some remotes"
    and "\<not> su_modified E (su_digest E (ps_text s)) digest" and "seen = seen_by E a remotes live"
  shows "\<exists>s'. clear_pending E id live (Some a) digest s =
      (Inr (length (filter (\<lambda>(k, e). to_clear E a e \<or> to_push E a seen e) (ps_keys s))), s') \<and>
    (\<forall>k. al_get (ps_keys s') k = map_option
       (\<lambda>e. if to_clear E a e then e\<lparr>ke_pending_clear := False\<rparr> else if to_push E a seen e then unbind e else e)
       (al_get (ps_keys s) k))"
proof -
  from collect_node_status_run [OF assms(2,3), of live a] obtain ns where
    ns: "collect_node_status E id live (Some a) s = (Inr ns, s)" and seen: "status_key ns = seen"
    unfolding assms(5) by blast
  let ?ps = "pendings E a ns (ps_keys s)"
  have pend: "compute_pending E a ns s = (Inr ?ps, s)" by (rule compute_pending_run [OF assms(2)])
  obtain K c where fold: "fold discard_pending ?ps (ps_keys s, 0) = (K, c)" by force
  have "\<exists>e. al_get (ps_keys s) (pe_key p) = Some e \<and> bound_to e (pe_remote p) (pe_node p)" if "p \<in> set ?ps" for p
    using that pending_of_Some [of E a ns _ p] pool_inv_set [OF assms(1)] pool_inv_entry [OF assms(1)]
    unfolding pendings_def set_map_filter entry_ok_def by fastforce
  then have done_all: "c = length ?ps" "al_get K = patched discarded ?ps (al_get (ps_keys s))"
    using discard_fold [of ?ps "ps_keys s" 0] pendings_find(1) [OF assms(1) assms(1), of E a ns] by (simp_all add: fold)
  have save: "clear_pending E id live (Some a) digest s =
      (Inr c, if ?ps = [] then s else s\<lparr>ps_text := su_write E K, ps_keys := K\<rparr>)"
    using ns pend fold done_all(1) assms(4)
    by (cases ?ps) (simp_all add: clear_pending_def clear_pending_locked_def auth_run io_bind_def io_modify_def io_return_def no_faults
        assms(2) sub_detect_modification_def require_def)
  have "al_get (ps_keys (if ?ps = [] then s else s\<lparr>ps_text := su_write E K, ps_keys := K\<rparr>)) k = map_option
       (\<lambda>e. if to_clear E a e then e\<lparr>ke_pending_clear := False\<rparr> else if to_push E a seen e then unbind e else e)
       (al_get (ps_keys s) k)" for k
  proof -
    have "al_get (ps_keys (if ?ps = [] then s else s\<lparr>ps_text := su_write E K, ps_keys := K\<rparr>)) = patched discarded ?ps (al_get (ps_keys s))"
      using done_all(2) by simp
    then show ?thesis
      unfolding patched_entry [OF assms(1)] seen
      by (cases "al_get (ps_keys s) k") (auto simp: discarded_def unbound_not_pending patched_entry [OF assms(1)] seen split: option.split)
  qed
  with save done_all(1) show ?thesis
    unfolding pendings_requests(2) [OF assms(1), where a = a and ns = ns, unfolded seen, symmetric] by blast
qed

theorem clear_pending_discards_witness:
  "\<exists>n s'. clear_pending example_env id (example_live ''pve1c-0000000000'') (Some ()) None (example_state False) = (Inr n, s') \<and>
     al_get (ps_keys s') example_key = Some (unbind (example_entry False))"
proof -
  let ?live = "example_live ''pve1c-0000000000''"
  let ?seen = "seen_by example_env () example_remotes ?live"
  have e: "al_get (ps_keys (example_state False)) example_key = Some (example_entry False)" by (simp add: example_state_def)
  have "has_priv example_env () ''r1'' PRIV_RESOURCE_MODIFY" by code_simp
  moreover have "?seen ''r1'' ''n1'' = Some ''pve1c-0000000000''" by code_simp
  ultimately have "to_push example_env () ?seen (example_entry False)" "\<not> to_clear example_env () (example_entry False)"
    by (auto simp: to_clear_def to_push_def bound_to_def example_entry_def new_entry_def example_key_def)
  note pending = this
  from clear_pending_discards [where s = "example_state False" and live = ?live and a = "()",
      OF example_inv example_facts(1,3,4) refl] obtain s' where
    run: "clear_pending example_env id ?live (Some ()) None (example_state False) = (Inr (length (filter
      (\<lambda>(k, e). to_clear example_env () e \<or> to_push example_env () ?seen e) (ps_keys (example_state False)))), s')"
    and keys: "\<forall>k. al_get (ps_keys s') k = map_option
      (\<lambda>e. if to_clear example_env () e then e\<lparr>ke_pending_clear := False\<rparr> else if to_push example_env () ?seen e then unbind e else e)
      (al_get (ps_keys (example_state False)) k)"
    by blast
  from pending spec [OF keys, of example_key] have "al_get (ps_keys s') example_key = Some (unbind (example_entry False))"
    by (simp add: e)
  with run show ?thesis by blast
qed

end
