(* ===== verification/ParallelFetcher.thy ===== *)
theory ParallelFetcher
  imports ResourceListing
begin

text \<open>
  Requests to many remotes at once, from \<^verbatim>\<open>server/src/parallel_fetcher.rs\<close>. Every remote is a task; a task of
  a PVE remote lists the nodes and starts a task for each of them. Two kinds of semaphores limit the number of
  requests: one for all of them and one for each PVE remote. The tasks interleave arbitrarily: a step of the
  machine is one action of one task between two points where it may wait. The function that is called for a
  node is a parameter that returns a result with its duration or panics; listing the nodes of a remote is a
  parameter too.
\<close>

section \<open>Responses\<close>

record 't NodeResponse =
  nr_node_name :: str
  nr_data :: "str + 't"
  nr_api_response_time :: nat

record 'p RemoteResponse =
  rr_remote_name :: str
  rr_remote_type :: RemoteType
  rr_response :: 'p

type_synonym 't MultipleNodesResponse = "str + 't NodeResponse list"

text \<open>\<^verbatim>\<open>slice::binary_search_by\<close>: halve the range until one element is left, then compare it.\<close>

function binary_search_from :: "('a \<Rightarrow> ordering) \<Rightarrow> 'a list \<Rightarrow> nat \<Rightarrow> nat \<Rightarrow> nat" where
  "binary_search_from cmp xs base sz =
     (if sz \<le> 1 then base
      else let half = sz div 2;
               mid = base + half
           in binary_search_from cmp xs (if cmp (xs ! mid) = Greater then base else mid) (sz - half))"
  by pat_completeness auto
termination by (relation "measure (\<lambda>(_, _, _, sz). sz)") auto

declare binary_search_from.simps [simp del]

definition binary_search_by :: "('a \<Rightarrow> ordering) \<Rightarrow> 'a list \<Rightarrow> nat option" where
  "binary_search_by cmp xs =
     (if xs = [] then None
      else let base = binary_search_from cmp xs 0 (length xs)
           in if cmp (xs ! base) = Equal then Some base else None)"

definition get_remote_response :: "'p RemoteResponse list \<Rightarrow> str \<Rightarrow> 'p RemoteResponse option" where
  "get_remote_response responses remote =
     map_option (\<lambda>index. responses ! index) (binary_search_by (\<lambda>probe. cmp_of (rr_remote_name probe) remote) responses)"

section \<open>Limits\<close>

definition DEFAULT_MAX_CONNECTIONS :: nat where
  "DEFAULT_MAX_CONNECTIONS = 20"

definition DEFAULT_MAX_CONNECTIONS_PER_REMOTE :: nat where
  "DEFAULT_MAX_CONNECTIONS_PER_REMOTE = 5"

record ParallelFetcherBuilder =
  pb_max_connections :: "nat option"
  pb_max_connections_per_remote :: "nat option"

record ParallelFetcher =
  pf_max_connections :: nat
  pf_max_connections_per_remote :: nat

definition builder :: ParallelFetcherBuilder where
  "builder = \<lparr>pb_max_connections = None, pb_max_connections_per_remote = None\<rparr>"

definition max_connections :: "nat \<Rightarrow> ParallelFetcherBuilder \<Rightarrow> ParallelFetcherBuilder" where
  "max_connections limit b = b\<lparr>pb_max_connections := Some limit\<rparr>"

definition max_connections_per_remote :: "nat \<Rightarrow> ParallelFetcherBuilder \<Rightarrow> ParallelFetcherBuilder" where
  "max_connections_per_remote limit b = b\<lparr>pb_max_connections_per_remote := Some limit\<rparr>"

definition build :: "ParallelFetcherBuilder \<Rightarrow> ParallelFetcher" where
  "build b =
     \<lparr>pf_max_connections = (case pb_max_connections b of Some n \<Rightarrow> n | None \<Rightarrow> DEFAULT_MAX_CONNECTIONS),
      pf_max_connections_per_remote =
        (case pb_max_connections_per_remote b of Some n \<Rightarrow> n | None \<Rightarrow> DEFAULT_MAX_CONNECTIONS_PER_REMOTE)\<rparr>"

definition fetcher_new :: ParallelFetcher where
  "fetcher_new = build builder"

section \<open>Tasks\<close>

text \<open>
  \<open>kind\<close> is how a remote is handled: with one request, or with one per node after listing the nodes; both say
  how the response of the remote is made. \<open>call\<close> is \<^verbatim>\<open>fetch_node\<close>; \<open>None\<close> stands for a panic of the function.
\<close>

type_synonym 't node_func = "Remote \<Rightarrow> str \<Rightarrow> ((str + 't) \<times> nat) option"

datatype ('t, 'p) kind = One "'t NodeResponse \<Rightarrow> 'p" | Many "str + str list" "'t MultipleNodesResponse \<Rightarrow> 'p"

record ('t, 'p) plan =
  pl_func :: "'t node_func"
  pl_kind :: "Remote \<Rightarrow> ('t, 'p) kind"

definition call :: "'t node_func \<Rightarrow> Remote \<Rightarrow> str \<Rightarrow> 't NodeResponse option" where
  "call func remote node =
     map_option (\<lambda>(result, elapsed). \<lparr>nr_node_name = node, nr_data = result, nr_api_response_time = elapsed\<rparr>)
       (func remote node)"

text \<open>
  The state of a task. \<open>Queued\<close> waits for its first permit, \<open>Listing\<close> and \<open>Single\<close> hold it while they list the
  nodes or call the function. A cluster task has nodes left to start, perhaps a permit in hand for the
  next one, the free permits of its own semaphore, the nodes that are running and the responses so far.
\<close>

record 't cluster =
  cl_todo :: "str list"
  cl_permit :: bool
  cl_free :: nat
  cl_running :: "str list"
  cl_responses :: "'t NodeResponse list"

datatype 't job = Queued | Listing | Single | Cluster "'t cluster" | Ended

datatype action = Acquire | Listed | TakePermit | SpawnNode | NodeDone str | Complete

definition respond :: "Remote \<Rightarrow> 'p \<Rightarrow> 'p RemoteResponse" where
  "respond r p = \<lparr>rr_remote_name = remote_id r, rr_remote_type = remote_ty r, rr_response = p\<rparr>"

definition node_done :: "'t node_func \<Rightarrow> Remote \<Rightarrow> str \<Rightarrow> 't cluster \<Rightarrow> 't cluster" where
  "node_done func r n c =
     c\<lparr>cl_running := remove1 n (cl_running c), cl_free := cl_free c + 1,
       cl_responses := cl_responses c @ (case call func r n of None \<Rightarrow> [] | Some x \<Rightarrow> [x])\<rparr>"

text \<open>One action of the task of remote \<open>r\<close>: the free permits afterwards, the new state of the task, the responses it returns.\<close>

fun job_step ::
  "nat \<Rightarrow> ('t, 'p) plan \<Rightarrow> Remote \<Rightarrow> action \<Rightarrow> nat \<Rightarrow> 't job \<Rightarrow> (nat \<times> 't job \<times> 'p RemoteResponse list) option" where
  "job_step per plan r Acquire free Queued =
     (if free = 0 then None
      else Some (free - 1, (case pl_kind plan r of One _ \<Rightarrow> Single | Many _ _ \<Rightarrow> Listing), []))"
| "job_step per plan r Listed free Listing =
     (case pl_kind plan r of
        One _ \<Rightarrow> None
      | Many (Inl err) wrap \<Rightarrow> Some (free + 1, Ended, [respond r (wrap (Inl err))])
      | Many (Inr nodes) wrap \<Rightarrow>
          Some (free, Cluster \<lparr>cl_todo = nodes, cl_permit = True, cl_free = per, cl_running = [], cl_responses = []\<rparr>, []))"
| "job_step per plan r TakePermit free (Cluster c) =
     (if cl_todo c \<noteq> [] \<and> \<not> cl_permit c \<and> free \<noteq> 0 then Some (free - 1, Cluster (c\<lparr>cl_permit := True\<rparr>), []) else None)"
| "job_step per plan r SpawnNode free (Cluster c) =
     (case cl_todo c of
        [] \<Rightarrow> None
      | n # ns \<Rightarrow>
          if cl_permit c \<and> cl_free c \<noteq> 0
          then Some (free,
                 Cluster (c\<lparr>cl_todo := ns, cl_permit := False, cl_free := cl_free c - 1, cl_running := cl_running c @ [n]\<rparr>), [])
          else None)"
| "job_step per plan r (NodeDone n) free (Cluster c) =
     (if n \<in> set (cl_running c) then Some (free + 1, Cluster (node_done (pl_func plan) r n c), []) else None)"
| "job_step per plan r Complete free (Cluster c) =
     (case pl_kind plan r of
        One _ \<Rightarrow> None
      | Many _ wrap \<Rightarrow>
          if cl_todo c = [] \<and> cl_running c = []
          then Some (free + (if cl_permit c then 1 else 0), Ended, [respond r (wrap (Inr (cl_responses c)))])
          else None)"
| "job_step per plan r Complete free Single =
     (case pl_kind plan r of
        Many _ _ \<Rightarrow> None
      | One wrap \<Rightarrow>
          Some (free + 1, Ended,
            (case call (pl_func plan) r ''localhost'' of None \<Rightarrow> [] | Some x \<Rightarrow> [respond r (wrap x)])))"
| "job_step per plan r _ free _ = None"

section \<open>The fetcher\<close>

record ('t, 'p) fetch =
  ft_total :: nat
  ft_jobs :: "'t job list"
  ft_responses :: "'p RemoteResponse list"

definition fetch_start :: "ParallelFetcher \<Rightarrow> Remote list \<Rightarrow> ('t, 'p) fetch" where
  "fetch_start f remotes =
     \<lparr>ft_total = pf_max_connections f, ft_jobs = map (\<lambda>_. Queued) remotes, ft_responses = []\<rparr>"

definition fetch_step ::
  "ParallelFetcher \<Rightarrow> ('t, 'p) plan \<Rightarrow> Remote list \<Rightarrow> nat \<times> action \<Rightarrow> ('t, 'p) fetch \<Rightarrow> ('t, 'p) fetch option" where
  "fetch_step f plan remotes ia s =
     (case ia of (i, a) \<Rightarrow>
        if i < length remotes
        then map_option
               (\<lambda>(free, j, rs). \<lparr>ft_total = free, ft_jobs = (ft_jobs s)[i := j], ft_responses = ft_responses s @ rs\<rparr>)
               (job_step (pf_max_connections_per_remote f) plan (remotes ! i) a (ft_total s) (ft_jobs s ! i))
        else None)"

fun fetch_run ::
  "ParallelFetcher \<Rightarrow> ('t, 'p) plan \<Rightarrow> Remote list \<Rightarrow> (nat \<times> action) list \<Rightarrow> ('t, 'p) fetch \<Rightarrow> ('t, 'p) fetch option" where
  "fetch_run f plan remotes [] s = Some s"
| "fetch_run f plan remotes (ia # ias) s = Option.bind (fetch_step f plan remotes ia s) (fetch_run f plan remotes ias)"

definition compare_remotes :: "'p RemoteResponse \<Rightarrow> 'p RemoteResponse \<Rightarrow> ordering" where
  "compare_remotes a b = cmp_of (rr_remote_name a) (rr_remote_name b)"

definition fetch_result :: "('t, 'p) fetch \<Rightarrow> 'p RemoteResponse list" where
  "fetch_result s = sort_by compare_remotes (ft_responses s)"

text \<open>The two entry points: a run that ends when every task has ended returns the sorted responses.\<close>

definition nodes_plan :: "(Remote \<Rightarrow> str + str list) \<Rightarrow> 't node_func \<Rightarrow> ('t, 't MultipleNodesResponse) plan" where
  "nodes_plan list_nodes func =
     \<lparr>pl_func = func,
      pl_kind = (\<lambda>r. case remote_ty r of Pve \<Rightarrow> Many (list_nodes r) (\<lambda>x. x) | Pbs \<Rightarrow> One (\<lambda>x. Inr [x]))\<rparr>"

definition remotes_plan :: "'t node_func \<Rightarrow> ('t, 't NodeResponse) plan" where
  "remotes_plan func = \<lparr>pl_func = func, pl_kind = (\<lambda>r. One (\<lambda>x. x))\<rparr>"

definition run_plan ::
  "ParallelFetcher \<Rightarrow> ('t, 'p) plan \<Rightarrow> Remote list \<Rightarrow> (nat \<times> action) list \<Rightarrow> 'p RemoteResponse list option" where
  "run_plan f plan remotes schedule =
     (case fetch_run f plan remotes schedule (fetch_start f remotes) of
        Some s \<Rightarrow> if list_all (\<lambda>j. j = Ended) (ft_jobs s) then Some (fetch_result s) else None
      | None \<Rightarrow> None)"

definition do_for_all_remote_nodes ::
  "ParallelFetcher \<Rightarrow> (Remote \<Rightarrow> str + str list) \<Rightarrow> 't node_func \<Rightarrow> Remote list \<Rightarrow> (nat \<times> action) list \<Rightarrow>
     't MultipleNodesResponse RemoteResponse list option" where
  "do_for_all_remote_nodes f list_nodes func remotes = run_plan f (nodes_plan list_nodes func) remotes"

definition do_for_all_remotes ::
  "ParallelFetcher \<Rightarrow> 't node_func \<Rightarrow> Remote list \<Rightarrow> (nat \<times> action) list \<Rightarrow> 't NodeResponse RemoteResponse list option" where
  "do_for_all_remotes f func remotes = run_plan f (remotes_plan func) remotes"

section \<open>Searching\<close>

lemma binary_search_from_eq:
  "sz \<le> 1 \<Longrightarrow> binary_search_from cmp xs base sz = base"
  "\<not> sz \<le> 1 \<Longrightarrow> binary_search_from cmp xs base sz =
     binary_search_from cmp xs (if cmp (xs ! (base + sz div 2)) = Greater then base else base + sz div 2) (sz - sz div 2)"
  by (subst binary_search_from.simps, simp add: Let_def)+

lemma binary_search_from_bounds:
  "0 < sz \<Longrightarrow> base \<le> binary_search_from cmp xs base sz \<and> binary_search_from cmp xs base sz < base + sz"
proof (induction sz arbitrary: base rule: less_induct)
  case (less sz)
  show ?case
  proof (cases "sz \<le> 1")
    case True
    with less.prems show ?thesis by (simp add: binary_search_from_eq(1))
  next
    case False
    then have "0 < sz - sz div 2" "sz - sz div 2 < sz" by auto
    from less.IH [OF this(2,1), of base] less.IH [OF this(2,1), of "base + sz div 2"] False
    show ?thesis unfolding binary_search_from_eq(2) [OF False] by (auto split: if_splits intro: order.strict_trans2)
  qed
qed

text \<open>On a sorted list the search finds a position where the comparison is equal if there is one in the range.\<close>

lemma binary_search_from_finds:
  assumes sorted: "sorted (map key xs)"
  shows "base \<le> k \<Longrightarrow> k < base + sz \<Longrightarrow> base + sz \<le> length xs \<Longrightarrow> key (xs ! k) = x \<Longrightarrow>
    key (xs ! binary_search_from (\<lambda>y. cmp_of (key y) x) xs base sz) = x"
proof (induction sz arbitrary: base k rule: less_induct)
  case (less sz)
  let ?cmp = "\<lambda>y. cmp_of (key y) x" and ?mid = "base + sz div 2"
  show ?case
  proof (cases "sz \<le> 1")
    case True
    with less.prems have "k = base" by simp
    with True less.prems show ?thesis by (simp add: binary_search_from_eq(1))
  next
    case False
    have mono: "key (xs ! i) \<le> key (xs ! j)" if "i \<le> j" "j < base + sz" for i j
      using sorted_nth_mono [OF sorted, of i j] that less.prems(3) by simp
    have eq: "binary_search_from ?cmp xs base sz =
        binary_search_from ?cmp xs (if x < key (xs ! ?mid) then base else ?mid) (sz - sz div 2)"
      unfolding binary_search_from_eq(2) [OF False] by simp
    show ?thesis
    proof (cases "x < key (xs ! ?mid)")
      case True
      then have "k < ?mid" using mono [of ?mid k] less.prems by (meson leD linorder_le_less_linear)
      then have "key (xs ! binary_search_from ?cmp xs base (sz - sz div 2)) = x"
        by (intro less.IH [of "sz - sz div 2" base k]) (use False less.prems in auto)
      then show ?thesis unfolding eq using True by simp
    next
      case le: False
      define k' where "k' = (if k < ?mid then ?mid else k)"
      have "key (xs ! k') = x"
        using mono [of k ?mid] less.prems le False by (auto simp: k'_def)
      then have "key (xs ! binary_search_from ?cmp xs ?mid (sz - sz div 2)) = x"
        by (intro less.IH [of "sz - sz div 2" ?mid k']) (use False less.prems in \<open>auto simp: k'_def\<close>)
      then show ?thesis unfolding eq using le by simp
    qed
  qed
qed

lemma binary_search_by_key:
  assumes "sorted (map key xs)"
  shows "case binary_search_by (\<lambda>y. cmp_of (key y) x) xs of
           Some i \<Rightarrow> i < length xs \<and> key (xs ! i) = x | None \<Rightarrow> x \<notin> key ` set xs"
proof (cases "xs = []")
  case False
  let ?i = "binary_search_from (\<lambda>y. cmp_of (key y) x) xs 0 (length xs)"
  have "?i < length xs" using binary_search_from_bounds [of "length xs" 0] False by simp
  moreover have "key (xs ! ?i) = x" if "x \<in> key ` set xs"
    using that binary_search_from_finds [OF assms, of 0 _ "length xs" x] by (auto simp: in_set_conv_nth)
  ultimately show ?thesis using False by (auto simp: binary_search_by_def Let_def)
qed (simp add: binary_search_by_def)

section \<open>Permits\<close>

text \<open>The permits of the shared semaphore that a task holds, its open requests, and a bound on the actions left to it.\<close>

fun held :: "'t job \<Rightarrow> nat" where
  "held Queued = 0" | "held Listing = 1" | "held Single = 1" | "held Ended = 0"
| "held (Cluster c) = (if cl_permit c then 1 else 0) + length (cl_running c)"

fun requests :: "'t job \<Rightarrow> nat" where
  "requests Queued = 0" | "requests Listing = 1" | "requests Single = 1" | "requests Ended = 0"
| "requests (Cluster c) = length (cl_running c)"

definition node_count :: "('t, 'p) plan \<Rightarrow> Remote \<Rightarrow> nat" where
  "node_count plan r = (case pl_kind plan r of Many (Inr nodes) _ \<Rightarrow> length nodes | _ \<Rightarrow> 0)"

fun weight :: "('t, 'p) plan \<Rightarrow> Remote \<Rightarrow> 't job \<Rightarrow> nat" where
  "weight plan r Queued = 3 * node_count plan r + 4"
| "weight plan r Listing = 3 * node_count plan r + 3"
| "weight plan r Single = 1"
| "weight plan r Ended = 0"
| "weight plan r (Cluster c) = 3 * length (cl_todo c) + length (cl_running c) + 2 - (if cl_permit c then 1 else 0)"

text \<open>What a task is doing fits its remote, and each node is to be started, running or answered.\<close>

fun job_ok :: "nat \<Rightarrow> ('t, 'p) plan \<Rightarrow> Remote \<Rightarrow> 't job \<Rightarrow> bool" where
  "job_ok per plan r Listing = (case pl_kind plan r of Many _ _ \<Rightarrow> True | One _ \<Rightarrow> False)"
| "job_ok per plan r Single = (case pl_kind plan r of One _ \<Rightarrow> True | Many _ _ \<Rightarrow> False)"
| "job_ok per plan r (Cluster c) =
     (case pl_kind plan r of
        Many (Inr nodes) _ \<Rightarrow>
          cl_free c + length (cl_running c) = per \<and>
          mset (cl_responses c) + mset (List.map_filter (call (pl_func plan) r) (cl_running c @ cl_todo c)) =
            mset (List.map_filter (call (pl_func plan) r) nodes)
      | _ \<Rightarrow> False)"
| "job_ok per plan r _ = True"

text \<open>The responses that the task of a remote may return.\<close>

definition answers :: "('t, 'p) plan \<Rightarrow> Remote \<Rightarrow> bool" where
  "answers plan r =
     (case pl_kind plan r of One _ \<Rightarrow> call (pl_func plan) r ''localhost'' \<noteq> None | Many _ _ \<Rightarrow> True)"

definition response_ok :: "('t, 'p) plan \<Rightarrow> Remote \<Rightarrow> 'p \<Rightarrow> bool" where
  "response_ok plan r p =
     (case pl_kind plan r of
        One wrap \<Rightarrow> (\<exists>x. call (pl_func plan) r ''localhost'' = Some x \<and> p = wrap x)
      | Many (Inl err) wrap \<Rightarrow> p = wrap (Inl err)
      | Many (Inr nodes) wrap \<Rightarrow> (\<exists>xs. p = wrap (Inr xs) \<and> mset xs = mset (List.map_filter (call (pl_func plan) r) nodes)))"

definition returned :: "('t, 'p) plan \<Rightarrow> Remote \<Rightarrow> 't job \<Rightarrow> 'p RemoteResponse list \<Rightarrow> bool" where
  "returned plan r j rs =
     (if j = Ended \<and> answers plan r then \<exists>p. rs = [respond r p] \<and> response_ok plan r p else rs = [])"

lemma map_filter_Cons: "List.map_filter f (x # xs) = (case f x of None \<Rightarrow> List.map_filter f xs | Some y \<Rightarrow> y # List.map_filter f xs)"
  by (simp add: map_filter_def split: option.split)

lemma map_filter_append: "List.map_filter f (xs @ ys) = List.map_filter f xs @ List.map_filter f ys"
  by (simp add: map_filter_def)

lemma mset_map_filter_remove1:
  "n \<in> set xs \<Longrightarrow> mset (List.map_filter f xs) =
     mset (case f n of None \<Rightarrow> [] | Some y \<Rightarrow> [y]) + mset (List.map_filter f (remove1 n xs))"
  by (induction xs) (auto simp: map_filter_Cons split: option.split)

lemma Suc_length_remove1: "n \<in> set xs \<Longrightarrow> Suc (length (remove1 n xs)) = length xs"
  by (induction xs) auto

lemma length_remove1_less: "n \<in> set xs \<Longrightarrow> length (remove1 n xs) < length xs"
  using Suc_length_remove1 by fastforce

lemma job_step_held:
  "job_step per plan r a n j = Some (n', j', rs) \<Longrightarrow> n' + held j' = n + held j"
  by (cases a; cases j) (auto simp: node_done_def Suc_length_remove1 split: if_splits kind.splits sum.splits list.splits)

lemma job_step_weight:
  "job_step per plan r a n j = Some (n', j', rs) \<Longrightarrow> weight plan r j' < weight plan r j"
  by (cases a; cases j) (auto simp: node_done_def length_remove1_less node_count_def split: if_splits kind.splits sum.splits list.splits)

lemma job_step_keeps_ok:
  "job_step per plan r a n j = Some (n', j', rs) \<Longrightarrow> job_ok per plan r j \<Longrightarrow> job_ok per plan r j'"
  by (cases a; cases j)
    (auto simp: node_done_def Suc_length_remove1 map_filter_append map_filter_Cons mset_map_filter_remove1
      split: if_splits kind.splits sum.splits list.splits option.splits)

lemma job_step_returned:
  "job_step per plan r a n j = Some (n', j', rs) \<Longrightarrow> job_ok per plan r j \<Longrightarrow> returned plan r j' rs \<and> j \<noteq> Ended"
  by (cases a; cases j)
    (auto simp: returned_def answers_def response_ok_def node_done_def
      split: if_splits kind.splits sum.splits list.splits option.splits)

section \<open>Runs\<close>

text \<open>The whole fetcher: no permit is lost or made up, and every remote that answers has answered exactly when its task has ended.\<close>

definition fetch_ok :: "ParallelFetcher \<Rightarrow> ('t, 'p) plan \<Rightarrow> Remote list \<Rightarrow> ('t, 'p) fetch \<Rightarrow> bool" where
  "fetch_ok f plan remotes s \<longleftrightarrow>
     length (ft_jobs s) = length remotes \<and>
     list_all2 (job_ok (pf_max_connections_per_remote f) plan) remotes (ft_jobs s) \<and>
     ft_total s + sum_list (map held (ft_jobs s)) = pf_max_connections f \<and>
     (\<exists>rss. list_all2 (\<lambda>(r, j). returned plan r j) (zip remotes (ft_jobs s)) rss \<and> mset (ft_responses s) = mset (concat rss))"

definition fetch_weight :: "('t, 'p) plan \<Rightarrow> Remote list \<Rightarrow> ('t, 'p) fetch \<Rightarrow> nat" where
  "fetch_weight plan remotes s = sum_list (map2 (weight plan) remotes (ft_jobs s))"

lemma sum_list_update_nat:
  fixes xs :: "nat list"
  shows "i < length xs \<Longrightarrow> sum_list (xs[i := x]) + xs ! i = sum_list xs + x"
  using elem_le_sum_list [of i xs] by (simp add: sum_list_update)

lemma mset_concat_update:
  "i < length xss \<Longrightarrow> xss ! i = [] \<Longrightarrow> mset (concat (xss[i := ys])) = mset (concat xss) + mset ys"
  by (induction xss arbitrary: i) (auto split: nat.split)

lemma fetch_step_SomeE:
  assumes "fetch_step f plan remotes (i, a) s = Some s'"
  obtains free j rs where "i < length remotes"
    "job_step (pf_max_connections_per_remote f) plan (remotes ! i) a (ft_total s) (ft_jobs s ! i) = Some (free, j, rs)"
    "s' = \<lparr>ft_total = free, ft_jobs = (ft_jobs s)[i := j], ft_responses = ft_responses s @ rs\<rparr>"
  using assms by (auto simp: fetch_step_def split: if_splits)

lemma fetch_step_ok:
  assumes step: "fetch_step f plan remotes (i, a) s = Some s'" and ok: "fetch_ok f plan remotes s"
  shows "fetch_ok f plan remotes s'" and "fetch_weight plan remotes s' < fetch_weight plan remotes s"
proof -
  obtain free j rs where i: "i < length remotes"
    and js: "job_step (pf_max_connections_per_remote f) plan (remotes ! i) a (ft_total s) (ft_jobs s ! i) = Some (free, j, rs)"
    and s': "s' = \<lparr>ft_total = free, ft_jobs = (ft_jobs s)[i := j], ft_responses = ft_responses s @ rs\<rparr>"
    using step by (rule fetch_step_SomeE)
  from ok have len: "length (ft_jobs s) = length remotes"
    and jobs: "list_all2 (job_ok (pf_max_connections_per_remote f) plan) remotes (ft_jobs s)"
    and permits: "ft_total s + sum_list (map held (ft_jobs s)) = pf_max_connections f"
    by (simp_all add: fetch_ok_def)
  from ok obtain rss where rss: "list_all2 (\<lambda>(r, j). returned plan r j) (zip remotes (ft_jobs s)) rss"
    "mset (ft_responses s) = mset (concat rss)" by (auto simp: fetch_ok_def)
  have job: "job_ok (pf_max_connections_per_remote f) plan (remotes ! i) (ft_jobs s ! i)"
    using jobs i by (simp add: list_all2_nthD)
  note returned = job_step_returned [OF js job]
  have len_rss: "length rss = length remotes" using rss(1) len by (simp add: list_all2_lengthD [symmetric])
  have "returned plan (remotes ! i) (ft_jobs s ! i) (rss ! i)"
    using list_all2_nthD2 [OF rss(1), of i] i len len_rss by simp
  with returned have empty: "rss ! i = []" by (simp add: returned_def)
  have "list_all2 (job_ok (pf_max_connections_per_remote f) plan) remotes ((ft_jobs s)[i := j])"
    using jobs job_step_keeps_ok [OF js job] i len by (auto simp: list_all2_conv_all_nth nth_list_update)
  moreover have "free + sum_list (map held ((ft_jobs s)[i := j])) = pf_max_connections f"
    using permits job_step_held [OF js] sum_list_update_nat [of i "map held (ft_jobs s)" "held j"] i len
    by (simp add: map_update)
  moreover have "list_all2 (\<lambda>(r, j). returned plan r j) (zip remotes ((ft_jobs s)[i := j])) (rss[i := rs])"
    using rss(1) returned i len len_rss by (auto simp: list_all2_conv_all_nth nth_list_update)
  moreover have "mset (ft_responses s @ rs) = mset (concat (rss[i := rs]))"
    using mset_concat_update [OF _ empty, of rs] rss(2) i len_rss by simp
  ultimately show "fetch_ok f plan remotes s'" using len by (auto simp: fetch_ok_def s')
  have "map2 (weight plan) remotes ((ft_jobs s)[i := j]) = (map2 (weight plan) remotes (ft_jobs s))[i := weight plan (remotes ! i) j]"
    using i len by (intro nth_equalityI) (auto simp: nth_list_update)
  then show "fetch_weight plan remotes s' < fetch_weight plan remotes s"
    using job_step_weight [OF js] sum_list_update_nat [of i "map2 (weight plan) remotes (ft_jobs s)" "weight plan (remotes ! i) j"] i len
    by (simp add: fetch_weight_def s')
qed

lemma fetch_start_ok: "fetch_ok f plan remotes (fetch_start f remotes)"
proof -
  have "returned plan r Queued []" for r by (simp add: returned_def)
  then have "list_all2 (\<lambda>(r, j). returned plan r j) (zip remotes (map (\<lambda>_. Queued) remotes)) (map (\<lambda>_. []) remotes)"
    by (auto simp: list_all2_conv_all_nth)
  moreover have "concat (map (\<lambda>_. []) remotes) = []" by simp
  ultimately show ?thesis
    by (auto simp: fetch_ok_def fetch_start_def list_all2_conv_all_nth comp_def intro!: exI [of _ "map (\<lambda>_. []) remotes"])
qed

lemma fetch_run_ok:
  "fetch_ok f plan remotes s \<Longrightarrow> fetch_run f plan remotes as s = Some s' \<Longrightarrow>
     fetch_ok f plan remotes s' \<and> length as + fetch_weight plan remotes s' \<le> fetch_weight plan remotes s"
proof (induction as arbitrary: s)
  case (Cons ia as)
  obtain i a where ia: "ia = (i, a)" by (cases ia)
  with Cons.prems obtain s1 where "fetch_step f plan remotes (i, a) s = Some s1" "fetch_run f plan remotes as s1 = Some s'"
    by (auto simp: bind_eq_Some_conv)
  with fetch_step_ok [OF this(1) Cons.prems(1)] Cons.IH [of s1] show ?case by simp
qed simp

lemma cluster_progress:
  assumes "job_ok per plan r (Cluster c)" "0 < per" "held (Cluster c) = 0 \<Longrightarrow> 0 < n"
  shows "\<exists>a. job_step per plan r a n (Cluster c) \<noteq> None"
proof -
  from assms(1) obtain nodes wrap where k: "pl_kind plan r = Many (Inr nodes) wrap" "cl_free c + length (cl_running c) = per"
    by (auto split: kind.splits sum.splits)
  consider m where "m \<in> set (cl_running c)" | "cl_running c = []" "cl_todo c = []"
    | "cl_running c = []" "cl_todo c \<noteq> []" "cl_permit c" | "cl_running c = []" "cl_todo c \<noteq> []" "\<not> cl_permit c"
    by (cases "cl_running c") auto
  then show ?thesis
  proof cases
    case 1
    then show ?thesis by (intro exI [of _ "NodeDone m"]) simp
  next
    case 2
    with k show ?thesis by (intro exI [of _ Complete]) simp
  next
    case 3
    with k assms(2) show ?thesis by (intro exI [of _ SpawnNode]) (auto split: list.split)
  next
    case 4
    with assms(3) show ?thesis by (intro exI [of _ TakePermit]) simp
  qed
qed

lemma job_progress:
  assumes "job_ok per plan r j" "j \<noteq> Ended" "0 < per" "held j = 0 \<Longrightarrow> 0 < n"
  shows "\<exists>a. job_step per plan r a n j \<noteq> None"
proof (cases j)
  case Queued
  with assms(4) show ?thesis by (intro exI [of _ Acquire]) simp
next
  case Listing
  with assms(1) show ?thesis by (intro exI [of _ Listed]) (auto split: kind.split sum.split)
next
  case Single
  with assms(1) show ?thesis by (intro exI [of _ Complete]) (auto split: kind.split)
next
  case (Cluster c)
  with assms cluster_progress [of per plan r c n] show ?thesis by simp
qed (use assms in simp)

lemma fetch_progress:
  assumes ok: "fetch_ok f plan remotes s" and pos: "0 < pf_max_connections f" "0 < pf_max_connections_per_remote f"
    and unfinished: "\<not> list_all (\<lambda>j. j = Ended) (ft_jobs s)"
  shows "\<exists>ia. fetch_step f plan remotes ia s \<noteq> None"
proof -
  from ok have len: "length (ft_jobs s) = length remotes" by (simp add: fetch_ok_def)
  have "\<exists>i < length remotes. ft_jobs s ! i \<noteq> Ended \<and> (held (ft_jobs s ! i) = 0 \<longrightarrow> 0 < ft_total s)"
  proof (cases "\<exists>i < length remotes. held (ft_jobs s ! i) \<noteq> 0")
    case True
    then obtain i where "i < length remotes" "held (ft_jobs s ! i) \<noteq> 0" by blast
    then show ?thesis by (intro exI [of _ i]) auto
  next
    case False
    have "held j = 0" if "j \<in> set (ft_jobs s)" for j using that False len by (metis in_set_conv_nth)
    then have "sum_list (map held (ft_jobs s)) = 0" by simp
    moreover have "ft_total s + sum_list (map held (ft_jobs s)) = pf_max_connections f" using ok by (simp only: fetch_ok_def)
    ultimately have "0 < ft_total s" using pos(1) by linarith
    moreover obtain i where "i < length remotes" "ft_jobs s ! i \<noteq> Ended"
      using unfinished unfolding list_all_length len by blast
    ultimately show ?thesis by blast
  qed
  then obtain i where
    "i < length remotes \<and> ft_jobs s ! i \<noteq> Ended \<and> (held (ft_jobs s ! i) = 0 \<longrightarrow> 0 < ft_total s)" ..
  then have i: "i < length remotes" "ft_jobs s ! i \<noteq> Ended" "held (ft_jobs s ! i) = 0 \<longrightarrow> 0 < ft_total s" by simp_all
  have "job_ok (pf_max_connections_per_remote f) plan (remotes ! i) (ft_jobs s ! i)"
    using ok i by (simp add: fetch_ok_def list_all2_nthD)
  then have "\<exists>a. job_step (pf_max_connections_per_remote f) plan (remotes ! i) a (ft_total s) (ft_jobs s ! i) \<noteq> None"
    by (rule job_progress) (use i pos in simp_all)
  then obtain a where "job_step (pf_max_connections_per_remote f) plan (remotes ! i) a (ft_total s) (ft_jobs s ! i) \<noteq> None" ..
  with i(1) have "fetch_step f plan remotes (i, a) s \<noteq> None" by (simp add: fetch_step_def)
  then show ?thesis ..
qed

interpretation remote_order: keyed_order compare_remotes rr_remote_name
  by unfold_locales (simp add: compare_remotes_def)

text \<open>When all tasks have ended, the responses are those of the remotes that answer.\<close>

lemma ended_responses:
  assumes "fetch_ok f plan remotes s" "list_all (\<lambda>j. j = Ended) (ft_jobs s)"
  shows "x \<in> set (ft_responses s) \<longleftrightarrow>
    (\<exists>r \<in> set remotes. \<exists>p. x = respond r p \<and> x \<in> set (ft_responses s) \<and> answers plan r \<and> response_ok plan r p)"
    and "mset (map rr_remote_name (ft_responses s)) = mset (map remote_id (filter (answers plan) remotes))"
    and "r \<in> set remotes \<Longrightarrow> answers plan r \<Longrightarrow> \<exists>p. respond r p \<in> set (ft_responses s) \<and> response_ok plan r p"
proof -
  from assms(1) obtain rss where len: "length (ft_jobs s) = length remotes"
    and rss: "list_all2 (\<lambda>(r, j). returned plan r j) (zip remotes (ft_jobs s)) rss" "mset (ft_responses s) = mset (concat rss)"
    by (auto simp: fetch_ok_def)
  have "list_all2 (\<lambda>r rs. returned plan r Ended rs) remotes rss"
    using rss(1) assms(2) len by (auto simp: list_all2_conv_all_nth list_all_length)
  then have all: "list_all2 (\<lambda>r rs. if answers plan r then \<exists>p. rs = [respond r p] \<and> response_ok plan r p else rs = []) remotes rss"
    by (simp add: returned_def)
  have eq: "set (ft_responses s) = set (concat rss)" by (metis rss(2) set_mset_mset)
  from all have "\<exists>r \<in> set remotes. \<exists>p. x = respond r p \<and> answers plan r \<and> response_ok plan r p" if "x \<in> set (concat rss)" for x
    using that by (induction rule: list_all2_induct) (auto split: if_splits)
  with eq show "x \<in> set (ft_responses s) \<longleftrightarrow>
    (\<exists>r \<in> set remotes. \<exists>p. x = respond r p \<and> x \<in> set (ft_responses s) \<and> answers plan r \<and> response_ok plan r p)" by blast
  show "\<exists>p. respond r p \<in> set (ft_responses s) \<and> response_ok plan r p" if "r \<in> set remotes" "answers plan r"
  proof -
    from that(1) obtain i where i: "i < length remotes" "remotes ! i = r" by (auto simp: in_set_conv_nth)
    with list_all2_nthD [OF all, of i] that(2) obtain p where p: "rss ! i = [respond r p]" "response_ok plan r p" by auto
    from i list_all2_lengthD [OF all] have "rss ! i \<in> set rss" by simp
    with p(1) have "respond r p \<in> set (concat rss)" by (metis UN_I list.set_intros(1) set_concat)
    with p(2) eq show ?thesis by auto
  qed
  from all have "map rr_remote_name (concat rss) = map remote_id (filter (answers plan) remotes)"
    by (induction rule: list_all2_induct) (auto simp: respond_def split: if_splits)
  then show "mset (map rr_remote_name (ft_responses s)) = mset (map remote_id (filter (answers plan) remotes))"
    by (metis mset_map rss(2))
qed

lemma run_plan_responses:
  assumes "run_plan f plan remotes schedule = Some result"
  shows "x \<in> set result \<Longrightarrow> \<exists>r \<in> set remotes. \<exists>p. x = respond r p \<and> response_ok plan r p"
    and "r \<in> set remotes \<Longrightarrow> answers plan r \<Longrightarrow> \<exists>p. respond r p \<in> set result \<and> response_ok plan r p"
proof -
  from assms obtain s where run: "fetch_run f plan remotes schedule (fetch_start f remotes) = Some s"
    and ended: "list_all (\<lambda>j. j = Ended) (ft_jobs s)" and result: "result = fetch_result s"
    by (auto simp: run_plan_def split: option.splits if_splits)
  have ok: "fetch_ok f plan remotes s" using fetch_run_ok [OF fetch_start_ok run] by simp
  have set: "set result = set (ft_responses s)" by (simp add: result fetch_result_def)
  show "x \<in> set result \<Longrightarrow> \<exists>r \<in> set remotes. \<exists>p. x = respond r p \<and> response_ok plan r p"
    using ended_responses(1) [OF ok ended] set by blast
  show "r \<in> set remotes \<Longrightarrow> answers plan r \<Longrightarrow> \<exists>p. respond r p \<in> set result \<and> response_ok plan r p"
    using ended_responses(3) [OF ok ended] set by simp
qed

section \<open>Properties\<close>

text \<open>A cluster of two nodes and a backup server, with a single connection.\<close>

definition example_remotes :: "Remote list" where
  "example_remotes = [\<lparr>remote_ty = Pve, remote_id = ''pve''\<rparr>, \<lparr>remote_ty = Pbs, remote_id = ''backup''\<rparr>]"

definition example_plan :: "(nat, nat MultipleNodesResponse) plan" where
  "example_plan = nodes_plan (\<lambda>_. Inr [''n1'', ''n2'']) (\<lambda>r n. Some (Inr (length n), 1))"

definition one_connection :: ParallelFetcher where
  "one_connection = build (max_connections_per_remote 1 (max_connections 1 builder))"

definition example_schedule :: "(nat \<times> action) list" where
  "example_schedule =
     [(0, Acquire), (0, Listed), (0, SpawnNode), (0, NodeDone ''n1''), (1, Acquire), (1, Complete),
      (0, TakePermit), (0, SpawnNode), (0, NodeDone ''n2''), (0, Complete)]"

text \<open>
  C17. At every moment of every run at most \<^verbatim>\<open>max_connections\<close> requests are open, and at most
  \<^verbatim>\<open>max_connections_per_remote\<close> node requests to the same remote. No permit is lost: those that are free and
  those that are held always add up to the limit.
\<close>

theorem fetch_bounded:
  assumes "fetch_run f plan remotes schedule (fetch_start f remotes) = Some s"
  shows "sum_list (map requests (ft_jobs s)) \<le> pf_max_connections f \<and>
    ft_total s + sum_list (map held (ft_jobs s)) = pf_max_connections f \<and>
    (\<forall>c. Cluster c \<in> set (ft_jobs s) \<longrightarrow> length (cl_running c) \<le> pf_max_connections_per_remote f)"
proof -
  have ok: "fetch_ok f plan remotes s" using fetch_run_ok [OF fetch_start_ok assms] by simp
  have "requests j \<le> held j" for j :: "'a job" by (cases j) auto
  then have "sum_list (map requests (ft_jobs s)) \<le> sum_list (map held (ft_jobs s))" by (simp add: sum_list_mono)
  moreover have "length (cl_running c) \<le> pf_max_connections_per_remote f" if "Cluster c \<in> set (ft_jobs s)" for c
  proof -
    from ok have "list_all2 (job_ok (pf_max_connections_per_remote f) plan) remotes (ft_jobs s)" by (simp add: fetch_ok_def)
    with that obtain r where "job_ok (pf_max_connections_per_remote f) plan r (Cluster c)"
      by (metis in_set_conv_nth list_all2_conv_all_nth)
    then show ?thesis by (auto split: kind.splits sum.splits)
  qed
  ultimately show ?thesis using ok by (auto simp: fetch_ok_def)
qed

theorem fetch_bounded_witness:
  "\<exists>s. fetch_run one_connection example_plan example_remotes (take 3 example_schedule) (fetch_start one_connection example_remotes) = Some s \<and>
     sum_list (map requests (ft_jobs s)) = 1 \<and> sum_list (map requests (ft_jobs s)) \<le> pf_max_connections one_connection"
proof -
  let ?r = "fetch_run one_connection example_plan example_remotes (take 3 example_schedule) (fetch_start one_connection example_remotes)"
  have "map_option (\<lambda>s. sum_list (map requests (ft_jobs s))) ?r = Some 1" by code_simp
  then obtain s where s: "?r = Some s" "sum_list (map requests (ft_jobs s)) = 1" by auto
  with fetch_bounded [OF s(1)] show ?thesis by blast
qed

text \<open>
  C8. With positive limits the fetcher never blocks for ever: however the tasks are scheduled, a run
  has at most four actions for every remote and three for every node, and as long as a task has not ended some
  action is possible. So every run that goes on as long as it can ends with all tasks ended.
\<close>

theorem fetch_never_blocks:
  assumes "0 < pf_max_connections f" "0 < pf_max_connections_per_remote f"
    and "fetch_run f plan remotes schedule (fetch_start f remotes) = Some s"
  shows "length schedule \<le> sum_list (map (\<lambda>r. 3 * node_count plan r + 4) remotes) \<and>
    (list_all (\<lambda>j. j = Ended) (ft_jobs s) \<or> (\<exists>ia. fetch_step f plan remotes ia s \<noteq> None))"
proof -
  have "map2 (weight plan) remotes (map (\<lambda>_. Queued) remotes) = map (\<lambda>r. 3 * node_count plan r + 4) remotes"
    by (intro nth_equalityI) simp_all
  then have "fetch_weight plan remotes (fetch_start f remotes) = sum_list (map (\<lambda>r. 3 * node_count plan r + 4) remotes)"
    by (simp add: fetch_weight_def fetch_start_def)
  with fetch_run_ok [OF fetch_start_ok assms(3)] fetch_progress [OF _ assms(1,2)] show ?thesis by auto
qed

theorem fetch_never_blocks_witness:
  "\<exists>s. fetch_run one_connection example_plan example_remotes (take 4 example_schedule) (fetch_start one_connection example_remotes) = Some s \<and>
     \<not> list_all (\<lambda>j. j = Ended) (ft_jobs s) \<and> (\<exists>ia. fetch_step one_connection example_plan example_remotes ia s \<noteq> None)"
proof -
  let ?r = "fetch_run one_connection example_plan example_remotes (take 4 example_schedule) (fetch_start one_connection example_remotes)"
  have "map_option (\<lambda>s. list_all (\<lambda>j. case j of Ended \<Rightarrow> True | _ \<Rightarrow> False) (ft_jobs s)) ?r = Some False" by code_simp
  then obtain s where s: "?r = Some s" "\<not> list_all (\<lambda>j. case j of Ended \<Rightarrow> True | _ \<Rightarrow> False) (ft_jobs s)" by auto
  then have "\<not> list_all (\<lambda>j. j = Ended) (ft_jobs s)" by (auto simp: list_all_iff split: job.splits)
  moreover have "0 < pf_max_connections one_connection" "0 < pf_max_connections_per_remote one_connection" by code_simp+
  ultimately show ?thesis using fetch_never_blocks [OF _ _ s(1)] s(1) by blast
qed

text \<open>
  C18. What a finished run returns for a set of remotes with different names: the lookup of a remote by binary
  search finds its response. For a remote whose nodes were listed this is exactly one response for every
  node that did not panic, in whatever order they finished; for one whose listing failed it is the error.
  A remote without a response is one whose only request panicked.
\<close>

theorem fetch_complete:
  assumes "run_plan f plan remotes schedule = Some result" and "distinct (map remote_id remotes)" and "r \<in> set remotes"
  shows "sorted (map rr_remote_name result) \<and>
    (case get_remote_response result (remote_id r) of
       None \<Rightarrow> \<not> answers plan r
     | Some x \<Rightarrow> x \<in> set result \<and> rr_remote_name x = remote_id r \<and> rr_remote_type x = remote_ty r \<and> response_ok plan r (rr_response x))"
proof -
  from assms(1) obtain s where run: "fetch_run f plan remotes schedule (fetch_start f remotes) = Some s"
    and ended: "list_all (\<lambda>j. j = Ended) (ft_jobs s)" and result: "result = fetch_result s"
    by (auto simp: run_plan_def split: option.splits if_splits)
  have ok: "fetch_ok f plan remotes s" using fetch_run_ok [OF fetch_start_ok run] by simp
  note resp = ended_responses [OF ok ended]
  have set: "set result = set (ft_responses s)" by (simp add: result fetch_result_def)
  have sorted: "sorted (map rr_remote_name result)" by (simp add: result fetch_result_def remote_order.sorted_sort_by)
  have names: "rr_remote_name ` set result = remote_id ` set (filter (answers plan) remotes)"
    using arg_cong [OF resp(2), of set_mset] set by simp
  show ?thesis
  proof (cases "get_remote_response result (remote_id r)")
    case None
    then have "remote_id r \<notin> rr_remote_name ` set result"
      using binary_search_by_key [OF sorted, of "remote_id r"] by (auto simp: get_remote_response_def split: option.splits)
    with None sorted names assms(3) show ?thesis by auto
  next
    case (Some x)
    then have x: "x \<in> set result" "rr_remote_name x = remote_id r"
      using binary_search_by_key [OF sorted, of "remote_id r"] by (auto simp: get_remote_response_def split: option.splits)
    with set resp(1) obtain r' p where r': "r' \<in> set remotes" "x = respond r' p" "response_ok plan r' p" by blast
    with x(2) assms(2,3) have "r' = r" by (auto simp: respond_def distinct_map inj_on_def)
    with r' x Some sorted show ?thesis by (simp add: respond_def)
  qed
qed

theorem fetch_complete_witness:
  "\<exists>result. do_for_all_remote_nodes one_connection (\<lambda>_. Inr [''n1'', ''n2'']) (\<lambda>r n. Some (Inr (length n), 1))
       example_remotes example_schedule = Some result \<and>
     map rr_remote_name result = [''backup'', ''pve''] \<and> sorted (map rr_remote_name result) \<and>
     (\<exists>x. get_remote_response result ''pve'' = Some x \<and> response_ok example_plan (hd example_remotes) (rr_response x))"
proof -
  let ?r = "run_plan one_connection example_plan example_remotes example_schedule"
  have "map_option (\<lambda>result. (map rr_remote_name result, get_remote_response result ''pve'' = None)) ?r =
      Some ([''backup'', ''pve''], False)" by code_simp
  then obtain result where r: "?r = Some result" "map rr_remote_name result = [''backup'', ''pve'']"
    "get_remote_response result ''pve'' \<noteq> None" by auto
  have "sorted (map rr_remote_name result) \<and>
    (case get_remote_response result (remote_id (hd example_remotes)) of
       None \<Rightarrow> \<not> answers example_plan (hd example_remotes)
     | Some x \<Rightarrow> x \<in> set result \<and> rr_remote_name x = remote_id (hd example_remotes) \<and>
         rr_remote_type x = remote_ty (hd example_remotes) \<and> response_ok example_plan (hd example_remotes) (rr_response x))"
    using r(1) by (rule fetch_complete) (simp_all add: example_remotes_def)
  moreover have "do_for_all_remote_nodes one_connection (\<lambda>_. Inr [''n1'', ''n2'']) (\<lambda>r n. Some (Inr (length n), 1))
      example_remotes example_schedule = Some result"
    unfolding do_for_all_remote_nodes_def example_plan_def [symmetric] by (rule r(1))
  ultimately show ?thesis using r(2,3) by (auto simp: example_remotes_def intro!: exI [of _ result])
qed

end
