(* ===== verification/RefreshTask.thy ===== *)
theory RefreshTask
  imports TaskRotate ParallelFetcher
begin

text \<open>
  The background task that fills the remote task cache, from \<^verbatim>\<open>server/src/remote_tasks/refresh_task.rs\<close> and
  \<^verbatim>\<open>mod.rs\<close>: on every tick it rotates the archive and applies the journal when they are due, polls the
  tracked tasks, fetches new tasks from the remotes with the parallel fetcher and hands them to the cache.

  \<^item> \<open>tick_env\<close> is what the tick finds outside: the readings of the monotonic clock in the order in which the
    code takes them, the wall clock, the remote configuration, the answers of the remotes, the order in which
    the tasks of the fetcher proceed, the order in which a hash set is walked through, and which polling tasks
    panic, so that joining them ends the tick.
  \<^item> \<open>tk_meanwhile\<close> is what other holders of the cache lock do between the moment the tick reads the state file
    and the moment it takes the lock to update the cache.
  \<^item> The state is the file system of the cache and the timers. A cache that cannot be locked, or a failing call,
    ends the tick with an error. \<open>Pending\<close> says that the schedule leaves the fetch unfinished.
\<close>

section \<open>Timers\<close>

definition TASK_FETCH_INTERVAL :: int where
  "TASK_FETCH_INTERVAL = 600"

definition POLL_ACTIVE_INTERVAL :: int where
  "POLL_ACTIVE_INTERVAL = 30"

definition CHECK_ROTATE_INTERVAL :: int where
  "CHECK_ROTATE_INTERVAL = 3600"

definition APPLY_JOURNAL_INTERVAL :: int where
  "APPLY_JOURNAL_INTERVAL = 3600"

definition CONNECTIONS_PER_PVE_REMOTE :: nat where
  "CONNECTIONS_PER_PVE_REMOTE = 5"

definition MAX_CONNECTIONS :: nat where
  "MAX_CONNECTIONS = 20"

definition MAX_TASKS_TO_FETCH :: nat where
  "MAX_TASKS_TO_FETCH = 5000"

definition JOURNAL_MAX_SIZE :: nat where
  "JOURNAL_MAX_SIZE = 5 * 1024 * 1024"

definition ROTATE_AFTER :: int where
  "ROTATE_AFTER = 24 * 3600"

definition KEEP_OLD_FILES :: nat where
  "KEEP_OLD_FILES = 7"

definition NUMBER_OF_UNCOMPRESSED_FILES :: nat where
  "NUMBER_OF_UNCOMPRESSED_FILES = 2"

definition get_cache :: cache_cfg where
  "get_cache =
     \<lparr>max_files = KEEP_OLD_FILES, uncompressed_files = NUMBER_OF_UNCOMPRESSED_FILES,
      rotate_after = ROTATE_AFTER, journal_max_size = JOURNAL_MAX_SIZE\<rparr>"

record TaskState =
  last_rotate_check :: int
  last_fetch :: int
  last_journal_apply :: int
  last_active_poll :: int

definition reset_rotate_check :: "int \<Rightarrow> TaskState \<Rightarrow> TaskState" where
  "reset_rotate_check now ts = ts\<lparr>last_rotate_check := now\<rparr>"

definition reset_fetch :: "int \<Rightarrow> TaskState \<Rightarrow> TaskState" where
  "reset_fetch now ts = ts\<lparr>last_fetch := now\<rparr>"

definition reset_journal_apply :: "int \<Rightarrow> TaskState \<Rightarrow> TaskState" where
  "reset_journal_apply now ts = ts\<lparr>last_journal_apply := now\<rparr>"

definition reset_active_poll :: "int \<Rightarrow> TaskState \<Rightarrow> TaskState" where
  "reset_active_poll now ts = ts\<lparr>last_active_poll := now\<rparr>"

text \<open>\<^verbatim>\<open>Instant::duration_since\<close> saturates at zero.\<close>

definition duration_since :: "int \<Rightarrow> int \<Rightarrow> int" where
  "duration_since now earlier = max 0 (now - earlier)"

definition is_due_for_rotate_check :: "int \<Rightarrow> TaskState \<Rightarrow> bool" where
  "is_due_for_rotate_check now ts \<longleftrightarrow> CHECK_ROTATE_INTERVAL < duration_since now (last_rotate_check ts)"

definition is_due_for_fetch :: "int \<Rightarrow> TaskState \<Rightarrow> bool" where
  "is_due_for_fetch now ts \<longleftrightarrow> TASK_FETCH_INTERVAL < duration_since now (last_fetch ts)"

definition is_due_for_journal_apply :: "int \<Rightarrow> TaskState \<Rightarrow> bool" where
  "is_due_for_journal_apply now ts \<longleftrightarrow> APPLY_JOURNAL_INTERVAL < duration_since now (last_journal_apply ts)"

definition is_due_for_active_poll :: "int \<Rightarrow> TaskState \<Rightarrow> bool" where
  "is_due_for_active_poll now ts \<longleftrightarrow> POLL_ACTIVE_INTERVAL < duration_since now (last_active_poll ts)"

definition task_state_default :: "int \<Rightarrow> TaskState" where
  "task_state_default now =
     \<lparr>last_rotate_check = now - CHECK_ROTATE_INTERVAL, last_fetch = now - TASK_FETCH_INTERVAL,
      last_journal_apply = now - APPLY_JOURNAL_INTERVAL, last_active_poll = now - POLL_ACTIVE_INTERVAL\<rparr>"

definition align_timestamp :: "int \<Rightarrow> int \<Rightarrow> int" where
  "align_timestamp now interval = now - now mod interval"

section \<open>Fetching\<close>

text \<open>A task as the remotes list it.\<close>

record ListedTask =
  lt_upid :: str
  lt_starttime :: int
  lt_endtime :: "int option"
  lt_status :: "str option"

record 'j tick_env =
  tk_instant :: "nat \<Rightarrow> int"
  tk_epoch :: int
  tk_fetch_epoch :: "Remote \<Rightarrow> str \<Rightarrow> int"
  tk_config :: "str + (str, Remote) alist"
  tk_list_nodes :: "Remote \<Rightarrow> str + str list"
  tk_pve_tasks :: "Remote \<Rightarrow> str \<Rightarrow> int \<Rightarrow> nat \<Rightarrow> str + ListedTask list"
  tk_pbs_tasks :: "Remote \<Rightarrow> int \<Rightarrow> nat \<Rightarrow> str + ListedTask list"
  tk_status :: "str \<Rightarrow> remote_upid \<Rightarrow> str + str option"
  tk_response_time :: "Remote \<Rightarrow> str \<Rightarrow> nat"
  tk_schedule :: "Remote list \<Rightarrow> (nat \<times> action) list"
  tk_join_error :: "remote_upid \<Rightarrow> bool"
  tk_walk :: "remote_upid set \<Rightarrow> remote_upid list"
  tk_meanwhile :: "'j task_fs \<Rightarrow> 'j task_fs"

definition map_pve_task :: "ListedTask \<Rightarrow> str \<Rightarrow> task_item" where
  "map_pve_task task remote =
     \<lparr>ti_upid = remote_upid_new remote Pve (lt_upid task), ti_starttime = lt_starttime task,
      ti_status = (if lt_status task = Some ''RUNNING'' then None else lt_status task),
      ti_endtime = lt_endtime task\<rparr>"

definition map_pbs_task :: "ListedTask \<Rightarrow> str \<Rightarrow> task_item" where
  "map_pbs_task task remote =
     \<lparr>ti_upid = remote_upid_new remote Pbs (lt_upid task), ti_starttime = lt_starttime task,
      ti_status = lt_status task, ti_endtime = lt_endtime task\<rparr>"

definition fetch_since :: "'j tick_env \<Rightarrow> task_state \<Rightarrow> Remote \<Rightarrow> str \<Rightarrow> int" where
  "fetch_since tk st remote node =
     (case cutoff_timestamp st (remote_id remote) node of
        Some since \<Rightarrow> since
      | None \<Rightarrow> wrap64 (tk_fetch_epoch tk remote node - int KEEP_OLD_FILES * ROTATE_AFTER))"

definition fetch_tasks_from_single_node ::
  "'j tick_env \<Rightarrow> task_state \<Rightarrow> Remote \<Rightarrow> str \<Rightarrow> str + task_item list" where
  "fetch_tasks_from_single_node tk st remote node =
     (let since = fetch_since tk st remote node
      in case remote_ty remote of
           Pve \<Rightarrow>
             map_sum (\<lambda>e. e) (map (\<lambda>task. map_pve_task task (remote_id remote)))
               (tk_pve_tasks tk remote node since MAX_TASKS_TO_FETCH)
         | Pbs \<Rightarrow>
             map_sum (\<lambda>e. e) (map (\<lambda>task. map_pbs_task task (remote_id remote)))
               (tk_pbs_tasks tk remote since MAX_TASKS_TO_FETCH))"

definition collect_node ::
  "str \<Rightarrow> task_item list NodeResponse \<Rightarrow> task_item list \<times> node_success_map \<Rightarrow> task_item list \<times> node_success_map" where
  "collect_node remote response acc =
     (case (nr_data response, acc) of
        (Inr tasks, (all_tasks, ok)) \<Rightarrow> (all_tasks @ tasks, set_node_success remote (nr_node_name response) ok)
      | (Inl _, acc) \<Rightarrow> acc)"

definition collect_remote ::
  "task_item list MultipleNodesResponse RemoteResponse \<Rightarrow> task_item list \<times> node_success_map \<Rightarrow>
     task_item list \<times> node_success_map" where
  "collect_remote response acc =
     (case rr_response response of
        Inr node_responses \<Rightarrow> fold (collect_node (rr_remote_name response)) node_responses acc
      | Inl _ \<Rightarrow> acc)"

definition task_fetcher :: ParallelFetcher where
  "task_fetcher = build (max_connections_per_remote CONNECTIONS_PER_PVE_REMOTE (max_connections MAX_CONNECTIONS builder))"

definition fetch_remotes ::
  "'j tick_env \<Rightarrow> task_state \<Rightarrow> Remote list \<Rightarrow> (task_item list \<times> node_success_map) option" where
  "fetch_remotes tk st remotes =
     map_option (\<lambda>responses. fold collect_remote responses ([], Map.empty))
       (do_for_all_remote_nodes task_fetcher (tk_list_nodes tk)
          (\<lambda>remote node. Some (fetch_tasks_from_single_node tk st remote node, tk_response_time tk remote node))
          remotes (tk_schedule tk remotes))"

section \<open>Polling\<close>

datatype refresh_error = CacheError cache_error | ConfigUnreadable | Pending | JoinFailed

record 'j refresh =
  rf_fs :: "'j task_fs"
  rf_timers :: TaskState

type_synonym ('j, 'a) refresh_io = "(refresh_error, 'j refresh, 'a) io"

datatype PollResult = Running | TaskFinished | RequestError | RemoteGone

definition poll_single_tracked_task :: "'j tick_env \<Rightarrow> Remote \<Rightarrow> remote_upid \<Rightarrow> PollResult" where
  "poll_single_tracked_task tk remote task =
     (case tk_status tk (remote_id remote) task of
        Inl _ \<Rightarrow> RequestError
      | Inr exitstatus \<Rightarrow> if exitstatus \<noteq> None then TaskFinished else Running)"

definition poll_tracked_tasks ::
  "'j tick_env \<Rightarrow> (str, Remote) alist \<Rightarrow> remote_upid set \<Rightarrow> ('j, (remote_upid, PollResult) alist) refresh_io" where
  "poll_tracked_tasks tk config tasks =
     (if list_ex (tk_join_error tk) (tk_walk tk tasks) then io_fail JoinFailed
      else io_return
        (map (\<lambda>task.
                (task, case al_get config (ru_remote task) of
                         Some remote \<Rightarrow> poll_single_tracked_task tk remote task
                       | None \<Rightarrow> RemoteGone))
           (tk_walk tk tasks)))"

definition get_all_remotes :: "(str, Remote) alist \<Rightarrow> Remote list" where
  "get_all_remotes config = map snd config"

definition get_remotes_with_finished_tasks ::
  "(str, Remote) alist \<Rightarrow> (remote_upid, PollResult) alist \<Rightarrow> Remote list" where
  "get_remotes_with_finished_tasks config poll_results =
     (let finished = List.map_filter (\<lambda>(upid, status). if status = TaskFinished then Some (ru_remote upid) else None) poll_results
      in List.map_filter (\<lambda>(name, remote). if name \<in> set finished then Some remote else None) config)"

section \<open>The tick\<close>

definition on_cache :: "('j, 'a) cache_io \<Rightarrow> ('j, 'a) refresh_io" where
  "on_cache m s =
     (case m (rf_fs s) of
        (Inl e, fs) \<Rightarrow> (Inl (CacheError e), s\<lparr>rf_fs := fs\<rparr>)
      | (Inr x, fs) \<Rightarrow> (Inr x, s\<lparr>rf_fs := fs\<rparr>))"

definition set_timer :: "(TaskState \<Rightarrow> TaskState) \<Rightarrow> ('j, unit) refresh_io" where
  "set_timer f = io_modify (\<lambda>s. s\<lparr>rf_timers := f (rf_timers s)\<rparr>)"

definition locked :: "('j, 'a) cache_io \<Rightarrow> ('j, 'a) cache_io" where
  "locked m = io_bind (sys_unit ''lock'') (\<lambda>_. m)"

definition init_task_cache :: "int \<Rightarrow> ('j, unit) cache_io" where
  "init_task_cache now = locked (init_cache get_cache (align_timestamp now ROTATE_AFTER))"

definition rotate_task_cache :: "'j json \<Rightarrow> int \<Rightarrow> ('j, bool) cache_io" where
  "rotate_task_cache J now = locked (rotate_cache J get_cache (align_timestamp now ROTATE_AFTER))"

definition apply_task_journal :: "'j json \<Rightarrow> ('j, unit) cache_io" where
  "apply_task_journal J = locked (apply_journal J)"

definition active_task_upids :: "'j json \<Rightarrow> ('j, remote_upid list) cache_io" where
  "active_task_upids J = locked (io_bind (get_active_tasks J) (\<lambda>ts. io_return (map ti_upid ts)))"

definition drop_tracked :: "(remote_upid, PollResult) alist \<Rightarrow> remote_upid list" where
  "drop_tracked poll_results =
     List.map_filter
       (\<lambda>(upid, result).
          case result of Running \<Rightarrow> None | TaskFinished \<Rightarrow> Some upid | RequestError \<Rightarrow> Some upid | RemoteGone \<Rightarrow> Some upid)
       poll_results"

definition update_task_cache ::
  "'j json \<Rightarrow> upid_env \<Rightarrow> task_item list \<Rightarrow> node_success_map \<Rightarrow> (remote_upid, PollResult) alist \<Rightarrow> ('j, unit) cache_io" where
  "update_task_cache J env new_tasks ok poll_results =
     locked (update_cache J env get_cache new_tasks ok (drop_tracked poll_results))"

definition other_processes :: "'j tick_env \<Rightarrow> ('j, unit) refresh_io" where
  "other_processes tk = io_modify (\<lambda>s. s\<lparr>rf_fs := tk_meanwhile tk (rf_fs s)\<rparr>)"

text \<open>The parts of \<^verbatim>\<open>handle_timer_tick\<close>: rotation, journal, polling, choice of the remotes, fetching and updating.\<close>

definition rotate_if_due :: "'j json \<Rightarrow> 'j tick_env \<Rightarrow> ('j, unit) refresh_io" where
  "rotate_if_due J tk =
     io_bind io_get
       (\<lambda>s. if is_due_for_rotate_check (tk_instant tk 0) (rf_timers s)
             then io_bind (on_cache (rotate_task_cache J (tk_epoch tk)))
                    (\<lambda>rotated. io_bind
                       (if rotated then set_timer (reset_journal_apply (tk_instant tk 1)) else io_return ())
                       (\<lambda>_. set_timer (reset_rotate_check (tk_instant tk 2))))
             else io_return ())"

definition apply_journal_if_due :: "'j json \<Rightarrow> 'j tick_env \<Rightarrow> ('j, unit) refresh_io" where
  "apply_journal_if_due J tk =
     io_bind io_get
       (\<lambda>s. if is_due_for_journal_apply (tk_instant tk 3) (rf_timers s)
             then io_bind (on_cache (apply_task_journal J)) (\<lambda>_. set_timer (reset_journal_apply (tk_instant tk 4)))
             else io_return ())"

definition poll_phase ::
  "'j json \<Rightarrow> 'j tick_env \<Rightarrow> (str, Remote) alist \<Rightarrow> task_state \<Rightarrow> ('j, (remote_upid, PollResult) alist) refresh_io" where
  "poll_phase J tk config st =
     io_bind io_get
       (\<lambda>s. if is_due_for_active_poll (tk_instant tk 5) (rf_timers s)
             then io_bind (on_cache (active_task_upids J))
                    (\<lambda>active. io_bind (poll_tracked_tasks tk config (st_tracked_tasks st \<union> set active))
                       (\<lambda>poll_results. io_bind (set_timer (reset_active_poll (tk_instant tk 6)))
                          (\<lambda>_. io_return poll_results)))
             else poll_tracked_tasks tk config (st_tracked_tasks st))"

definition choose_remotes ::
  "'j tick_env \<Rightarrow> (str, Remote) alist \<Rightarrow> (remote_upid, PollResult) alist \<Rightarrow> ('j, Remote list) refresh_io" where
  "choose_remotes tk config poll_results =
     io_bind io_get
       (\<lambda>s. if is_due_for_fetch (tk_instant tk 7) (rf_timers s)
             then io_bind (set_timer (reset_fetch (tk_instant tk 8))) (\<lambda>_. io_return (get_all_remotes config))
             else io_return (get_remotes_with_finished_tasks config poll_results))"

definition fetch_and_update ::
  "'j json \<Rightarrow> upid_env \<Rightarrow> 'j tick_env \<Rightarrow> task_state \<Rightarrow> Remote list \<Rightarrow> (remote_upid, PollResult) alist \<Rightarrow> ('j, unit) refresh_io" where
  "fetch_and_update J env tk st remotes poll_results =
     (case fetch_remotes tk st remotes of
        None \<Rightarrow> io_fail Pending
      | Some (all_tasks, ok) \<Rightarrow>
          io_bind (other_processes tk)
            (\<lambda>_. if all_tasks \<noteq> [] \<or> list_ex (\<lambda>(_, result). result = RemoteGone \<or> result = RequestError) poll_results
                  then on_cache (update_task_cache J env all_tasks ok poll_results)
                  else io_return ()))"

definition handle_timer_tick :: "'j json \<Rightarrow> upid_env \<Rightarrow> 'j tick_env \<Rightarrow> ('j, unit) refresh_io" where
  "handle_timer_tick J env tk =
     io_bind (rotate_if_due J tk) (\<lambda>_. io_bind (apply_journal_if_due J tk)
       (\<lambda>_. case tk_config tk of
               Inl _ \<Rightarrow> io_fail ConfigUnreadable
             | Inr config \<Rightarrow>
                 io_bind (on_cache read_state) (\<lambda>st. io_bind (poll_phase J tk config st)
                   (\<lambda>poll_results. io_bind (choose_remotes tk config poll_results)
                      (\<lambda>remotes. fetch_and_update J env tk st remotes poll_results)))))"

definition refresh_taskcache :: "'j json \<Rightarrow> upid_env \<Rightarrow> 'j tick_env \<Rightarrow> Remote list \<Rightarrow> ('j, unit) refresh_io" where
  "refresh_taskcache J env tk remotes =
     io_bind (on_cache read_state) (\<lambda>st. fetch_and_update J env tk st remotes [])"

text \<open>The task itself: an error of a tick is logged and the next tick follows.\<close>

definition run_ticks :: "'j json \<Rightarrow> upid_env \<Rightarrow> 'j tick_env list \<Rightarrow> 'j refresh \<Rightarrow> 'j refresh" where
  "run_ticks J env tks s = fold (\<lambda>tk s. snd (handle_timer_tick J env tk s)) tks s"

definition remote_task_fetching_task :: "'j json \<Rightarrow> upid_env \<Rightarrow> int \<Rightarrow> int \<Rightarrow> 'j tick_env list \<Rightarrow> 'j task_fs \<Rightarrow> 'j refresh" where
  "remote_task_fetching_task J env instant epoch tks fs =
     run_ticks J env tks \<lparr>rf_fs = snd (init_task_cache epoch fs), rf_timers = task_state_default instant\<rparr>"

end
