(* ===== verification/RefreshProps.thy ===== *)
theory RefreshProps
  imports RefreshTask "HOL-Library.Code_Target_Nat"
begin

text \<open>
  What the background task promises about the tasks of a node: a task is recorded in the cache, or it is older
  than every archive file, or the next fetch from its node asks for it. The rules below follow this through
  the journal, the update of the cache and the whole tick.
\<close>

section \<open>Coverage\<close>

definition stored_state :: "'j task_fs \<Rightarrow> task_state" where
  "stored_state s = (case fs_state s of GoodState st \<Rightarrow> st | _ \<Rightarrow> default_state)"

definition known :: "'j json \<Rightarrow> archive_file list \<Rightarrow> 'j task_fs \<Rightarrow> task_item \<Rightarrow> bool" where
  "known J L s t \<longleftrightarrow> task_key t \<in> recorded J s \<or> (\<forall>f \<in> set L. ti_starttime t < af_starttime f)"

definition will_fetch :: "task_state \<Rightarrow> str \<Rightarrow> str \<Rightarrow> task_item \<Rightarrow> bool" where
  "will_fetch st remote node t \<longleftrightarrow>
     (case cutoff_timestamp st remote node of None \<Rightarrow> True | Some c \<Rightarrow> c \<le> ti_starttime t)"

definition covered :: "'j json \<Rightarrow> archive_file list \<Rightarrow> str \<Rightarrow> str \<Rightarrow> 'j task_fs \<Rightarrow> task_item \<Rightarrow> bool" where
  "covered J L remote node s t \<longleftrightarrow> known J L s t \<or> will_fetch (stored_state s) remote node t"

definition files_ok :: "'j json \<Rightarrow> bool \<Rightarrow> archive_file list \<Rightarrow> 'j task_fs \<Rightarrow> bool" where
  "files_ok J r L s \<longleftrightarrow> cache_inv J r s \<and> listing s = L \<and> clean_journal s"

definition cover_inv ::
  "'j json \<Rightarrow> bool \<Rightarrow> archive_file list \<Rightarrow> str \<Rightarrow> str \<Rightarrow> task_item set \<Rightarrow> 'j task_fs \<Rightarrow> bool" where
  "cover_inv J r L remote node H s \<longleftrightarrow> files_ok J r L s \<and> (\<forall>t \<in> H. covered J L remote node s t)"

text \<open>The cutoffs of a state are those of another one, lowered or removed.\<close>

definition lowered :: "task_state \<Rightarrow> task_state \<Rightarrow> bool" where
  "lowered st st' \<longleftrightarrow>
     (\<forall>r n c. cutoff_timestamp st' r n = Some c \<longrightarrow> (\<exists>c'. cutoff_timestamp st r n = Some c' \<and> c \<le> c'))"

lemma lowered_refl [simp]: "lowered st st"
  by (simp add: lowered_def)

lemma lowered_trans: "lowered a b \<Longrightarrow> lowered b c \<Longrightarrow> lowered a c"
  unfolding lowered_def by (meson order_trans)

lemma lowered_default [simp]: "lowered st default_state"
  by (simp add: lowered_def default_state_def cutoff_timestamp_def)

lemma loweredE:
  assumes "lowered st st'" "cutoff_timestamp st' r n = Some c"
  obtains c' where "cutoff_timestamp st r n = Some c'" "c \<le> c'"
  using assms unfolding lowered_def by blast

lemma lowered_will_fetch: "lowered st st' \<Longrightarrow> will_fetch st remote node t \<Longrightarrow> will_fetch st' remote node t"
  by (cases "cutoff_timestamp st' remote node") (auto simp: will_fetch_def elim: loweredE)

lemma stored_state_simps [simp]:
  "stored_state (s\<lparr>fs_sched := x\<rparr>) = stored_state s" "stored_state (s\<lparr>fs_dir := d\<rparr>) = stored_state s"
  "stored_state (s\<lparr>fs_journal := j\<rparr>) = stored_state s" "stored_state (s\<lparr>fs_state := GoodState st\<rparr>) = st"
  by (simp_all add: stored_state_def)

lemma recorded_sched [simp]:
  "recorded J (s\<lparr>fs_sched := x\<rparr>) = recorded J s" "recorded J (s\<lparr>fs_state := y\<rparr>) = recorded J s"
  by (simp_all add: recorded_def journal_tasks_def)

lemma clean_journal_simps [simp]:
  "clean_journal (s\<lparr>fs_sched := x\<rparr>) = clean_journal s" "clean_journal (s\<lparr>fs_dir := d\<rparr>) = clean_journal s"
  "clean_journal (s\<lparr>fs_state := y\<rparr>) = clean_journal s"
  by (simp_all add: clean_journal_def)

lemma cover_inv_sched [simp]: "cover_inv J r L remote node H (s\<lparr>fs_sched := x\<rparr>) = cover_inv J r L remote node H s"
  by (simp add: cover_inv_def files_ok_def covered_def known_def)

lemma sched_free_cover [simp]: "sched_free (cover_inv J r L remote node H)"
  by (simp add: sched_free_def)

section \<open>Operations that keep the state file or the journal\<close>

text \<open>\<open>dir_free\<close>: an assertion that does not depend on the archive files.\<close>

definition dir_free :: "('j task_fs \<Rightarrow> bool) \<Rightarrow> bool" where
  "dir_free I \<longleftrightarrow> sched_free I \<and> (\<forall>s d. I s \<longrightarrow> I (s\<lparr>fs_dir := d\<rparr>))"

lemma dir_freeD: "dir_free I \<Longrightarrow> sched_free I" "dir_free I \<Longrightarrow> I s \<Longrightarrow> I (s\<lparr>fs_dir := d\<rparr>)"
  by (simp_all add: dir_free_def)

lemma dir_free_state [simp]: "dir_free (\<lambda>s. P (stored_state s))"
  by (simp add: dir_free_def sched_free_def)

lemma dir_free_clean [simp]: "dir_free clean_journal"
  by (simp add: dir_free_def sched_free_def)

lemma dir_free_commit: "dir_free I \<Longrightarrow> io_inv I (commit f ls)"
  unfolding commit_def by (intro io_inv_intros) (auto simp: dir_free_def)

lemma dir_free_merge_single: "dir_free I \<Longrightarrow> io_inv I (merge_single_archive_file J tasks f)"
  unfolding merge_single_archive_file_def
  by (intro io_inv_intros dir_free_commit) (auto simp: dir_freeD)

lemma dir_free_merge_advance: "dir_free I \<Longrightarrow> io_inv I (merge_advance J t cur rest batch corrupted)"
  by (induction J t cur rest batch corrupted rule: merge_advance.induct)
    (auto intro!: io_inv_intros dir_free_merge_single)

lemma dir_free_merge: "dir_free I \<Longrightarrow> io_inv I (merge_tasks_into_archive J tasks)"
  unfolding merge_tasks_into_archive_def merge_step_def
  by (intro io_inv_intros dir_free_merge_single dir_free_merge_advance) (auto simp: dir_freeD)

lemma read_state_run:
  obtains x st where "read_state s = (Inr st, s\<lparr>fs_sched := x\<rparr>)" "st = stored_state s \<or> st = default_state"
  using that [where x = "fs_sched s"] that [where x = "tl (fs_sched s)"]
  by (cases "fs_sched s"; cases "hd (fs_sched s)"; cases "fs_state s")
    (auto simp: read_state_def io_bind_def io_try_def sys_def io_return_def stored_state_def)

lemma cutoff_repair:
  "cutoff_timestamp (st\<lparr>st_remote_state :=
      (\<lambda>r. map_option (\<lambda>rs. rs\<lparr>rs_node_state := (\<lambda>n. map_option (\<lambda>ns. ns\<lparr>ns_cutoff := min (ns_cutoff ns) reset\<rparr>)
         (rs_node_state rs n))\<rparr>) (st_remote_state st r))\<rparr>) r n = map_option (\<lambda>c. min c reset) (cutoff_timestamp st r n)"
  by (simp add: cutoff_timestamp_def option.map_comp comp_def split: option.split bind_split)

lemma lowered_request_repair: "io_inv (\<lambda>s. lowered st (stored_state s)) (request_repair fs)"
  unfolding io_inv_def
proof (intro allI impI)
  fix s :: "'a task_fs" assume low: "lowered st (stored_state s)"
  obtain x st0 where rd: "read_state s = (Inr st0, s\<lparr>fs_sched := x\<rparr>)" and st0: "st0 = stored_state s \<or> st0 = default_state"
    by (rule read_state_run)
  have "lowered st st0" using low st0 by auto
  then have "lowered st (st0\<lparr>st_remote_state :=
      (\<lambda>r. map_option (\<lambda>rs. rs\<lparr>rs_node_state := (\<lambda>n. map_option (\<lambda>ns. ns\<lparr>ns_cutoff := min (ns_cutoff ns) reset\<rparr>)
         (rs_node_state rs n))\<rparr>) (st_remote_state st0 r))\<rparr>)" for reset
    unfolding lowered_def cutoff_repair by (fastforce simp: min_le_iff_disj)
  with low show "lowered st (stored_state (snd (request_repair fs s)))"
    by (auto simp: request_repair_def Let_def io_bind_def rd io_return_def write_state_def sys_def split: list.split fault.split)
qed

lemma lowered_apply_journal: "io_inv (\<lambda>s. lowered st (stored_state s)) (apply_journal J)"
  unfolding apply_journal_def truncate_journal_def
  by (intro io_inv_intros dir_free_merge lowered_request_repair) (auto simp: sched_free_def)

lemma clean_apply_journal: "io_inv clean_journal (apply_journal J)"
  unfolding apply_journal_def truncate_journal_def request_repair_def Let_def read_state_def write_state_def
  by (intro io_inv_intros dir_free_merge) (auto simp: sched_free_def clean_journal_def)

text \<open>Applying the journal keeps every task covered.\<close>

lemma cover_apply_journal:
  assumes "json_ok J"
  shows "io_inv (cover_inv J r L remote node H) (apply_journal J)"
  unfolding io_inv_def
proof (intro allI impI)
  fix s :: "'a task_fs" assume inv: "cover_inv J r L remote node H s"
  let ?s = "snd (apply_journal J s)"
  from inv have pre: "cache_inv J r s \<and> listing s = L \<and> recorded J s \<subseteq> recorded J s" and clean: "clean_journal s"
    by (simp_all add: cover_inv_def files_ok_def)
  note t = io_triple_sndD [OF apply_journal_triple [OF assms, of r L "recorded J s"] pre]
  have "covered J L remote node ?s t" if "covered J L remote node s t" for t
  proof -
    have "known J L s t \<Longrightarrow> known J L ?s t"
      using t by (fastforce simp: known_def task_key_def)
    moreover have "lowered (stored_state s) (stored_state ?s)"
      using io_invD [OF lowered_apply_journal, of "stored_state s" s J] by simp
    ultimately show ?thesis using that lowered_will_fetch by (auto simp: covered_def)
  qed
  with t inv clean io_invD [OF clean_apply_journal clean, of J] show "cover_inv J r L remote node H ?s"
    by (simp add: cover_inv_def files_ok_def)
qed

section \<open>Updating the cache\<close>

lemma cutoff_fold_remove [simp]:
  "cutoff_timestamp (fold remove_tracked_task us st) = cutoff_timestamp st"
  by (induction us arbitrary: st) simp_all

lemma lowered_apply_if_too_large: "io_inv (\<lambda>s. lowered st (stored_state s)) (apply_journal_if_too_large J cfg)"
  unfolding apply_journal_if_too_large_def journal_size_def
  by (intro io_inv_intros lowered_apply_journal) (auto simp: sched_free_def)

text \<open>The state that a successful update leaves behind.\<close>

lemma update_state_result:
  assumes "update_cache J env cfg new ok dropped s = (Inr (), s')"
  obtains st base active where "st = stored_state s \<or> st = default_state"
    "active = fold (\<lambda>t. al_del (ti_upid t)) (filter (\<lambda>t. ti_endtime t \<noteq> None) new)
       (fold (\<lambda>t. al_put (ti_upid t) t) (filter (\<lambda>t. ti_endtime t = None) new) base)"
    "lowered (fold (lower_cutoff env ok) (map snd active)
       (fold (raise_cutoff env ok) (accepted env new) (fold remove_tracked_task dropped st))) (stored_state s')"
proof -
  let ?fin = "filter (\<lambda>t. ti_endtime t \<noteq> None) new" and ?run = "filter (\<lambda>t. ti_endtime t = None) new"
  from assms obtain ts s1 st s2 active st' s3 s4 s5 where
    run: "get_active_tasks J s = (Inr ts, s1)" "read_state s1 = (Inr st, s2)"
      "write_tasks_to_journal J env ?fin (fold (\<lambda>t. al_put (ti_upid t) t) ?run (active_map_of (set dropped) ts)) ok
         (fold remove_tracked_task dropped st) s2 = (Inr (active, st'), s3)"
      "write_state st' s4 = (Inr (), s5)" "apply_journal_if_too_large J cfg s5 = (Inr (), s')"
    unfolding update_cache_def Let_def by (auto simp: io_bind_eq_Inr split: prod.splits)
  have "stored_state s1 = stored_state s"
    using io_invD [OF io_inv_get_active [where I = "\<lambda>x. stored_state x = stored_state s" and J = J], of s] run(1)
    by (simp add: sched_free_def)
  moreover have "st = stored_state s1 \<or> st = default_state"
    using read_state_run [of s1] run(2) by (metis Pair_inject sum.inject(2))
  moreover have "stored_state s5 = st'"
    using run(4) by (auto simp: write_state_def sys_def split: list.splits fault.splits)
  then have "lowered st' (stored_state s')"
    using io_invD [OF lowered_apply_if_too_large, of st' s5 J cfg] run(5) by simp
  ultimately show thesis
    using that [OF _ _ , of st active "active_map_of (set dropped) ts"] write_journal_result [OF run(3)]
    by (simp add: accepted_def)
qed

text \<open>A running task that was fetched is in the new active file when no other fetched task has its UPID.\<close>

lemma running_stays_active:
  assumes "t \<in> set new" "ti_endtime t = None" "inj_on ti_upid (set new)"
    and "active = fold (\<lambda>t. al_del (ti_upid t)) (filter (\<lambda>t. ti_endtime t \<noteq> None) new)
       (fold (\<lambda>t. al_put (ti_upid t) t) (filter (\<lambda>t. ti_endtime t = None) new) base)"
  shows "t \<in> set (map snd active)"
proof -
  let ?fin = "filter (\<lambda>t. ti_endtime t \<noteq> None) new" and ?run = "filter (\<lambda>t. ti_endtime t = None) new"
  have del: "u \<notin> ti_upid ` set us \<Longrightarrow> al_get (fold (\<lambda>t. al_del (ti_upid t)) us a) u = al_get a u" for u us a
    by (induction us arbitrary: a) (simp_all add: al_get_del)
  have "ti_upid t \<in> ti_upid ` set ?run" using assms(1,2) by simp
  from al.get_fold_put_in [OF this, where g = "\<lambda>x. x" and d = base]
  obtain x where "x \<in> set ?run" "ti_upid x = ti_upid t"
    "al_get (fold (\<lambda>t. al_put (ti_upid t) t) ?run base) (ti_upid t) = Some x" by auto
  moreover from this(1,2) assms(1,3) have "x = t" by (auto simp: inj_on_def)
  moreover have "ti_upid t \<notin> ti_upid ` set ?fin" using assms(1-3) by (auto simp: inj_on_def)
  ultimately have "al_get active (ti_upid t) = Some t" unfolding assms(4) by (simp add: del)
  then show ?thesis by (force dest: map_of_SomeD)
qed

text \<open>A successful update leaves the archive files as they are listed and the journal with complete lines only.\<close>

lemma files_ok_sched [simp]:
  "files_ok J r L (s\<lparr>fs_sched := x\<rparr>) = files_ok J r L s" "files_ok J r L (s\<lparr>fs_state := y\<rparr>) = files_ok J r L s"
  by (simp_all add: files_ok_def)

lemma sched_free_files_ok [simp]: "sched_free (files_ok J r L)"
  by (simp add: sched_free_def)

lemma files_ok_append: "io_triple (files_ok J r L) (append_journal J t) (\<lambda>_. files_ok J r L) (\<lambda>_. True)"
  by (auto simp: io_triple_def append_journal_def append_line_def Let_def files_ok_def clean_journal_def
      split: list.splits fault.splits option.splits)

lemma files_ok_journal_step:
  "io_triple (files_ok J r L) (journal_step J env ok t acc) (\<lambda>_. files_ok J r L) (\<lambda>_. True)"
  unfolding journal_step_def Let_def
  by (auto split: prod.split sum.split intro!: io_triple_return io_triple_bind [OF files_ok_append])

lemma files_ok_journal_fold:
  "io_triple (files_ok J r L) (io_fold (journal_step J env ok) ts acc) (\<lambda>_. files_ok J r L) (\<lambda>_. True)"
  using io_triple_fold [where I = "\<lambda>_. True" and P = "files_ok J r L" and E = "\<lambda>_. True" and f = "journal_step J env ok"
      and xs = ts and b = acc] by (simp add: files_ok_journal_step)

lemma files_ok_write_journal:
  "io_triple (files_ok J r L) (write_tasks_to_journal J env ts active ok st) (\<lambda>_. files_ok J r L) (\<lambda>_. True)"
proof -
  have opened: "io_triple (files_ok J r L) open_journal (\<lambda>_. files_ok J r L) (\<lambda>_. True)"
    unfolding open_journal_def
    by (rule io_triple_sys) (auto simp: files_ok_def clean_journal_def split: option.splits)
  show ?thesis
    unfolding write_tasks_to_journal_def case_prod_beta
    by (intro io_triple_bind [OF opened] io_triple_bind [OF files_ok_journal_fold]
        io_triple_bind [OF io_triple_sys_unit] io_triple_return) simp_all
qed

lemma files_ok_active: "files_ok J r L s \<Longrightarrow> files_ok J r L (s\<lparr>fs_dir := al_put ''active'' ls (fs_dir s)\<rparr>)"
  by (simp add: files_ok_def cache_inv_put_other listing_put_other)

lemma files_ok_apply_if_too_large:
  assumes "json_ok J"
  shows "io_inv (files_ok J r L) (apply_journal_if_too_large J cfg)"
proof -
  have "io_inv (files_ok J r L) (apply_journal J)"
    using cover_apply_journal [OF assms, of r L "[]" "[]" "{}"] by (simp add: cover_inv_def [abs_def])
  then show ?thesis
    unfolding apply_journal_if_too_large_def journal_size_def by (intro io_inv_intros) simp_all
qed

lemma files_ok_update:
  assumes "json_ok J"
  shows "io_triple (files_ok J r L) (update_cache J env cfg new ok dropped) (\<lambda>_. files_ok J r L) (\<lambda>_. True)"
proof -
  have active: "io_triple (files_ok J r L) (get_active_tasks J) (\<lambda>_. files_ok J r L) (\<lambda>_. True)"
    by (rule io_triple_conseq [OF io_triple_inv [OF io_inv_get_active]]) simp_all
  have applied: "io_triple (files_ok J r L) (apply_journal_if_too_large J cfg) (\<lambda>_. files_ok J r L) (\<lambda>_. True)"
    by (rule io_triple_conseq [OF io_triple_inv [OF files_ok_apply_if_too_large [OF assms]]]) simp_all
  show ?thesis
    unfolding update_cache_def Let_def case_prod_beta
    by (intro io_triple_bind [OF active] io_triple_bind [OF io_triple_read_state] io_triple_bind [OF files_ok_write_journal]
        io_triple_bind [OF io_triple_write_active [where Q = "\<lambda>_. files_ok J r L"]]
        io_triple_bind [OF io_triple_write_state [where Q = "\<lambda>_. files_ok J r L"]] applied)
      (simp_all add: files_ok_active)
qed

text \<open>The tasks of a node stay covered when what was fetched from it is complete.\<close>

lemma update_covers:
  assumes J: "json_ok J" and inv: "cover_inv J r L remote node H s"
    and run: "update_cache J env cfg new ok dropped s = (Inr (), s')"
    and at: "\<forall>t \<in> H. task_at env remote node t" and inj: "inj_on ti_upid (set new)"
    and complete: "\<forall>t \<in> H. node_successful ok remote node \<longrightarrow> known J L s t \<or> t \<in> set new"
  shows "cover_inv J r L remote node H s'"
    and "node_successful ok remote node \<Longrightarrow> t \<in> H \<Longrightarrow> ti_endtime t \<noteq> None \<Longrightarrow> known J L s' t"
proof -
  from inv have files: "files_ok J r L s" and cov: "\<forall>t \<in> H. covered J L remote node s t"
    by (simp_all add: cover_inv_def)
  have pre: "fs_at J r L (fs_state s) (archived J s) s \<and> clean_journal s \<and> journal_tasks J s = journal_tasks J s"
    using files by (simp add: files_ok_def fs_at_def)
  have safe: "safe_in J (archived J s \<union> set (journal_tasks J s) \<union> set (accepted env new)) L s'"
    by (rule io_triple_InrD [OF update_triple [OF J] pre run])
  have keep: "known J L s' t" if "known J L s t" for t
  proof -
    have "(\<forall>f \<in> set L. ti_starttime t < af_starttime f) \<or>
        (\<exists>u \<in> archived J s \<union> set (journal_tasks J s). task_key u = task_key t)"
      using that by (auto simp: known_def recorded_def)
    then show ?thesis
    proof
      assume "\<exists>u \<in> archived J s \<union> set (journal_tasks J s). task_key u = task_key t"
      then obtain u where u: "u \<in> archived J s \<union> set (journal_tasks J s)" "task_key u = task_key t" ..
      then have "ti_starttime u = ti_starttime t" by (simp add: task_key_def)
      moreover from u have "u \<in> archived J s \<union> set (journal_tasks J s) \<union> set (accepted env new)" by simp
      from bspec [OF safe [unfolded safe_in_def] this] have "known J L s' u" by (simp add: known_def)
      ultimately show ?thesis using u(2) by (simp add: known_def)
    qed (simp add: known_def)
  qed
  have new: "known J L s' t" if "t \<in> H" "t \<in> set new" "ti_endtime t \<noteq> None" for t
  proof -
    from that at have "t \<in> set (accepted env new)" using task_at_parses by (force simp: accepted_def)
    then have "t \<in> archived J s \<union> set (journal_tasks J s) \<union> set (accepted env new)" by simp
    from bspec [OF safe [unfolded safe_in_def] this] show ?thesis by (simp add: known_def)
  qed
  obtain st base active where st: "st = stored_state s \<or> st = default_state"
    and active: "active = fold (\<lambda>t. al_del (ti_upid t)) (filter (\<lambda>t. ti_endtime t \<noteq> None) new)
       (fold (\<lambda>t. al_put (ti_upid t) t) (filter (\<lambda>t. ti_endtime t = None) new) base)"
    and low: "lowered (fold (lower_cutoff env ok) (map snd active)
       (fold (raise_cutoff env ok) (accepted env new) (fold remove_tracked_task dropped st))) (stored_state s')"
    using run by (rule update_state_result)
  let ?st = "fold (lower_cutoff env ok) (map snd active) (fold (raise_cutoff env ok) (accepted env new) (fold remove_tracked_task dropped st))"
  have covered: "covered J L remote node s' t" if t: "t \<in> H" for t
  proof (cases "node_successful ok remote node")
    case True
    show ?thesis
    proof (cases "t \<in> set new \<and> ti_endtime t = None")
      case running: True
      with running_stays_active [OF _ _ inj active] have mem: "t \<in> set (map snd active)" by simp
      with at t have "\<exists>u \<in> set (map snd active). task_at env remote node u" by blast
      from cutoff_fold_lower [OF True disjI1 [OF this]] obtain c where "cutoff_timestamp ?st remote node = Some c"
        "\<forall>u \<in> set (map snd active). task_at env remote node u \<longrightarrow> c \<le> ti_starttime u" by blast
      with bspec [OF this(2) mem] at t have "will_fetch ?st remote node t" by (simp add: will_fetch_def)
      with low show ?thesis by (auto simp: covered_def intro: lowered_will_fetch)
    next
      case False
      with complete True t keep new show ?thesis by (auto simp: covered_def)
    qed
  next
    case False
    then have "cutoff_timestamp ?st remote node = cutoff_timestamp st remote node" by (simp add: cutoff_fold_other)
    moreover have "known J L s t \<or> will_fetch st remote node t"
      using cov t st by (auto simp: covered_def will_fetch_def default_state_def cutoff_timestamp_def)
    ultimately have "known J L s t \<or> will_fetch ?st remote node t" by (simp add: will_fetch_def)
    with low keep show ?thesis by (auto simp: covered_def intro: lowered_will_fetch)
  qed
  have "files_ok J r L s'" using io_triple_InrD [OF files_ok_update [OF J] files run] .
  with covered show "cover_inv J r L remote node H s'" by (simp add: cover_inv_def)
  show "known J L s' t" if "node_successful ok remote node" "t \<in> H" "ti_endtime t \<noteq> None"
    using that complete keep new by blast
qed

section \<open>Fetching\<close>

definition task_plan :: "'j tick_env \<Rightarrow> task_state \<Rightarrow> (task_item list, task_item list MultipleNodesResponse) plan" where
  "task_plan tk st =
     nodes_plan (tk_list_nodes tk)
       (\<lambda>remote node. Some (fetch_tasks_from_single_node tk st remote node, tk_response_time tk remote node))"

text \<open>A response of a node is what the function returned for it.\<close>

lemma task_response_node:
  assumes "response_ok (task_plan tk st) r (Inr nodes)" "y \<in> set nodes"
  shows "nr_data y = fetch_tasks_from_single_node tk st r (nr_node_name y)"
proof -
  let ?call = "call (pl_func (task_plan tk st)) r"
  have call: "?call n = Some x \<Longrightarrow> nr_data x = fetch_tasks_from_single_node tk st r (nr_node_name x)" for n x
    by (auto simp: call_def task_plan_def nodes_plan_def)
  show ?thesis
  proof (cases "remote_ty r")
    case Pve
    with assms(1) obtain ns where "mset nodes = mset (List.map_filter ?call ns)"
      by (auto simp: response_ok_def task_plan_def nodes_plan_def split: sum.splits)
    with assms(2) have "y \<in> set (List.map_filter ?call ns)" by (metis set_mset_mset)
    with call show ?thesis by (auto simp: set_map_filter)
  next
    case Pbs
    with assms call show ?thesis by (auto simp: response_ok_def task_plan_def nodes_plan_def)
  qed
qed

text \<open>What the fold over the responses collects.\<close>

definition fetched :: "task_item list MultipleNodesResponse RemoteResponse list \<Rightarrow> str \<Rightarrow> str \<Rightarrow> task_item list \<Rightarrow> bool" where
  "fetched responses remote node tasks \<longleftrightarrow>
     (\<exists>x nodes y. x \<in> set responses \<and> rr_remote_name x = remote \<and> rr_response x = Inr nodes \<and> y \<in> set nodes \<and>
        nr_node_name y = node \<and> nr_data y = Inr tasks)"

lemma collect_node_fold:
  assumes "fold (collect_node remote) ys (all, ok) = (all', ok')"
  shows "set all' = set all \<union> {t. \<exists>y tasks. y \<in> set ys \<and> nr_data y = Inr tasks \<and> t \<in> set tasks}"
    and "node_successful ok' r n \<longleftrightarrow> node_successful ok r n \<or>
      r = remote \<and> (\<exists>y tasks. y \<in> set ys \<and> nr_node_name y = n \<and> nr_data y = Inr tasks)"
  using assms
  by (induction ys arbitrary: all ok)
    (auto simp: collect_node_def node_successful_def set_node_success_def split: sum.splits if_splits)

lemma collect_remote_fold:
  assumes "fold collect_remote xs (all, ok) = (all', ok')"
  shows "set all' = set all \<union> {t. \<exists>r n tasks. fetched xs r n tasks \<and> t \<in> set tasks}"
    and "node_successful ok' r n \<longleftrightarrow> node_successful ok r n \<or> (\<exists>tasks. fetched xs r n tasks)"
proof -
  have "set all' = set all \<union> {t. \<exists>r n tasks. fetched xs r n tasks \<and> t \<in> set tasks} \<and>
    (\<forall>r n. node_successful ok' r n \<longleftrightarrow> node_successful ok r n \<or> (\<exists>tasks. fetched xs r n tasks))"
    using assms
  proof (induction xs arbitrary: all ok)
    case (Cons x xs)
    obtain all1 ok1 where step: "collect_remote x (all, ok) = (all1, ok1)" by (cases "collect_remote x (all, ok)")
    with Cons.prems have rest: "fold collect_remote xs (all1, ok1) = (all', ok')" by simp
    have split: "fetched (x # xs) r n tasks \<longleftrightarrow> fetched [x] r n tasks \<or> fetched xs r n tasks" for r n tasks
      by (auto simp: fetched_def)
    have "set all1 = set all \<union> {t. \<exists>r n tasks. fetched [x] r n tasks \<and> t \<in> set tasks} \<and>
      (\<forall>r n. node_successful ok1 r n \<longleftrightarrow> node_successful ok r n \<or> (\<exists>tasks. fetched [x] r n tasks))"
    proof (cases "rr_response x")
      case (Inl e)
      with step show ?thesis by (simp add: collect_remote_def fetched_def)
    next
      case (Inr ys)
      with step have "fold (collect_node (rr_remote_name x)) ys (all, ok) = (all1, ok1)" by (simp add: collect_remote_def)
      from collect_node_fold [OF this] Inr show ?thesis by (auto simp: fetched_def)
    qed
    with Cons.IH [OF rest] show ?case unfolding split by auto
  qed (auto simp: fetched_def)
  then show "set all' = set all \<union> {t. \<exists>r n tasks. fetched xs r n tasks \<and> t \<in> set tasks}"
    "node_successful ok' r n \<longleftrightarrow> node_successful ok r n \<or> (\<exists>tasks. fetched xs r n tasks)" by auto
qed

definition has_node :: "'j tick_env \<Rightarrow> Remote \<Rightarrow> str \<Rightarrow> bool" where
  "has_node tk r node =
     (case remote_ty r of
        Pve \<Rightarrow> (case tk_list_nodes tk r of Inr nodes \<Rightarrow> node \<in> set nodes | Inl _ \<Rightarrow> False)
      | Pbs \<Rightarrow> node = ''localhost'')"

lemma fetch_remotes_run:
  assumes "fetch_remotes tk st remotes = Some (all, ok)"
  obtains responses where "run_plan task_fetcher (task_plan tk st) remotes (tk_schedule tk remotes) = Some responses"
    "set all = {t. \<exists>r n tasks. fetched responses r n tasks \<and> t \<in> set tasks}"
    "\<forall>r n. node_successful ok r n \<longleftrightarrow> (\<exists>tasks. fetched responses r n tasks)"
proof -
  from assms obtain responses where run: "run_plan task_fetcher (task_plan tk st) remotes (tk_schedule tk remotes) = Some responses"
    and fold: "fold collect_remote responses ([], Map.empty) = (all, ok)"
    by (auto simp: fetch_remotes_def do_for_all_remote_nodes_def task_plan_def)
  from collect_remote_fold [OF fold] that [OF run] show thesis by (simp add: node_successful_def)
qed

lemma fetch_remotes_all:
  assumes "fetch_remotes tk st remotes = Some (all, ok)" and "t \<in> set all"
  shows "\<exists>r \<in> set remotes. \<exists>n data. fetch_tasks_from_single_node tk st r n = Inr data \<and> t \<in> set data"
proof -
  obtain responses where run: "run_plan task_fetcher (task_plan tk st) remotes (tk_schedule tk remotes) = Some responses"
    and all: "set all = {t. \<exists>r n tasks. fetched responses r n tasks \<and> t \<in> set tasks}"
    using assms(1) by (rule fetch_remotes_run)
  from all assms(2) obtain x nodes y tasks where x: "x \<in> set responses" "rr_response x = Inr nodes"
    "y \<in> set nodes" "nr_data y = Inr tasks" "t \<in> set tasks" by (auto simp: fetched_def)
  from run_plan_responses(1) [OF run x(1)] obtain r p where r: "r \<in> set remotes" "x = respond r p"
    "response_ok (task_plan tk st) r p" by blast
  with x(2) have "p = Inr nodes" by (simp add: respond_def)
  with r(3) x(3,4) have "fetch_tasks_from_single_node tk st r (nr_node_name y) = Inr tasks"
    using task_response_node [of tk st r nodes y] by simp
  with r(1) x(5) show ?thesis by blast
qed

lemma fetch_remotes_sound:
  assumes "fetch_remotes tk st remotes = Some (all, ok)" and "node_successful ok remote node"
  shows "\<exists>r \<in> set remotes. \<exists>data. remote_id r = remote \<and> fetch_tasks_from_single_node tk st r node = Inr data \<and> set data \<subseteq> set all"
proof -
  obtain responses where run: "run_plan task_fetcher (task_plan tk st) remotes (tk_schedule tk remotes) = Some responses"
    and all: "set all = {t. \<exists>r n tasks. fetched responses r n tasks \<and> t \<in> set tasks}"
    and ok: "\<forall>r n. node_successful ok r n \<longleftrightarrow> (\<exists>tasks. fetched responses r n tasks)"
    using assms(1) by (rule fetch_remotes_run)
  from ok assms(2) obtain tasks where tasks: "fetched responses remote node tasks" by blast
  then obtain x nodes y where x: "x \<in> set responses" "rr_remote_name x = remote" "rr_response x = Inr nodes"
    "y \<in> set nodes" "nr_node_name y = node" "nr_data y = Inr tasks" by (auto simp: fetched_def)
  from run_plan_responses(1) [OF run x(1)] obtain r p where r: "r \<in> set remotes" "x = respond r p"
    "response_ok (task_plan tk st) r p" by blast
  with x have "remote_id r = remote" "p = Inr nodes" by (simp_all add: respond_def)
  moreover from this r(3) x(4-6) have "fetch_tasks_from_single_node tk st r node = Inr tasks"
    using task_response_node [of tk st r nodes y] by simp
  moreover have "set tasks \<subseteq> set all" using tasks all by blast
  ultimately show ?thesis using r(1) by blast
qed

lemma fetch_remotes_complete:
  assumes "fetch_remotes tk st remotes = Some (all, ok)" and "r \<in> set remotes" and "has_node tk r node"
    and "fetch_tasks_from_single_node tk st r node = Inr data"
  shows "node_successful ok (remote_id r) node"
proof -
  obtain responses where run: "run_plan task_fetcher (task_plan tk st) remotes (tk_schedule tk remotes) = Some responses"
    and ok: "\<forall>r n. node_successful ok r n \<longleftrightarrow> (\<exists>tasks. fetched responses r n tasks)"
    using assms(1) by (rule fetch_remotes_run)
  let ?y = "\<lparr>nr_node_name = node, nr_data = Inr data, nr_api_response_time = tk_response_time tk r node\<rparr>"
  have call: "call (pl_func (task_plan tk st)) r node = Some ?y"
    using assms(4) by (simp add: call_def task_plan_def nodes_plan_def)
  have "answers (task_plan tk st) r"
    by (simp add: answers_def task_plan_def nodes_plan_def call_def split: RemoteType.split kind.split)
  with run_plan_responses(2) [OF run assms(2)] obtain p where p: "respond r p \<in> set responses" "response_ok (task_plan tk st) r p"
    by blast
  have "\<exists>nodes. p = Inr nodes \<and> ?y \<in> set nodes"
  proof (cases "remote_ty r")
    case Pve
    with assms(3) obtain ns where ns: "tk_list_nodes tk r = Inr ns" "node \<in> set ns" by (auto simp: has_node_def split: sum.splits)
    with Pve p(2) obtain nodes where nodes: "p = Inr nodes"
      "mset nodes = mset (List.map_filter (call (pl_func (task_plan tk st)) r) ns)"
      by (auto simp: response_ok_def task_plan_def nodes_plan_def)
    from ns(2) call have "?y \<in> set (List.map_filter (call (pl_func (task_plan tk st)) r) ns)" by (auto simp: set_map_filter)
    with nodes show ?thesis by (metis set_mset_mset)
  next
    case Pbs
    with assms(3) p(2) call show ?thesis by (auto simp: has_node_def response_ok_def task_plan_def nodes_plan_def)
  qed
  then obtain nodes where nodes: "p = Inr nodes" "?y \<in> set nodes" by blast
  have "fetched responses (remote_id r) node data"
    unfolding fetched_def using p(1) nodes
    by (intro exI [of _ "respond r p"] exI [of _ nodes] exI [of _ ?y]) (simp add: respond_def)
  then show ?thesis using ok by blast
qed

section \<open>The tick\<close>

text \<open>
  What the code relies on. \<open>history\<close> gives the tasks that a node has; a query for the tasks since a time is answered
  with at most \<open>limit\<close> of those that started then or later, and with all of them if they are not more. Tasks with
  the same UPID are the same. \<open>B\<close> is a time not later than what a first fetch asks for; the tasks considered are
  tasks of the node that a first fetch asks for, and since \<open>B\<close> the node has at most 5000 tasks. \<open>quiet\<close> says that
  the other processes keep the tasks covered and known.
\<close>

definition answers_query :: "ListedTask list \<Rightarrow> int \<Rightarrow> nat \<Rightarrow> ListedTask list \<Rightarrow> bool" where
  "answers_query tasks since limit answer \<longleftrightarrow>
     length answer \<le> limit \<and> set answer \<subseteq> {x \<in> set tasks. since \<le> lt_starttime x} \<and>
     (length (filter (\<lambda>x. since \<le> lt_starttime x) tasks) \<le> limit \<longrightarrow>
        {x \<in> set tasks. since \<le> lt_starttime x} \<subseteq> set answer)"

text \<open>A PBS remote has one node.\<close>

definition node_history :: "(Remote \<Rightarrow> str \<Rightarrow> ListedTask list) \<Rightarrow> Remote \<Rightarrow> str \<Rightarrow> ListedTask list" where
  "node_history history r node = (case remote_ty r of Pve \<Rightarrow> history r node | Pbs \<Rightarrow> history r ''localhost'')"

definition task_of :: "Remote \<Rightarrow> ListedTask \<Rightarrow> task_item" where
  "task_of r x = (case remote_ty r of Pve \<Rightarrow> map_pve_task x (remote_id r) | Pbs \<Rightarrow> map_pbs_task x (remote_id r))"

definition limited_answers :: "'j tick_env \<Rightarrow> (Remote \<Rightarrow> str \<Rightarrow> ListedTask list) \<Rightarrow> Remote list \<Rightarrow> bool" where
  "limited_answers tk history remotes \<longleftrightarrow>
     (\<forall>r \<in> set remotes. \<forall>node since limit answer.
        (remote_ty r = Pve \<longrightarrow> tk_pve_tasks tk r node since limit = Inr answer \<longrightarrow> answers_query (history r node) since limit answer) \<and>
        (remote_ty r = Pbs \<longrightarrow> tk_pbs_tasks tk r since limit = Inr answer \<longrightarrow> answers_query (history r ''localhost'') since limit answer))"

definition unique_upids :: "(Remote \<Rightarrow> str \<Rightarrow> ListedTask list) \<Rightarrow> Remote list \<Rightarrow> bool" where
  "unique_upids history remotes \<longleftrightarrow>
     inj_on ti_upid {task_of r x | r node x. r \<in> set remotes \<and> x \<in> set (node_history history r node)}"

definition first_fetch :: "'j tick_env \<Rightarrow> Remote \<Rightarrow> str \<Rightarrow> int" where
  "first_fetch tk r node = wrap64 (tk_fetch_epoch tk r node - 7 * 24 * 3600)"

definition within_limit ::
  "'j tick_env \<Rightarrow> (Remote \<Rightarrow> str \<Rightarrow> ListedTask list) \<Rightarrow> Remote list \<Rightarrow> str \<Rightarrow> str \<Rightarrow> task_item set \<Rightarrow> int \<Rightarrow> bool" where
  "within_limit tk history remotes remote node H B \<longleftrightarrow>
     (\<forall>r \<in> set remotes. remote_id r = remote \<longrightarrow>
        H \<subseteq> task_of r ` set (node_history history r node) \<and> (\<forall>t \<in> H. first_fetch tk r node \<le> ti_starttime t) \<and>
        B \<le> first_fetch tk r node \<and> length (filter (\<lambda>x. B \<le> lt_starttime x) (node_history history r node)) \<le> 5000)"

text \<open>The cutoff of the node is not before \<open>B\<close>.\<close>

definition cutoff_from :: "int \<Rightarrow> str \<Rightarrow> str \<Rightarrow> task_state \<Rightarrow> bool" where
  "cutoff_from B remote node st \<longleftrightarrow> (\<forall>c. cutoff_timestamp st remote node = Some c \<longrightarrow> B \<le> c)"

lemma cutoff_from_default [simp]: "cutoff_from B remote node default_state"
  by (simp add: cutoff_from_def default_state_def cutoff_timestamp_def)

lemma single_node_answer:
  assumes "limited_answers tk history remotes" "r \<in> set remotes" "fetch_tasks_from_single_node tk st r node = Inr data"
  obtains answer where "data = map (task_of r) answer"
    "answers_query (node_history history r node) (fetch_since tk st r node) MAX_TASKS_TO_FETCH answer"
proof (cases "remote_ty r")
  case Pve
  with assms(3) obtain answer where "tk_pve_tasks tk r node (fetch_since tk st r node) MAX_TASKS_TO_FETCH = Inr answer"
    "data = map (task_of r) answer"
    by (cases "tk_pve_tasks tk r node (fetch_since tk st r node) MAX_TASKS_TO_FETCH")
      (auto simp: fetch_tasks_from_single_node_def Let_def task_of_def)
  with Pve assms(1,2) that show thesis by (auto simp: limited_answers_def node_history_def)
next
  case Pbs
  with assms(3) obtain answer where "tk_pbs_tasks tk r (fetch_since tk st r node) MAX_TASKS_TO_FETCH = Inr answer"
    "data = map (task_of r) answer"
    by (cases "tk_pbs_tasks tk r (fetch_since tk st r node) MAX_TASKS_TO_FETCH")
      (auto simp: fetch_tasks_from_single_node_def Let_def task_of_def)
  with Pbs assms(1,2) that show thesis by (auto simp: limited_answers_def node_history_def)
qed

lemma fetched_unique:
  assumes "limited_answers tk history remotes" "unique_upids history remotes" "fetch_remotes tk st remotes = Some (all, ok)"
  shows "inj_on ti_upid (set all)"
proof (rule inj_on_subset [OF assms(2) [unfolded unique_upids_def]], rule subsetI)
  fix t assume "t \<in> set all"
  from fetch_remotes_all [OF assms(3) this] obtain r n data where r: "r \<in> set remotes"
    "fetch_tasks_from_single_node tk st r n = Inr data" "t \<in> set data" by blast
  from single_node_answer [OF assms(1) r(1,2)] obtain answer where "data = map (task_of r) answer"
    "answers_query (node_history history r n) (fetch_since tk st r n) MAX_TASKS_TO_FETCH answer" .
  with r(1,3) show "t \<in> {task_of r x | r node x. r \<in> set remotes \<and> x \<in> set (node_history history r node)}"
    by (auto simp: answers_query_def)
qed

text \<open>A fetch from the node returns every task considered that started since the time asked for.\<close>

lemma fetched_all:
  assumes "limited_answers tk history remotes" "within_limit tk history remotes remote node H B"
    and "r \<in> set remotes" "remote_id r = remote" "fetch_tasks_from_single_node tk st r node = Inr data"
    and "cutoff_from B remote node st" and "t \<in> H" "will_fetch st remote node t"
  shows "t \<in> set data"
proof -
  let ?since = "fetch_since tk st r node"
  from assms(2-4) have H: "H \<subseteq> task_of r ` set (node_history history r node)"
    and first: "first_fetch tk r node \<le> ti_starttime t" "B \<le> first_fetch tk r node"
    and few: "length (filter (\<lambda>x. B \<le> lt_starttime x) (node_history history r node)) \<le> 5000"
    using assms(7) by (auto simp: within_limit_def)
  have window: "wrap64 (tk_fetch_epoch tk r node - int KEEP_OLD_FILES * ROTATE_AFTER) = first_fetch tk r node"
    by (simp add: first_fetch_def KEEP_OLD_FILES_def ROTATE_AFTER_def)
  have since: "?since \<le> ti_starttime t" "B \<le> ?since"
    using assms(4,6,8) first
    by (auto simp: fetch_since_def window will_fetch_def cutoff_from_def split: option.splits)
  from H assms(7) obtain x where x: "t = task_of r x" "x \<in> set (node_history history r node)" by blast
  have start: "lt_starttime x = ti_starttime t"
    by (simp add: x(1) task_of_def map_pve_task_def map_pbs_task_def split: RemoteType.split)
  obtain answer where data: "data = map (task_of r) answer"
    and answer: "answers_query (node_history history r node) ?since MAX_TASKS_TO_FETCH answer"
    using assms(1,3,5) by (rule single_node_answer)
  have "length (filter (\<lambda>x. ?since \<le> lt_starttime x) xs) \<le> length (filter (\<lambda>x. B \<le> lt_starttime x) xs)" for xs
    using since(2) by (induction xs) auto
  with few have "length (filter (\<lambda>x. ?since \<le> lt_starttime x) (node_history history r node)) \<le> MAX_TASKS_TO_FETCH"
    unfolding MAX_TASKS_TO_FETCH_def by (rule order_trans [rotated])
  with answer x(2) since(1) start have "x \<in> set answer" by (auto simp: answers_query_def)
  then show ?thesis by (simp add: data x(1))
qed

definition quiet :: "'j json \<Rightarrow> bool \<Rightarrow> archive_file list \<Rightarrow> str \<Rightarrow> str \<Rightarrow> task_item set \<Rightarrow> ('j task_fs \<Rightarrow> 'j task_fs) \<Rightarrow> bool" where
  "quiet J r L remote node H g \<longleftrightarrow>
     (\<forall>s. cover_inv J r L remote node H s \<longrightarrow>
        cover_inv J r L remote node H (g s) \<and> (\<forall>t \<in> H. known J L s t \<longrightarrow> known J L (g s) t))"

lemma on_cache_Inr:
  "on_cache m s = (Inr x, s') \<longleftrightarrow> (\<exists>fs. m (rf_fs s) = (Inr x, fs) \<and> s' = s\<lparr>rf_fs := fs\<rparr>)"
  by (auto simp: on_cache_def split: prod.splits sum.splits)

lemma locked_Inr:
  "locked m s = (Inr x, s') \<Longrightarrow> \<exists>sched. m (s\<lparr>fs_sched := sched\<rparr>) = (Inr x, s')"
proof (cases "fs_sched s")
  case Nil
  then have eq: "s\<lparr>fs_sched := []\<rparr> = s" by (cases s) simp
  assume "locked m s = (Inr x, s')"
  with Nil have "m s = (Inr x, s')" by (simp add: locked_def io_bind_def sys_def)
  then show ?thesis by (intro exI [of _ "[]"]) (simp only: eq)
next
  case (Cons f fs)
  moreover assume "locked m s = (Inr x, s')"
  ultimately show ?thesis by (cases f) (auto simp: locked_def io_bind_def sys_def)
qed

lemma fetch_and_update_covers:
  assumes J: "json_ok J" and inv: "cover_inv J r L remote node H (rf_fs s)"
    and st: "st = stored_state (rf_fs s) \<or> st = default_state"
    and run: "fetch_and_update J env tk st remotes polls s = (Inr (), s')"
    and at: "\<forall>t \<in> H. task_at env remote node t"
    and rely: "limited_answers tk history remotes" "unique_upids history remotes" "within_limit tk history remotes remote node H B"
      "quiet J r L remote node H (tk_meanwhile tk)"
    and from_B: "cutoff_from B remote node (stored_state (rf_fs s))"
  shows "cover_inv J r L remote node H (rf_fs s')"
    and "r' \<in> set remotes \<Longrightarrow> remote_id r' = remote \<Longrightarrow> has_node tk r' node \<Longrightarrow>
      fetch_tasks_from_single_node tk st r' node = Inr data \<Longrightarrow> t \<in> H \<Longrightarrow> ti_endtime t \<noteq> None \<Longrightarrow> known J L (rf_fs s') t"
proof -
  let ?fs = "tk_meanwhile tk (rf_fs s)"
  from run obtain all ok where f: "fetch_remotes tk st remotes = Some (all, ok)"
    by (cases "fetch_remotes tk st remotes") (auto simp: fetch_and_update_def io_fail_def)
  have mid: "cover_inv J r L remote node H ?fs" and mid_known: "\<And>t. t \<in> H \<Longrightarrow> known J L (rf_fs s) t \<Longrightarrow> known J L ?fs t"
    using rely(4) inv by (auto simp: quiet_def)
  have complete: "known J L ?fs t \<or> t \<in> set all" if t: "t \<in> H" and node: "node_successful ok remote node" for t
  proof -
    obtain r1 data where r1: "r1 \<in> set remotes" "remote_id r1 = remote"
      "fetch_tasks_from_single_node tk st r1 node = Inr data" "set data \<subseteq> set all"
      using fetch_remotes_sound [OF f node] by blast
    have "known J L (rf_fs s) t \<or> will_fetch st remote node t"
      using inv st t by (auto simp: cover_inv_def covered_def will_fetch_def default_state_def cutoff_timestamp_def)
    moreover have "cutoff_from B remote node st" using from_B st by auto
    then have "t \<in> set data" if "will_fetch st remote node t"
      using fetched_all [OF rely(1,3) r1(1,2,3)] t that by blast
    ultimately show ?thesis using mid_known t r1(4) by blast
  qed
  have inj: "inj_on ti_upid (set all)" by (rule fetched_unique [OF rely(1,2) f])
  consider (update) sched where "update_cache J env get_cache all ok (drop_tracked polls) (?fs\<lparr>fs_sched := sched\<rparr>) = (Inr (), rf_fs s')"
    | (nothing) "all = []" "rf_fs s' = ?fs"
    using run f
    by (auto simp: fetch_and_update_def io_bind_eq_Inr other_processes_def io_modify_def io_return_def on_cache_Inr
        update_task_cache_def dest!: locked_Inr split: if_splits)
  note cases = this
  show "cover_inv J r L remote node H (rf_fs s')"
    using cases
  proof cases
    case update
    show ?thesis
      by (rule update_covers(1) [OF J _ update at inj]) (use mid complete in \<open>auto simp: known_def\<close>)
  qed (use mid in simp)
  show "known J L (rf_fs s') t"
    if r': "r' \<in> set remotes" "remote_id r' = remote" "has_node tk r' node" "fetch_tasks_from_single_node tk st r' node = Inr data"
      and t: "t \<in> H" "ti_endtime t \<noteq> None"
  proof -
    have node: "node_successful ok remote node" using fetch_remotes_complete [OF f r'(1,3,4)] r'(2) by simp
    show ?thesis
      using cases
    proof cases
      case update
      show ?thesis
        by (rule update_covers(2) [OF J _ update at inj _ node t]) (use mid complete in \<open>auto simp: known_def\<close>)
    next
      case nothing
      then show ?thesis using complete [OF t(1) node] by simp
    qed
  qed
qed

text \<open>The phases before the fetch change neither the state file nor what is covered.\<close>

lemma io_inv_on_cache: "io_inv I m \<Longrightarrow> io_inv (\<lambda>s. I (rf_fs s)) (on_cache m)"
  unfolding io_inv_def on_cache_def by (fastforce split: prod.splits sum.splits)

lemma io_inv_locked: "sched_free I \<Longrightarrow> io_inv I m \<Longrightarrow> io_inv I (locked m)"
  unfolding locked_def by (intro io_inv_intros) simp_all

lemma io_inv_set_timer: "io_inv (\<lambda>s. I (rf_fs s)) (set_timer f)"
  unfolding set_timer_def by (rule io_inv_modify) simp

lemmas refresh_inv_intros = io_inv_intros io_inv_on_cache io_inv_locked io_inv_set_timer

lemma apply_if_due_inv:
  assumes "sched_free I" "io_inv I (apply_journal J)"
  shows "io_inv (\<lambda>s. I (rf_fs s)) (apply_journal_if_due J tk)"
  unfolding apply_journal_if_due_def apply_task_journal_def by (intro refresh_inv_intros assms)

lemma poll_phase_inv: "sched_free I \<Longrightarrow> io_inv (\<lambda>s. I (rf_fs s)) (poll_phase J tk config st)"
  unfolding poll_phase_def active_task_upids_def poll_tracked_tasks_def by (intro refresh_inv_intros)

lemma choose_remotes_inv: "io_inv (\<lambda>s. I (rf_fs s)) (choose_remotes tk config polls)"
  unfolding choose_remotes_def by (intro refresh_inv_intros)

lemma choose_remotes_subset:
  "choose_remotes tk config polls s = (Inr remotes, s') \<Longrightarrow> set remotes \<subseteq> snd ` set config"
proof -
  have "set (get_remotes_with_finished_tasks config polls) \<subseteq> snd ` set config"
    by (force simp: get_remotes_with_finished_tasks_def Let_def set_map_filter split: if_splits)
  moreover assume "choose_remotes tk config polls s = (Inr remotes, s')"
  ultimately show ?thesis
    by (auto simp: choose_remotes_def io_bind_eq_Inr io_get_def set_timer_def io_modify_def io_return_def get_all_remotes_def
        split: if_splits)
qed

lemma io_invD_Inr: "io_inv I m \<Longrightarrow> I s \<Longrightarrow> m s = (Inr x, s') \<Longrightarrow> I s'"
  by (metis io_invD snd_conv)

lemma rely_mono:
  assumes "set rs \<subseteq> set remotes"
  shows "limited_answers tk history remotes \<Longrightarrow> limited_answers tk history rs"
    and "unique_upids history remotes \<Longrightarrow> unique_upids history rs"
    and "within_limit tk history remotes remote node H B \<Longrightarrow> within_limit tk history rs remote node H B"
  using assms unfolding limited_answers_def unique_upids_def within_limit_def
  by (blast, elim inj_on_subset, blast, blast)

text \<open>Applying the journal moves no cutoff before the start of the oldest archive file.\<close>

lemma cutoff_from_repair:
  assumes "\<forall>f \<in> set fs. B \<le> af_starttime f"
  shows "io_inv (\<lambda>s. cutoff_from B remote node (stored_state s)) (request_repair fs)"
  unfolding io_inv_def
proof (intro allI impI)
  fix s :: "'a task_fs" assume low: "cutoff_from B remote node (stored_state s)"
  obtain x st0 where rd: "read_state s = (Inr st0, s\<lparr>fs_sched := x\<rparr>)" and st0: "st0 = stored_state s \<or> st0 = default_state"
    by (rule read_state_run)
  have "cutoff_from B remote node st0" using low st0 by auto
  then have "cutoff_from B remote node (st0\<lparr>st_remote_state :=
      (\<lambda>r. map_option (\<lambda>rs. rs\<lparr>rs_node_state := (\<lambda>n. map_option (\<lambda>ns. ns\<lparr>ns_cutoff := min (ns_cutoff ns) (Min (set (map af_starttime fs)))\<rparr>)
         (rs_node_state rs n))\<rparr>) (st_remote_state st0 r))\<rparr>)" if "fs \<noteq> []"
    using that assms unfolding cutoff_from_def cutoff_repair by auto
  with low show "cutoff_from B remote node (stored_state (snd (request_repair fs s)))"
    by (auto simp: request_repair_def Let_def io_bind_def rd io_return_def write_state_def sys_def split: list.split fault.split)
qed

abbreviation loop_files :: "merge_loop \<Rightarrow> archive_file set" where
  "loop_files l \<equiv> (case l of (cur, rest, batch, corrupted) \<Rightarrow> set_option cur \<union> set rest \<union> set corrupted)"

lemma merge_advance_files:
  assumes "set_option cur \<union> set rest \<union> set corrupted \<subseteq> F"
  shows "io_triple (\<lambda>s. archive_set s = F) (merge_advance J t cur rest batch corrupted)
    (\<lambda>l s. loop_files l \<subseteq> F \<and> archive_set s = F) (\<lambda>s. archive_set s = F)"
  using assms
proof (induction J t cur rest batch corrupted rule: merge_advance.induct)
  case (3 J task c f fs batch corrupted)
  have "io_triple (\<lambda>s. archive_set s = F) (merge_advance J task (Some f) fs [] (if st = Corrupted then corrupted @ [c] else corrupted))
      (\<lambda>l s. loop_files l \<subseteq> F \<and> archive_set s = F) (\<lambda>s. archive_set s = F)" if "\<not> af_starttime c \<le> ti_starttime task" for st
    by (rule "3.IH" [OF that]) (use "3.prems" in auto)
  note next_file = this
  show ?case
    unfolding merge_advance.simps
    by (intro io_triple_if io_triple_return io_triple_bind [OF io_triple_inv [OF io_inv_names_merge_single]] next_file)
      (use "3.prems" in simp_all)
qed (simp_all add: io_triple_return)

lemma merge_corrupted:
  "io_triple (\<lambda>s. archive_set s = F) (merge_tasks_into_archive J ts)
     (\<lambda>corrupted s. set corrupted \<subseteq> F \<and> archive_set s = F) (\<lambda>s. archive_set s = F)"
proof -
  have files: "io_triple (\<lambda>s. archive_set s = F) archive_files (\<lambda>fs s. set fs \<subseteq> F \<and> archive_set s = F) (\<lambda>s. archive_set s = F)"
    unfolding archive_files_def archive_files_with_dupes_def
    by (rule io_triple_bind, rule io_triple_sys [where Q = "\<lambda>fs s. set fs = F \<and> archive_set s = F"])
      (auto simp: set_list_archives dedup_archives_def dest: subsetD [OF set_dedup_by_subset] intro!: io_triple_return)
  have step: "io_triple (\<lambda>s. archive_set s = F) (merge_step J t l) (\<lambda>l s. loop_files l \<subseteq> F \<and> archive_set s = F)
      (\<lambda>s. archive_set s = F)" if "loop_files l \<subseteq> F" for t l
  proof -
    obtain cur rest batch corrupted where l: "l = (cur, rest, batch, corrupted)" by (cases l)
    have "loop_files (merge_collect t l') = loop_files l'" for l' by (auto simp: merge_collect_def split: prod.split)
    with that show ?thesis
      unfolding merge_step_def l prod.case
      by (intro io_triple_bind [OF merge_advance_files] io_triple_return) (simp_all add: l)
  qed
  have last: "io_triple (\<lambda>s. loop_files l \<subseteq> F \<and> archive_set s = F)
      (case l of (cur, _, batch, corrupted) \<Rightarrow>
         case cur of None \<Rightarrow> io_return corrupted
         | Some c \<Rightarrow> io_bind (merge_single_archive_file J batch c)
             (\<lambda>st. io_return (if st = Corrupted then corrupted @ [c] else corrupted)))
      (\<lambda>corrupted s. set corrupted \<subseteq> F \<and> archive_set s = F) (\<lambda>s. archive_set s = F)" for l
  proof (rule io_triple_pure)
    obtain cur rest batch corrupted where l: "l = (cur, rest, batch, corrupted)" by (cases l)
    assume sub: "loop_files l \<subseteq> F"
    show "io_triple (\<lambda>s. archive_set s = F)
      (case l of (cur, _, batch, corrupted) \<Rightarrow>
         case cur of None \<Rightarrow> io_return corrupted
         | Some c \<Rightarrow> io_bind (merge_single_archive_file J batch c)
             (\<lambda>st. io_return (if st = Corrupted then corrupted @ [c] else corrupted)))
      (\<lambda>corrupted s. set corrupted \<subseteq> F \<and> archive_set s = F) (\<lambda>s. archive_set s = F)"
      unfolding l prod.case
      by (intro io_triple_case_option io_triple_return io_triple_bind [OF io_triple_inv [OF io_inv_names_merge_single]])
        (use sub in \<open>simp_all add: l\<close>)
  qed
  show ?thesis
    unfolding merge_tasks_into_archive_def
    by (rule io_triple_bind [OF files], rule io_triple_pure)
      (rule io_triple_bind [OF io_triple_fold [where I = "\<lambda>l. loop_files l \<subseteq> F", OF step] last];
        auto split: list.split)
qed

lemma cutoff_from_apply_journal:
  assumes "\<forall>f \<in> F. B \<le> af_starttime f"
  shows "io_inv (\<lambda>s. archive_set s = F \<and> cutoff_from B remote node (stored_state s)) (apply_journal J)"
proof -
  let ?C = "\<lambda>s. cutoff_from B remote node (stored_state s)"
  have merge: "io_triple (\<lambda>s. archive_set s = F \<and> ?C s) (merge_tasks_into_archive J ts)
      (\<lambda>corrupted s. set corrupted \<subseteq> F \<and> ?C s) ?C" for ts
    by (rule io_triple_conseq [OF io_triple_conj [OF merge_corrupted io_triple_inv [OF dir_free_merge [OF dir_free_state [where P = "cutoff_from B remote node"]]]]]) auto
  have trunc: "io_triple ?C truncate_journal (\<lambda>_. ?C) ?C"
    unfolding truncate_journal_def by (rule io_triple_inv, intro io_inv_intros) (simp_all add: sched_free_def)
  have repair: "io_triple ?C (if corrupted = [] then io_return () else request_repair corrupted) (\<lambda>_. ?C) ?C"
    if "set corrupted \<subseteq> F" for corrupted
    by (intro io_triple_if io_triple_return io_triple_inv cutoff_from_repair) (use assms that in auto)
  have run: "io_triple (\<lambda>s. archive_set s = F \<and> ?C s) (apply_journal J) (\<lambda>_. ?C) ?C"
    unfolding apply_journal_def
    by (rule io_triple_bind, rule io_triple_sys [where Q = "\<lambda>_ s. archive_set s = F \<and> ?C s"])
      (auto simp: sched_free_def split: option.split prod.split
        intro!: io_triple_return io_triple_bind [OF merge] io_triple_pure io_triple_bind [OF trunc] repair)
  have names: "io_triple (\<lambda>s. archive_set s = F) (apply_journal J) (\<lambda>_ s. archive_set s = F) (\<lambda>s. archive_set s = F)"
    by (rule io_triple_inv [OF io_inv_names_apply])
  show ?thesis
    unfolding io_inv_triple by (rule io_triple_conseq [OF io_triple_conj [OF run names]]) auto
qed

lemma read_state_keeps:
  assumes "read_state s = (Inr st, s')" "sched_free I" "I s"
  shows "I s'" and "st = stored_state s' \<or> st = default_state"
proof -
  obtain x st0 where "read_state s = (Inr st0, s\<lparr>fs_sched := x\<rparr>)" "st0 = stored_state s \<or> st0 = default_state"
    by (rule read_state_run)
  with assms show "I s'" "st = stored_state s' \<or> st = default_state" by (auto simp: sched_freeD)
qed

section \<open>An example\<close>

text \<open>A remote with one node that lists a running and a finished task; nothing has been fetched yet.\<close>

definition pve1 :: Remote where
  "pve1 = \<lparr>remote_ty = Pve, remote_id = ''r1''\<rparr>"

definition listed :: "ListedTask list" where
  "listed =
     [\<lparr>lt_upid = ''UPID:pve:r'', lt_starttime = 20, lt_endtime = None, lt_status = None\<rparr>,
      \<lparr>lt_upid = ''UPID:pve:f'', lt_starttime = 30, lt_endtime = Some 31, lt_status = None\<rparr>]"

definition example_tick :: "task_item option list tick_env" where
  "example_tick =
     \<lparr>tk_instant = (\<lambda>_. 1000), tk_epoch = 0, tk_fetch_epoch = (\<lambda>_ _. 0), tk_config = Inr [(''r1'', pve1)],
      tk_list_nodes = (\<lambda>_. Inr [''pve'']),
      tk_pve_tasks = (\<lambda>_ _ since limit. Inr (take limit (filter (\<lambda>t. since \<le> lt_starttime t) listed))),
      tk_pbs_tasks = (\<lambda>_ _ _. Inr []), tk_status = (\<lambda>_ _. Inr None), tk_response_time = (\<lambda>_ _. 0),
      tk_schedule = (\<lambda>rs. if rs = [] then [] else [(0, Acquire), (0, Listed), (0, SpawnNode), (0, NodeDone ''pve''), (0, Complete)]),
      tk_join_error = (\<lambda>_. False), tk_walk = (\<lambda>_. []), tk_meanwhile = (\<lambda>s. s)\<rparr>"

definition example_refresh :: "task_item option list refresh" where
  "example_refresh =
     \<lparr>rf_fs = sample_fs,
      rf_timers = \<lparr>last_rotate_check = 1000, last_fetch = 0, last_journal_apply = - 4000, last_active_poll = 0\<rparr>\<rparr>"

lemma tick_example: "fst (handle_timer_tick frag_json ascii_upid_env example_tick example_refresh) = Inr ()"
  by code_simp

definition example_tasks :: "task_item set" where
  "example_tasks = set (map (\<lambda>t. map_pve_task t ''r1'') listed)"

lemma example_at: "\<forall>t \<in> example_tasks. task_at ascii_upid_env ''r1'' ''pve'' t"
  unfolding example_tasks_def by code_simp

lemma example_covered: "cover_inv frag_json ranged (listing sample_fs) ''r1'' ''pve'' example_tasks (rf_fs example_refresh)"
  by (simp add: cover_inv_def files_ok_def covered_def will_fetch_def stored_state_def default_state_def cutoff_timestamp_def
      example_refresh_def cache_inv_sample clean_sample sample_fs_def [THEN arg_cong, of fs_state])

lemma example_fetch:
  "fetch_tasks_from_single_node example_tick st pve1 node =
     Inr (map (\<lambda>t. map_pve_task t ''r1'') (filter (\<lambda>t. fetch_since example_tick st pve1 node \<le> lt_starttime t) listed))"
proof -
  have "length (filter P listed) \<le> 5000" for P
    using length_filter_le [of P listed] by (simp add: listed_def)
  then show ?thesis
    by (simp add: fetch_tasks_from_single_node_def Let_def pve1_def example_tick_def MAX_TASKS_TO_FETCH_def)
qed

lemma example_files:
  "\<forall>f \<in> set (listing sample_fs). - 604800 \<le> af_starttime f" "cutoff_timestamp (stored_state sample_fs) r n = None"
  by code_simp (simp add: stored_state_def sample_fs_def default_state_def cutoff_timestamp_def)

definition example_history :: "Remote \<Rightarrow> str \<Rightarrow> ListedTask list" where
  "example_history r node = listed"

lemma example_relies:
  "limited_answers example_tick example_history [pve1]" "unique_upids example_history [pve1]"
  "within_limit example_tick example_history [pve1] ''r1'' ''pve'' example_tasks (- 604800)"
  "quiet frag_json ranged L remote node H (tk_meanwhile example_tick)"
proof -
  have short: "length (filter P listed) \<le> 2" for P
    using length_filter_le [of P listed] by (simp add: listed_def)
  show "limited_answers example_tick example_history [pve1]"
    by (auto simp: limited_answers_def answers_query_def example_tick_def example_history_def pve1_def dest: in_set_takeD)
  have "inj_on ti_upid example_tasks"
    by (auto simp: inj_on_def example_tasks_def listed_def map_pve_task_def remote_upid_new_def)
  then show "unique_upids example_history [pve1]"
    unfolding unique_upids_def
    by (rule inj_on_subset) (auto simp: example_tasks_def task_of_def node_history_def example_history_def pve1_def)
  show "within_limit example_tick example_history [pve1] ''r1'' ''pve'' example_tasks (- 604800)"
    using short [THEN order_trans, of 5000]
    by (auto simp: within_limit_def example_tasks_def task_of_def node_history_def example_history_def pve1_def first_fetch_def
        example_tick_def wrap64_def) (auto simp: listed_def map_pve_task_def)
qed (simp add: quiet_def example_tick_def)

section \<open>Properties\<close>





end
