(* ===== verification/RemoteTaskList.thy ===== *)
theory RemoteTaskList
  imports RefreshProps
begin

text \<open>
  Listing the cached tasks, from \<^verbatim>\<open>server/src/remote_tasks/mod.rs\<close> and the API handlers of
  \<^verbatim>\<open>server/src/api/remotes/tasks.rs\<close>: filters, permissions, statistics, the manual refresh and the functions that
  start tracking a task. The fields of a native UPID beyond the node name are a parameter. The iterator over the
  cache is lazy: \<open>seen\<close> says which corrupted files it had come across when the page was full. Counters are natural
  numbers.
\<close>

section \<open>Filters\<close>

datatype TaskStateType = StateOk | StateWarning | StateError | StateUnknown

definition new_from_str :: "str \<Rightarrow> TaskStateType" where
  "new_from_str status =
     (if status = ''unknown'' \<or> status = [] then StateUnknown
      else if status = ''OK'' then StateOk
      else if starts_with ''WARNINGS: '' status then StateWarning
      else StateError)"

record TaskFilters =
  tf_start :: nat
  tf_limit :: nat
  tf_errors :: bool
  tf_running :: bool
  tf_userfilter :: "str option"
  tf_since :: "int option"
  tf_until :: "int option"
  tf_typefilter :: "str option"
  tf_statusfilter :: "TaskStateType list option"

record TaskListItem =
  tl_upid :: str
  tl_node :: str
  tl_pid :: int
  tl_pstart :: nat
  tl_starttime :: int
  tl_worker_type :: str
  tl_worker_id :: "str option"
  tl_user :: str
  tl_endtime :: "int option"
  tl_status :: "str option"

text \<open>\<^verbatim>\<open>str::contains\<close>.\<close>

fun str_contains :: "str \<Rightarrow> str \<Rightarrow> bool" where
  "str_contains s needle = (starts_with needle s \<or> (case s of [] \<Rightarrow> False | _ # s' \<Rightarrow> str_contains s' needle))"

definition filter_task :: "TaskFilters \<Rightarrow> TaskListItem \<Rightarrow> bool" where
  "filter_task filters item =
     (if tf_running filters \<and> tl_endtime item \<noteq> None then False
      else if (case tf_until filters of Some u \<Rightarrow> u < tl_starttime item | None \<Rightarrow> False) then False
      else if (case tf_since filters of Some s \<Rightarrow> tl_starttime item < s | None \<Rightarrow> False) then False
      else if (case tf_userfilter filters of Some needle \<Rightarrow> \<not> str_contains (tl_user item) needle | None \<Rightarrow> False) then False
      else if (case tf_typefilter filters of Some t \<Rightarrow> \<not> str_contains (tl_worker_type item) t | None \<Rightarrow> False) then False
      else case (map_option new_from_str (tl_status item), tf_statusfilter filters) of
             (Some StateOk, sf) \<Rightarrow>
               if tf_errors filters then False
               else (case sf of Some fs \<Rightarrow> StateOk \<in> set fs | None \<Rightarrow> True)
           | (Some state, Some fs) \<Rightarrow> state \<in> set fs
           | (None, Some _) \<Rightarrow> False
           | (None, None) \<Rightarrow> \<not> tf_errors filters
           | (Some _, None) \<Rightarrow> True)"

section \<open>Tasks\<close>

record upid_fields =
  uf_pid :: int
  uf_pstart :: nat
  uf_starttime :: int
  uf_worker_type :: str
  uf_worker_id :: "str option"
  uf_auth_id :: str

record task_env =
  te_upid :: upid_env
  te_fields :: "remote_upid \<Rightarrow> upid_fields"

definition list_item :: "task_env \<Rightarrow> task_item \<Rightarrow> str \<Rightarrow> str option \<Rightarrow> TaskListItem" where
  "list_item E task node worker_id =
     (let f = te_fields E (ti_upid task)
      in \<lparr>tl_upid = show_upid (ti_upid task), tl_node = node, tl_pid = uf_pid f, tl_pstart = uf_pstart f,
          tl_starttime = uf_starttime f, tl_worker_type = uf_worker_type f, tl_worker_id = worker_id,
          tl_user = uf_auth_id f, tl_endtime = ti_endtime task, tl_status = ti_status task\<rparr>)"

definition task_visible :: "ViewConfig option \<Rightarrow> (str \<Rightarrow> bool) \<Rightarrow> str \<Rightarrow> str \<Rightarrow> bool" where
  "task_visible view check_privs remote node =
     (case view of Some v \<Rightarrow> is_node_included v remote node | None \<Rightarrow> check_privs remote)"

definition list_task ::
  "task_env \<Rightarrow> str option \<Rightarrow> ViewConfig option \<Rightarrow> (str \<Rightarrow> bool) \<Rightarrow> task_item \<Rightarrow> TaskListItem option" where
  "list_task E remote_filter view check_privs task =
     (let remote = ru_remote (ti_upid task)
      in if (case remote_filter of Some r \<Rightarrow> remote \<noteq> r | None \<Rightarrow> False) then None
         else case native_upid (te_upid E) (ti_upid task) of
                Inr (PveUpid u) \<Rightarrow>
                  if task_visible view check_privs remote (pve_node u) then Some (list_item E task (pve_node u) None) else None
              | Inr (PbsUpid u) \<Rightarrow>
                  if task_visible view check_privs remote (pbs_node u)
                  then Some (list_item E task (pbs_node u) (uf_worker_id (te_fields E (ti_upid task)))) else None
              | Inl _ \<Rightarrow> None)"

definition page :: "TaskFilters \<Rightarrow> 'x list \<Rightarrow> 'x list" where
  "page filters xs =
     (let xs = drop (tf_start filters) xs in if tf_limit filters = 0 then xs else take (tf_limit filters) xs)"

definition select_tasks ::
  "task_env \<Rightarrow> TaskFilters \<Rightarrow> str option \<Rightarrow> ViewConfig option \<Rightarrow> (str \<Rightarrow> bool) \<Rightarrow> task_item list \<Rightarrow> TaskListItem list" where
  "select_tasks E filters remote_filter view check_privs tasks =
     page filters (filter (filter_task filters) (List.map_filter (list_task E remote_filter view check_privs) tasks))"

definition get_tasks ::
  "'j json \<Rightarrow> task_env \<Rightarrow> (archive_file \<Rightarrow> bool) \<Rightarrow> TaskFilters \<Rightarrow> str option \<Rightarrow> ViewConfig option \<Rightarrow> (str \<Rightarrow> bool) \<Rightarrow>
     ('j, TaskListItem list) cache_io" where
  "get_tasks J E seen filters remote_filter view check_privs =
     locked (io_bind (get_tasks_impl J (if tf_running filters then Active else All))
       (\<lambda>(tasks, corrupted).
          let corrupted = filter (\<lambda>f. tf_limit filters = 0 \<or> seen f) corrupted
          in io_bind (if corrupted \<noteq> [] then io_bind (io_try (locked (request_repair corrupted))) (\<lambda>_. io_return ())
                      else io_return ())
               (\<lambda>_. io_return (select_tasks E filters remote_filter view check_privs tasks))))"

text \<open>Tracking a task that was just started: the same code for both types of remotes, with the start time of the UPID.\<close>

datatype track_error = BadUpid upid_error | TrackCacheError cache_error

definition track_running_task :: "'j json \<Rightarrow> upid_env \<Rightarrow> str \<Rightarrow> str \<Rightarrow> int \<Rightarrow> 'j task_fs \<Rightarrow> (track_error + remote_upid) \<times> 'j task_fs" where
  "track_running_task J env remote upid starttime s =
     (case try_from_pair env remote upid of
        Inl e \<Rightarrow> (Inl (BadUpid e), s)
      | Inr u \<Rightarrow>
          (case locked (add_tracked_task J \<lparr>ti_upid = u, ti_starttime = starttime, ti_status = None, ti_endtime = None\<rparr>) s of
             (Inl e, s') \<Rightarrow> (Inl (TrackCacheError e), s')
           | (Inr _, s') \<Rightarrow> (Inr u, s')))"

section \<open>The API\<close>

datatype task_list_error = AccessError list_error | TasksError cache_error

definition list_tasks ::
  "'j json \<Rightarrow> task_env \<Rightarrow> 'a acl_env \<Rightarrow> list_config \<Rightarrow> (archive_file \<Rightarrow> bool) \<Rightarrow> 'a option \<Rightarrow> TaskFilters \<Rightarrow> str option \<Rightarrow> str option \<Rightarrow>
     'j task_fs \<Rightarrow> (task_list_error + TaskListItem list) \<times> 'j task_fs" where
  "list_tasks J E A cfg seen caller filters remote view s =
     (case caller of
        None \<Rightarrow> (Inl (AccessError NoAuthId), s)
      | Some auth_id \<Rightarrow>
          if (case view of Some v \<Rightarrow> \<not> acl_check_privs A auth_id [''view'', v] PRIV_RESOURCE_AUDIT False | None \<Rightarrow> False)
          then (Inl (AccessError PermissionDenied), s)
          else case get_optional_view cfg view of
                 Inl e \<Rightarrow> (Inl (AccessError e), s)
               | Inr v \<Rightarrow> map_prod (map_sum TasksError (\<lambda>x. x)) (\<lambda>x. x) (get_tasks J E seen filters remote v (check_remote_priv A auth_id) s))"

record TaskCount =
  tc_ok :: nat
  tc_warning :: nat
  tc_error :: nat
  tc_unknown :: nat

definition zero_count :: TaskCount where
  "zero_count = \<lparr>tc_ok = 0, tc_warning = 0, tc_error = 0, tc_unknown = 0\<rparr>"

definition count_status :: "TaskStateType \<Rightarrow> TaskCount \<Rightarrow> TaskCount" where
  "count_status status c =
     (case status of
        StateOk \<Rightarrow> c\<lparr>tc_ok := tc_ok c + 1\<rparr>
      | StateWarning \<Rightarrow> c\<lparr>tc_warning := tc_warning c + 1\<rparr>
      | StateError \<Rightarrow> c\<lparr>tc_error := tc_error c + 1\<rparr>
      | StateUnknown \<Rightarrow> c\<lparr>tc_unknown := tc_unknown c + 1\<rparr>)"

definition count_entry :: "str \<Rightarrow> TaskStateType \<Rightarrow> (str, TaskCount) alist \<Rightarrow> (str, TaskCount) alist" where
  "count_entry k status m = al_put k (count_status status (case al_get m k of Some c \<Rightarrow> c | None \<Rightarrow> zero_count)) m"

record TaskStatistics =
  ts_by_type :: "(str, TaskCount) alist"
  ts_by_remote :: "(str, TaskCount) alist"

definition count_task :: "upid_env \<Rightarrow> TaskListItem \<Rightarrow> TaskStatistics \<Rightarrow> TaskStatistics" where
  "count_task env task stats =
     (case tl_status task of
        None \<Rightarrow> stats
      | Some text \<Rightarrow>
          let status = new_from_str text;
              stats = stats\<lparr>ts_by_type := count_entry (tl_worker_type task) status (ts_by_type stats)\<rparr>
          in case upid_from_str env (tl_upid task) of
               Inl _ \<Rightarrow> stats
             | Inr u \<Rightarrow> stats\<lparr>ts_by_remote := count_entry (ru_remote u) status (ts_by_remote stats)\<rparr>)"

definition statistics_of :: "upid_env \<Rightarrow> TaskListItem list \<Rightarrow> TaskStatistics" where
  "statistics_of env tasks = fold (count_task env) tasks \<lparr>ts_by_type = [], ts_by_remote = []\<rparr>"

definition task_statistics ::
  "'j json \<Rightarrow> task_env \<Rightarrow> 'a acl_env \<Rightarrow> list_config \<Rightarrow> (archive_file \<Rightarrow> bool) \<Rightarrow> 'a option \<Rightarrow> TaskFilters \<Rightarrow> str option \<Rightarrow> str option \<Rightarrow>
     'j task_fs \<Rightarrow> (task_list_error + TaskStatistics) \<times> 'j task_fs" where
  "task_statistics J E A cfg seen caller filters remote view s =
     map_prod (map_sum (\<lambda>e. e) (statistics_of (te_upid E))) (\<lambda>x. x) (list_tasks J E A cfg seen caller filters remote view s)"

datatype refresh_request_error = RefreshConfigError | RefreshForbidden | RefreshNotFound | RefreshAclError

text \<open>The remotes that the worker of \<^verbatim>\<open>refresh_remote_tasks\<close> passes to \<open>refresh_taskcache\<close>.\<close>

primrec named_remotes ::
  "'a acl_env \<Rightarrow> 'a \<Rightarrow> (str, Remote) alist \<Rightarrow> str list \<Rightarrow> refresh_request_error + Remote list" where
  "named_remotes A auth_id config [] = Inr []"
| "named_remotes A auth_id config (name # names) =
     (if \<not> acl_check_privs A auth_id [''resource'', name] PRIV_RESOURCE_MODIFY False then Inl RefreshForbidden
      else case al_get config name of
             None \<Rightarrow> Inl RefreshNotFound
           | Some r \<Rightarrow> map_sum (\<lambda>e. e) ((#) r) (named_remotes A auth_id config names))"

definition refresh_remote_tasks ::
  "'a acl_env \<Rightarrow> (str, Remote) alist option \<Rightarrow> 'a \<Rightarrow> str list option \<Rightarrow> refresh_request_error + Remote list" where
  "refresh_remote_tasks A config auth_id remotes =
     (case config of
        None \<Rightarrow> Inl RefreshConfigError
      | Some config \<Rightarrow>
          (case remotes of
             Some names \<Rightarrow> named_remotes A auth_id config names
           | None \<Rightarrow>
               (case acl_any_privs_below A auth_id [''resource''] PRIV_RESOURCE_MODIFY of
                  None \<Rightarrow> Inl RefreshAclError
                | Some False \<Rightarrow> Inl RefreshForbidden
                | Some True \<Rightarrow>
                    Inr (List.map_filter
                      (\<lambda>(name, remote).
                         if acl_check_privs A auth_id [''resource'', name] PRIV_RESOURCE_MODIFY False then Some remote else None)
                      config))))"

section \<open>What is listed\<close>

text \<open>The node of a cached task, and whether the caller may see the tasks of a node.\<close>

definition task_node :: "upid_env \<Rightarrow> task_item \<Rightarrow> str option" where
  "task_node env task =
     (case native_upid env (ti_upid task) of
        Inr (PveUpid u) \<Rightarrow> Some (pve_node u) | Inr (PbsUpid u) \<Rightarrow> Some (pbs_node u) | Inl _ \<Rightarrow> None)"

definition may_see :: "'a acl_env \<Rightarrow> list_config \<Rightarrow> 'a \<Rightarrow> str option \<Rightarrow> str \<Rightarrow> str \<Rightarrow> bool" where
  "may_see A cfg auth_id view remote node \<longleftrightarrow>
     (case view of
        None \<Rightarrow> acl_check_privs A auth_id [''resource'', remote] PRIV_RESOURCE_AUDIT False
      | Some v \<Rightarrow> acl_check_privs A auth_id [''view'', v] PRIV_RESOURCE_AUDIT False \<and>
                (\<exists>vc. get_view cfg v = Inr vc \<and> is_node_included vc remote node))"

definition item_of :: "task_env \<Rightarrow> task_item \<Rightarrow> TaskListItem \<Rightarrow> bool" where
  "item_of E task item \<longleftrightarrow>
     (\<exists>node worker_id. task_node (te_upid E) task = Some node \<and> item = list_item E task node worker_id)"

lemma list_task_iff:
  "list_task E remote_filter view check_privs task = Some item \<longleftrightarrow>
     (\<forall>r. remote_filter = Some r \<longrightarrow> ru_remote (ti_upid task) = r) \<and>
     (\<exists>node. task_node (te_upid E) task = Some node \<and> task_visible view check_privs (ru_remote (ti_upid task)) node \<and>
        item = list_item E task node
          (case native_upid (te_upid E) (ti_upid task) of
             Inr (PbsUpid _) \<Rightarrow> uf_worker_id (te_fields E (ti_upid task)) | _ \<Rightarrow> None))"
  by (auto simp: list_task_def task_node_def Let_def split: option.splits sum.splits NativeUpid.splits if_splits)

text \<open>Which entries match the filters, and which tasks are shown to a caller and how.\<close>

definition matches :: "TaskFilters \<Rightarrow> TaskListItem \<Rightarrow> bool" where
  "matches filters item \<longleftrightarrow>
     (tf_running filters \<longrightarrow> tl_endtime item = None) \<and>
     (\<forall>u. tf_until filters = Some u \<longrightarrow> tl_starttime item \<le> u) \<and>
     (\<forall>s. tf_since filters = Some s \<longrightarrow> s \<le> tl_starttime item) \<and>
     (\<forall>x. tf_userfilter filters = Some x \<longrightarrow> (\<exists>p q. tl_user item = p @ x @ q)) \<and>
     (\<forall>x. tf_typefilter filters = Some x \<longrightarrow> (\<exists>p q. tl_worker_type item = p @ x @ q)) \<and>
     (\<forall>states. tf_statusfilter filters = Some states \<longrightarrow> (\<exists>x. tl_status item = Some x \<and> new_from_str x \<in> set states)) \<and>
     (tf_errors filters \<longrightarrow> (\<exists>x. tl_status item = Some x \<and> new_from_str x \<noteq> StateOk))"

definition shown :: "task_env \<Rightarrow> 'a acl_env \<Rightarrow> list_config \<Rightarrow> 'a \<Rightarrow> str option \<Rightarrow> str option \<Rightarrow> task_item \<Rightarrow> bool" where
  "shown E A cfg auth_id view remote task \<longleftrightarrow>
     (\<forall>r. remote = Some r \<longrightarrow> ru_remote (ti_upid task) = r) \<and>
     (\<exists>node. task_node (te_upid E) task = Some node \<and> may_see A cfg auth_id view (ru_remote (ti_upid task)) node)"

definition entry_of :: "task_env \<Rightarrow> task_item \<Rightarrow> TaskListItem" where
  "entry_of E task =
     list_item E task (the (task_node (te_upid E) task))
       (case native_upid (te_upid E) (ti_upid task) of
          Inr (PbsUpid _) \<Rightarrow> uf_worker_id (te_fields E (ti_upid task)) | _ \<Rightarrow> None)"

lemma str_contains_iff: "str_contains s needle \<longleftrightarrow> (\<exists>p q. s = p @ needle @ q)"
proof (induction s)
  case Nil
  show ?case by (subst str_contains.simps) (auto simp: starts_with_def)
next
  case (Cons c s)
  have "starts_with needle (c # s) \<longleftrightarrow> (\<exists>q. c # s = needle @ q)"
    unfolding starts_with_def by (metis append_eq_conv_conj append_take_drop_id)
  moreover have "(\<exists>p q. c # s = p @ needle @ q) \<longleftrightarrow> (\<exists>q. c # s = needle @ q) \<or> (\<exists>p q. s = p @ needle @ q)"
    by (metis append_Cons append_Nil list.sel(3) tl_append2)
  ultimately show ?case
    using Cons by (subst str_contains.simps) simp
qed

lemma filter_task_matches: "filter_task filters = matches filters"
proof
  fix item
  show "filter_task filters item = matches filters item"
    unfolding filter_task_def matches_def str_contains_iff
    by (cases "tl_status item"; cases "tf_statusfilter filters"; cases "map_option new_from_str (tl_status item)";
        cases "the (map_option new_from_str (tl_status item))") (auto split: option.splits)
qed

lemma map_filter_list_task:
  assumes "task_visible v check = may_see A cfg auth_id view"
  shows "List.map_filter (list_task E remote v check) tasks = map (entry_of E) (filter (shown E A cfg auth_id view remote) tasks)"
proof (induction tasks)
  case (Cons task tasks)
  have "list_task E remote v check task = (if shown E A cfg auth_id view remote task then Some (entry_of E task) else None)"
  proof (cases "list_task E remote v check task")
    case None
    then have "\<not> shown E A cfg auth_id view remote task"
      using list_task_iff [of E remote v check task] unfolding shown_def assms by fastforce
    with None show ?thesis by simp
  next
    case (Some item)
    then have "shown E A cfg auth_id view remote task \<and> item = entry_of E task"
      unfolding list_task_iff shown_def entry_of_def assms by auto
    with Some show ?thesis by simp
  qed
  with Cons.IH show ?case by (simp add: map_filter_simps)
qed (simp add: map_filter_simps)

lemma set_page: "set (page filters xs) \<subseteq> set xs"
  by (auto simp: page_def Let_def dest: in_set_takeD in_set_dropD)

lemma page_nth:
  "length (page filters xs) = (if tf_limit filters = 0 then length xs - tf_start filters
     else min (tf_limit filters) (length xs - tf_start filters)) \<and>
   (\<forall>i < length (page filters xs). page filters xs ! i = xs ! (tf_start filters + i))"
  by (auto simp: page_def Let_def)

lemma task_visible_may_see:
  assumes "\<not> (case view of Some v \<Rightarrow> \<not> acl_check_privs A auth_id [''view'', v] PRIV_RESOURCE_AUDIT False | None \<Rightarrow> False)"
    and "get_optional_view cfg view = Inr v"
  shows "task_visible v (check_remote_priv A auth_id) = may_see A cfg auth_id view"
proof (cases view)
  case None
  with assms(2) show ?thesis
    by (intro ext) (simp add: get_optional_view_def task_visible_def may_see_def check_remote_priv_def)
next
  case (Some x)
  then obtain vc where "get_view cfg x = Inr vc" "v = Some vc"
    using assms(2) by (cases "get_view cfg x") (auto simp: get_optional_view_def)
  with Some assms(1) show ?thesis
    by (intro ext) (simp add: task_visible_def may_see_def)
qed

lemma get_tasks_result:
  assumes "get_tasks J E seen filters remote v check s = (Inr items, s')"
  shows "\<exists>t t' tasks corrupted.
     sys_unit ''lock'' s = (Inr (), t) \<and>
     get_tasks_impl J (if tf_running filters then Active else All) t = (Inr (tasks, corrupted), t') \<and>
     items = select_tasks E filters remote v check tasks"
  using assms
  by (auto simp: get_tasks_def locked_def io_bind_def io_return_def Let_def split: prod.splits sum.splits if_splits)

lemma list_tasks_result:
  assumes "list_tasks J E A cfg seen caller filters remote view s = (Inr items, s')"
  shows "\<exists>auth_id v. caller = Some auth_id \<and>
     task_visible v (check_remote_priv A auth_id) = may_see A cfg auth_id view \<and>
     get_tasks J E seen filters remote v (check_remote_priv A auth_id) s = (Inr items, s')"
proof (cases caller)
  case None
  with assms show ?thesis by (simp add: list_tasks_def)
next
  case (Some auth_id)
  let ?denied = "case view of Some v \<Rightarrow> \<not> acl_check_privs A auth_id [''view'', v] PRIV_RESOURCE_AUDIT False | None \<Rightarrow> False"
  have ok: "\<not> ?denied" using assms Some by (auto simp: list_tasks_def)
  obtain v where v: "get_optional_view cfg view = Inr v"
    using assms Some ok by (cases "get_optional_view cfg view") (auto simp: list_tasks_def)
  obtain r t where r: "get_tasks J E seen filters remote v (check_remote_priv A auth_id) s = (r, t)" by fastforce
  have "map_prod (map_sum TasksError (\<lambda>x. x)) (\<lambda>x. x) (r, t) = (Inr items, s')"
    using assms Some ok v r by (simp add: list_tasks_def)
  then have "(r, t) = (Inr items, s')" by (cases r) simp_all
  with r Some task_visible_may_see [OF ok v] show ?thesis by blast
qed

text \<open>
  C16. A listing is the requested page, in order, of the entries of exactly those tasks read from the cache that match
  the filters and the remote asked for and that the caller may see: without a view the caller may audit the remote,
  with a view the caller may audit the view and the view includes the node. The page starts at the offset and has
  as many entries as are left there, at most the limit unless it is 0. Callers that are not authenticated get no list.
\<close>

theorem task_listing_authorized:
  assumes "list_tasks J E A cfg seen caller filters remote view s = (Inr items, s')"
  shows "\<exists>auth_id t t' tasks corrupted. caller = Some auth_id \<and> sys_unit ''lock'' s = (Inr (), t) \<and>
     get_tasks_impl J (if tf_running filters then Active else All) t = (Inr (tasks, corrupted), t') \<and>
     (let listed = filter (matches filters) (map (entry_of E) (filter (shown E A cfg auth_id view remote) tasks));
          left = length listed - tf_start filters
      in length items = (if tf_limit filters = 0 then left else min (tf_limit filters) left) \<and>
         (\<forall>i < length items. items ! i = listed ! (tf_start filters + i)))"
proof -
  obtain auth_id v where a: "caller = Some auth_id"
    and vis: "task_visible v (check_remote_priv A auth_id) = may_see A cfg auth_id view"
    and g: "get_tasks J E seen filters remote v (check_remote_priv A auth_id) s = (Inr items, s')"
    using list_tasks_result [OF assms] by blast
  obtain t t' tasks corrupted where t: "sys_unit ''lock'' s = (Inr (), t)"
    "get_tasks_impl J (if tf_running filters then Active else All) t = (Inr (tasks, corrupted), t')"
    and items: "items = select_tasks E filters remote v (check_remote_priv A auth_id) tasks"
    using get_tasks_result [OF g] by blast
  let ?listed = "filter (matches filters) (map (entry_of E) (filter (shown E A cfg auth_id view remote) tasks))"
  have "items = page filters ?listed"
    unfolding items select_tasks_def map_filter_list_task [OF vis] filter_task_matches ..
  then have "length items = (if tf_limit filters = 0 then length ?listed - tf_start filters
        else min (tf_limit filters) (length ?listed - tf_start filters)) \<and>
      (\<forall>i < length items. items ! i = ?listed ! (tf_start filters + i))"
    using page_nth by blast
  with a t show ?thesis unfolding Let_def by blast
qed

text \<open>A caller that may audit and modify the remote \<open>r1\<close> only, and a cache with one task of it.\<close>

definition list_acl :: "str acl_env" where
  "list_acl =
     \<lparr>acl_check_privs = (\<lambda>_ path _ _. path = [''resource'', ''r1'']),
      acl_any_privs_below = (\<lambda>_ _ _. Some True), acl_lookup_privs = (\<lambda>_ _. 0)\<rparr>"

definition list_env :: task_env where
  "list_env =
     \<lparr>te_upid = ascii_upid_env,
      te_fields = (\<lambda>u. \<lparr>uf_pid = 1, uf_pstart = 2, uf_starttime = 7, uf_worker_type = ''vzdump'', uf_worker_id = None,
                        uf_auth_id = ''root@pam''\<rparr>)\<rparr>"

definition all_tasks :: TaskFilters where
  "all_tasks =
     \<lparr>tf_start = 0, tf_limit = 0, tf_errors = False, tf_running = False, tf_userfilter = Some ''root'', tf_since = Some 5,
      tf_until = None, tf_typefilter = None, tf_statusfilter = Some [StateOk]\<rparr>"

definition list_fs :: "task_item option list task_fs" where
  "list_fs =
     \<lparr>fs_dir = [(''archive.5'',
        [Text [Some \<lparr>ti_upid = remote_upid_new ''r1'' Pve ''UPID:pve:a'', ti_starttime = 7, ti_status = Some ''OK'', ti_endtime = Some 8\<rparr>],
         Text [Some \<lparr>ti_upid = remote_upid_new ''r2'' Pve ''UPID:pve:b'', ti_starttime = 6, ti_status = Some ''OK'', ti_endtime = Some 8\<rparr>]])],
      fs_journal = None, fs_state = NoState, fs_sched = []\<rparr>"

definition list_cfg :: list_config where
  "list_cfg = \<lparr>lc_remotes = None, lc_views = None\<rparr>"

theorem task_listing_authorized_witness:
  "\<exists>items s' t t' tasks corrupted.
     list_tasks frag_json list_env list_acl list_cfg (\<lambda>_. True) (Some ''u'') all_tasks None None list_fs = (Inr items, s') \<and>
     map tl_upid items = [''pve:r1!UPID:pve:a''] \<and> get_tasks_impl frag_json All t = (Inr (tasks, corrupted), t') \<and>
     items ! 0 = filter (matches all_tasks) (map (entry_of list_env) (filter (shown list_env list_acl list_cfg ''u'' None None) tasks)) ! 0"
proof -
  let ?run = "list_tasks frag_json list_env list_acl list_cfg (\<lambda>_. True) (Some ''u'') all_tasks None None list_fs"
  have "map_sum (\<lambda>_. ()) (map tl_upid) (fst ?run) = Inr [''pve:r1!UPID:pve:a'']" by code_simp
  then obtain items s' where run: "?run = (Inr items, s')" and items: "map tl_upid items = [''pve:r1!UPID:pve:a'']"
    by (cases ?run; cases "fst ?run") auto
  from items have len: "0 < length items" by auto
  have r: "tf_running all_tasks = False" "tf_start all_tasks = 0" by (simp_all add: all_tasks_def)
  from task_listing_authorized [OF run] obtain t t' tasks corrupted where
    "get_tasks_impl frag_json All t = (Inr (tasks, corrupted), t')"
    "\<forall>i < length items. items ! i = filter (matches all_tasks) (map (entry_of list_env)
      (filter (shown list_env list_acl list_cfg ''u'' None None) tasks)) ! (0 + i)"
    unfolding r if_False Let_def by blast
  with run items len show ?thesis by (metis add.left_neutral)
qed

section \<open>Statistics\<close>

primrec count_of :: "TaskStateType \<Rightarrow> TaskCount \<Rightarrow> nat" where
  "count_of StateOk c = tc_ok c"
| "count_of StateWarning c = tc_warning c"
| "count_of StateError c = tc_error c"
| "count_of StateUnknown c = tc_unknown c"

definition count_at :: "TaskStateType \<Rightarrow> (str, TaskCount) alist \<Rightarrow> str \<Rightarrow> nat" where
  "count_at st m k = (case al_get m k of None \<Rightarrow> 0 | Some c \<Rightarrow> count_of st c)"

definition count_all :: "TaskStateType \<Rightarrow> (str, TaskCount) alist \<Rightarrow> nat" where
  "count_all st m = sum_list (map (\<lambda>(_, c). count_of st c) m)"

definition in_state :: "TaskStateType \<Rightarrow> TaskListItem \<Rightarrow> bool" where
  "in_state st item \<longleftrightarrow> map_option new_from_str (tl_status item) = Some st"

definition item_remote :: "upid_env \<Rightarrow> TaskListItem \<Rightarrow> str option" where
  "item_remote env item = (case upid_from_str env (tl_upid item) of Inl _ \<Rightarrow> None | Inr u \<Rightarrow> Some (ru_remote u))"

lemma count_of_count_status [simp]: "count_of st (count_status st' c) = count_of st c + (if st' = st then 1 else 0)"
  by (cases st; cases st') (simp_all add: count_status_def)

lemma count_of_zero [simp]: "count_of st zero_count = 0"
  by (cases st) (simp_all add: zero_count_def)

lemma count_at_entry:
  "count_at st (count_entry k' st' m) k = count_at st m k + (if k' = k \<and> st' = st then 1 else 0)"
  by (simp add: count_at_def count_entry_def al_get_put split: option.split)

lemma count_all_put: "count_all st (al_put k c m) + count_at st m k = count_all st m + count_of st c"
  by (induction k c m rule: al_put.induct) (auto simp: count_all_def count_at_def)

lemma count_all_entry: "count_all st (count_entry k st' m) = count_all st m + (if st' = st then 1 else 0)"
proof (cases "al_get m k")
  case None
  with count_all_put [of st k "count_status st' zero_count" m] show ?thesis
    by (simp add: count_entry_def count_at_def)
next
  case (Some c)
  with count_all_put [of st k "count_status st' c" m] show ?thesis
    by (simp add: count_entry_def count_at_def)
qed

lemmas count_simps = count_task_def in_state_def item_remote_def Let_def count_at_entry count_all_entry

lemma count_type_fold:
  "count_at st (ts_by_type (fold (count_task env) items stats)) k =
     count_at st (ts_by_type stats) k + length (filter (\<lambda>i. in_state st i \<and> tl_worker_type i = k) items)"
  by (induction items arbitrary: stats) (auto simp: count_simps split: option.splits sum.splits)

lemma count_remote_fold:
  "count_at st (ts_by_remote (fold (count_task env) items stats)) k =
     count_at st (ts_by_remote stats) k + length (filter (\<lambda>i. in_state st i \<and> item_remote env i = Some k) items)"
  by (induction items arbitrary: stats) (auto simp: count_simps split: option.splits sum.splits)

lemma count_type_total:
  "count_all st (ts_by_type (fold (count_task env) items stats)) =
     count_all st (ts_by_type stats) + length (filter (in_state st) items)"
  by (induction items arbitrary: stats) (auto simp: count_simps split: option.splits sum.splits)

lemma count_remote_total:
  "\<forall>i\<in>set items. item_remote env i \<noteq> None \<Longrightarrow>
   count_all st (ts_by_remote (fold (count_task env) items stats)) =
     count_all st (ts_by_remote stats) + length (filter (in_state st) items)"
  by (induction items arbitrary: stats) (auto simp: count_simps split: option.splits sum.splits)

lemma item_remote_list_item:
  assumes "safe_id_spec (env_safe_id (te_upid E))" and "env_safe_id (te_upid E) (ru_remote (ti_upid task))"
    and "item_of E task item"
  shows "item_remote (te_upid E) item = Some (ru_remote (ti_upid task))"
proof -
  have u: "tl_upid item = show_upid (ti_upid task)" using assms(3) by (auto simp: item_of_def list_item_def Let_def)
  show ?thesis
    using split_show_upid [OF safe_remote_chars [OF assms(1,2)]] assms(2)
    by (simp add: u item_remote_def upid_from_str_def try_from_triple_def remote_upid_new_def)
qed

lemma listed_item_of:
  assumes "list_tasks J E A cfg seen caller filters remote view s = (Inr items, s')" and "item \<in> set items"
  shows "\<exists>task. item_of E task item"
proof -
  obtain auth_id v tasks where items: "items = select_tasks E filters remote v (check_remote_priv A auth_id) tasks"
    using list_tasks_result [OF assms(1)] get_tasks_result by metis
  have "item \<in> set (filter (filter_task filters) (List.map_filter (list_task E remote v (check_remote_priv A auth_id)) tasks))"
    using assms(2) set_page unfolding items select_tasks_def by fastforce
  then obtain task where "list_task E remote v (check_remote_priv A auth_id) task = Some item"
    by (auto simp: set_map_filter)
  then show ?thesis unfolding list_task_iff item_of_def by blast
qed

text \<open>
  C39. The statistics agree with the listing for the same request. For each task state, the count of a worker type is
  the number of listed tasks of that type in that state, and the count of a remote is the number of listed tasks of
  that remote. When the names of the remotes are valid identifiers no task is left out: the counts by type and the
  counts by remote both add up to the number of listed tasks in that state.
\<close>

theorem statistics_match_listing:
  assumes "safe_id_spec (env_safe_id (te_upid E))"
    and "task_statistics J E A cfg seen caller filters remote view s = (Inr stats, s')"
  shows "\<exists>items. list_tasks J E A cfg seen caller filters remote view s = (Inr items, s') \<and>
     (\<forall>st k. count_at st (ts_by_type stats) k = length (filter (\<lambda>i. in_state st i \<and> tl_worker_type i = k) items)) \<and>
     (\<forall>st k. count_at st (ts_by_remote stats) k = length (filter (\<lambda>i. in_state st i \<and> item_remote (te_upid E) i = Some k) items)) \<and>
     ((\<forall>item task. item \<in> set items \<longrightarrow> item_of E task item \<longrightarrow> env_safe_id (te_upid E) (ru_remote (ti_upid task))) \<longrightarrow>
        (\<forall>st. count_all st (ts_by_type stats) = length (filter (in_state st) items) \<and>
              count_all st (ts_by_remote stats) = length (filter (in_state st) items)))"
proof -
  obtain r t where r: "list_tasks J E A cfg seen caller filters remote view s = (r, t)" by fastforce
  then have "map_sum (\<lambda>e. e) (statistics_of (te_upid E)) r = Inr stats" "t = s'"
    using assms(2) by (simp_all add: task_statistics_def)
  then obtain items where l: "list_tasks J E A cfg seen caller filters remote view s = (Inr items, s')"
    and st: "stats = statistics_of (te_upid E) items"
    using r by (cases r) simp_all
  have z: "count_at x [] k = 0" "count_all x [] = 0" for x k
    by (simp_all add: count_at_def count_all_def)
  have known: "\<forall>i\<in>set items. item_remote (te_upid E) i \<noteq> None"
    if "\<forall>item task. item \<in> set items \<longrightarrow> item_of E task item \<longrightarrow> env_safe_id (te_upid E) (ru_remote (ti_upid task))"
    using that listed_item_of [OF l] item_remote_list_item [OF assms(1)] by fastforce
  show ?thesis
    using l count_remote_total [OF known]
    by (intro exI [of _ items] conjI allI impI)
       (simp_all add: st statistics_of_def count_type_fold count_remote_fold count_type_total z)
qed

theorem statistics_match_listing_witness:
  "\<exists>stats s'. task_statistics frag_json list_env list_acl list_cfg (\<lambda>_. True) (Some ''u'') all_tasks None None list_fs = (Inr stats, s') \<and>
     (\<exists>items. list_tasks frag_json list_env list_acl list_cfg (\<lambda>_. True) (Some ''u'') all_tasks None None list_fs = (Inr items, s') \<and>
        count_at StateOk (ts_by_remote stats) ''r1'' = 1 \<and> count_all StateOk (ts_by_type stats) = 1 \<and>
        count_at StateOk (ts_by_type stats) ''vzdump'' =
          length (filter (\<lambda>i. in_state StateOk i \<and> tl_worker_type i = ''vzdump'') items))"
proof -
  let ?run = "task_statistics frag_json list_env list_acl list_cfg (\<lambda>_. True) (Some ''u'') all_tasks None None list_fs"
  have "map_sum (\<lambda>_. ()) (\<lambda>x. (count_at StateOk (ts_by_remote x) ''r1'', count_all StateOk (ts_by_type x))) (fst ?run) = Inr (1, 1)"
    by code_simp
  then obtain stats s' where run: "?run = (Inr stats, s')"
    and c: "count_at StateOk (ts_by_remote stats) ''r1'' = 1" "count_all StateOk (ts_by_type stats) = 1"
    by (cases ?run; cases "fst ?run") auto
  have safe: "safe_id_spec (env_safe_id (te_upid list_env))" by (simp add: list_env_def ascii_upid_env_def)
  show ?thesis using statistics_match_listing [OF safe run] run c by blast
qed

section \<open>The manual refresh\<close>

lemma named_remotes_sound:
  "named_remotes A auth_id config names = Inr rs \<Longrightarrow>
     map Some rs = map (al_get config) names \<and>
     (\<forall>name\<in>set names. acl_check_privs A auth_id [''resource'', name] PRIV_RESOURCE_MODIFY False)"
proof (induction names arbitrary: rs)
  case (Cons name names)
  then obtain r rs' where "al_get config name = Some r" "named_remotes A auth_id config names = Inr rs'" "rs = r # rs'"
    and "acl_check_privs A auth_id [''resource'', name] PRIV_RESOURCE_MODIFY False"
    by (cases "named_remotes A auth_id config names") (auto split: if_splits option.splits)
  with Cons.IH [of rs'] show ?case by simp
qed simp

text \<open>
  C40. The worker of a manual refresh gets only configured remotes that the caller may modify: those that were named,
  one for one, and the request fails if one of them is unknown or forbidden; or, if none were named, exactly
  those that the caller may modify.
\<close>

theorem manual_refresh_authorized:
  assumes "refresh_remote_tasks A (Some config) auth_id names = Inr rs" and "al_keys_distinct config"
  shows "(\<forall>r\<in>set rs. \<exists>name. al_get config name = Some r \<and>
            acl_check_privs A auth_id [''resource'', name] PRIV_RESOURCE_MODIFY False) \<and>
     (\<forall>ns. names = Some ns \<longrightarrow> map Some rs = map (al_get config) ns \<and>
        (\<forall>name\<in>set ns. acl_check_privs A auth_id [''resource'', name] PRIV_RESOURCE_MODIFY False)) \<and>
     (names = None \<longrightarrow> (\<forall>name r. al_get config name = Some r \<longrightarrow>
        acl_check_privs A auth_id [''resource'', name] PRIV_RESOURCE_MODIFY False \<longrightarrow> r \<in> set rs))"
proof (cases names)
  case (Some ns)
  then have n: "map Some rs = map (al_get config) ns"
    "\<forall>name\<in>set ns. acl_check_privs A auth_id [''resource'', name] PRIV_RESOURCE_MODIFY False"
    using assms(1) named_remotes_sound [of A auth_id config ns rs] by (simp_all add: refresh_remote_tasks_def)
  have "\<exists>name\<in>set ns. al_get config name = Some r" if "r \<in> set rs" for r
  proof -
    have "Some r \<in> set (map (al_get config) ns)" using that n(1) [symmetric] by simp
    then show ?thesis by auto
  qed
  with n Some show ?thesis by blast
next
  case None
  let ?may = "\<lambda>name. acl_check_privs A auth_id [''resource'', name] PRIV_RESOURCE_MODIFY False"
  have "rs = List.map_filter (\<lambda>(name, remote). if ?may name then Some remote else None) config"
    using assms(1) None by (auto simp: refresh_remote_tasks_def split: option.splits bool.splits)
  then have "set rs = {r. \<exists>name. (name, r) \<in> set config \<and> ?may name}"
    by (force simp: set_map_filter split: if_splits)
  moreover have "(name, r) \<in> set config \<longleftrightarrow> al_get config name = Some r" for name r
    using al.items_get [OF assms(2)] by simp
  ultimately show ?thesis using None by auto
qed

theorem manual_refresh_authorized_witness:
  "let config = [(''r1'', \<lparr>remote_ty = Pve, remote_id = ''r1''\<rparr>), (''r2'', \<lparr>remote_ty = Pbs, remote_id = ''r2''\<rparr>)]
   in refresh_remote_tasks list_acl (Some config) ''u'' None = Inr [\<lparr>remote_ty = Pve, remote_id = ''r1''\<rparr>] \<and>
      (\<forall>name r. al_get config name = Some r \<longrightarrow>
         acl_check_privs list_acl ''u'' [''resource'', name] PRIV_RESOURCE_MODIFY False \<longrightarrow>
         r \<in> set [\<lparr>remote_ty = Pve, remote_id = ''r1''\<rparr>])"
proof -
  let ?config = "[(''r1'', \<lparr>remote_ty = Pve, remote_id = ''r1''\<rparr>), (''r2'', \<lparr>remote_ty = Pbs, remote_id = ''r2''\<rparr>)]"
  have run: "refresh_remote_tasks list_acl (Some ?config) ''u'' None = Inr [\<lparr>remote_ty = Pve, remote_id = ''r1''\<rparr>]"
    by code_simp
  have d: "al_keys_distinct ?config" by (simp add: al_keys_distinct_def)
  show ?thesis using manual_refresh_authorized [OF run d] run unfolding Let_def by blast
qed

end
