(* ===== verification/Spec2Isabelle.thy ===== *)
theory Spec2Isabelle
  imports Prelude RemoteUpid TaskItems TaskArchive TaskCache TaskCacheProps TaskRotate
    BackOff RemoteCache MultiClient NamespacedCache Search Resources Views ResourceMapping ResourceListing ResourceListingProps
    ApiCache ViewsConfig SubscriptionKeys SubscriptionPool SubscriptionPoolInv SubscriptionPoolProps SubscriptionWorker
    ParallelFetcher RefreshTask RefreshProps RemoteTaskList
begin

text \<open>
  Proxmox Datacenter Manager is a server that manages many remote Proxmox VE clusters and Proxmox Backup
  Server hosts. It keeps caches of what the remotes report, answers API requests from them, and runs
  background tasks that refresh them. This development models the parts of the server and of its libraries
  in which state, failures and concurrency meet. File names below are relative to \<^verbatim>\<open>src/\<close>.

  \<^bold>\<open>Parts and how they interact.\<close> A request of the API is checked against the access control list and a view,
  and answered from the caches. The refresh task asks all nodes of the remotes for new tasks through the
  parallel fetcher and hands them to the remote task cache, which keeps an archive, a journal and a state file.
  Every request to a remote goes through the failover client, which takes the hosts of the remote in turn and
  records in the remote mapping cache, with a back-off, which hosts cannot be reached. Resources of remotes are
  kept in the namespaced cache. The subscription pool assigns subscription keys to nodes, and a worker carries
  the pending changes to the remotes.

  \<^bold>\<open>Theories and sources.\<close>
  \<^item> \<open>Prelude\<close>: the parts of Rust's standard library that are used, dictionaries, stable sorting, and the effect
    type \<open>io\<close> with its invariant rules (\<open>io_inv\<close>) and Hoare triples (\<open>io_triple\<close>).
  \<^item> \<open>RemoteUpid\<close>: \<^verbatim>\<open>lib/pdm-api-types/src/remote_upid.rs\<close>. Printing and parsing of remote task ids.
  \<^item> \<open>TaskItems\<close>, \<open>TaskArchive\<close>, \<open>TaskCache\<close>, \<open>TaskCacheProps\<close>, \<open>TaskRotate\<close>:
    \<^verbatim>\<open>server/src/remote_tasks/task_cache.rs\<close>. \<open>task_fs\<close> is the directory of the cache; each method of
    \<^verbatim>\<open>WritableTaskCache\<close> is one definition over it. The lemmas show that the archive stays well formed, that
    applying the journal and updating lose no task wherever they are cut off, that rotation keeps the number of
    files bounded, that the cutoff timestamps cover running tasks, and that reading gives all tasks in order.
  \<^item> \<open>ParallelFetcher\<close>: \<^verbatim>\<open>server/src/parallel_fetcher.rs\<close>. The tasks of a fetch are a machine whose actions
    interleave arbitrarily. The lemmas bound the open requests, exclude deadlock and lost permits, and describe
    the result of every finished run.
  \<^item> \<open>RefreshTask\<close>, \<open>RefreshProps\<close>: \<^verbatim>\<open>server/src/remote_tasks/refresh_task.rs\<close>, the constants and \<^verbatim>\<open>get_cache\<close> of
    \<^verbatim>\<open>server/src/remote_tasks/mod.rs\<close> and the loop of \<^verbatim>\<open>server/src/bin/proxmox-datacenter-api/tasks/remote_tasks.rs\<close>.
    \<open>cover_inv\<close> says that every task of a node is recorded, older than the archive, or asked for by the next
    fetch; a tick and a manual refresh keep it.
  \<^item> \<open>RemoteTaskList\<close>: \<^verbatim>\<open>get_tasks\<close> and the tracking functions of \<^verbatim>\<open>server/src/remote_tasks/mod.rs\<close>, and
    \<^verbatim>\<open>server/src/api/remotes/tasks.rs\<close>. What is listed is authorized and complete, and the statistics agree with it.
  \<^item> \<open>BackOff\<close>, \<open>RemoteCache\<close>: \<^verbatim>\<open>server/src/remote_cache/\<close>. Back-off times and their bounds; copies of the mapping
    cache in several processes agree with the shared file.
  \<^item> \<open>MultiClient\<close>: the failover client of \<^verbatim>\<open>server/src/connection.rs\<close>. A request ends after a bounded number of
    attempts and goes on to another host only after a failure that allows it.
  \<^item> \<open>NamespacedCache\<close>, \<open>ApiCache\<close>: \<^verbatim>\<open>server/src/namespaced_cache.rs\<close>, \<^verbatim>\<open>server/src/api_cache.rs\<close> and the cached
    resources of \<^verbatim>\<open>server/src/api/resources.rs\<close>. The locale \<open>timestamped_store\<close> is the contract of the store; newer
    values are never replaced by older ones, paths stay below the base directory, what is returned is recent.
  \<^item> \<open>Search\<close>, \<open>Resources\<close>, \<open>Views\<close>, \<open>ResourceMapping\<close>, \<open>ResourceListing\<close>, \<open>ResourceListingProps\<close>:
    \<^verbatim>\<open>lib/pdm-search/src/lib.rs\<close>, \<^verbatim>\<open>lib/pdm-api-types/src/resource.rs\<close>, \<^verbatim>\<open>lib/pdm-api-types/src/views.rs\<close>,
    \<^verbatim>\<open>server/src/views/mod.rs\<close> and the listing of \<^verbatim>\<open>server/src/api/resources.rs\<close>. A listing shows only what the caller
    may see; its shortcuts give the same answer as the full evaluation.
  \<^item> \<open>ViewsConfig\<close>: \<^verbatim>\<open>server/src/api/config/views.rs\<close>. The API refines an abstract map of views and keeps the
    file well formed.
  \<^item> \<open>SubscriptionKeys\<close>, \<open>SubscriptionPool\<close>, \<open>SubscriptionPoolInv\<close>, \<open>SubscriptionPoolProps\<close>, \<open>SubscriptionWorker\<close>:
    \<^verbatim>\<open>lib/pdm-api-types/src/subscription.rs\<close>, \<^verbatim>\<open>lib/pdm-config/src/subscriptions.rs\<close> and
    \<^verbatim>\<open>server/src/api/subscriptions/mod.rs\<close>. \<open>pool_change\<close> is the abstract step relation that every handler
    refines; the locale \<open>pool_guarantee\<close> turns facts about steps into facts about handlers.

  \<^bold>\<open>State and effects.\<close> A Rust function that returns \<^verbatim>\<open>Result\<close> and changes state is an \<open>io\<close> value: it returns the
  state on both paths, because effects made before an early return stay. A state carries a list that says which
  of the coming calls fail, so a lemma about all states is about every pattern of failing calls. What other
  processes do while a function does not hold its lock is an argument, usually named \<open>meanwhile\<close>.
  \<^verbatim>\<open>String\<close> is a HOL string of bytes; \<^verbatim>\<open>i64\<close> is \<open>int\<close> with the wrap-around of a release build written out; \<^verbatim>\<open>u32\<close>,
  \<^verbatim>\<open>u64\<close> and \<^verbatim>\<open>usize\<close> are words where they can wrap and \<open>nat\<close> where the code cannot reach the limit.

  \<^bold>\<open>Code outside.\<close> Third-party crates are parameters, collected in records such as \<open>upid_env\<close>, \<open>acl_env\<close>,
  \<open>match_env\<close>, \<open>views_env\<close> and \<open>sub_env\<close>, or single functions. What the code relies on is a named hypothesis:
  \<open>json_ok\<close> and \<open>codec_ok\<close> (what was written can be read back), \<open>safe_id_spec\<close> (the characters of a safe
  identifier) and \<open>lower_spec\<close> (lower-casing). The witnesses instantiate them with concrete functions.

  \<^bold>\<open>Bounds and termination.\<close> No definition runs on fuel. Loops over data are structural; the retry loop of
  \<open>MultiClient\<close> takes one event per pass and \<open>request_terminates\<close> shows that n + 1 events are enough for n hosts;
  a run of the parallel fetcher is a list of actions and \<open>fetch_never_blocks\<close> bounds its length by four
  actions for every remote and three for every node.

  \<^bold>\<open>Not modelled.\<close> Each item is a component of its own in the manifest.
  \<^item> The user interface (\<^verbatim>\<open>ui/\<close>, \<^verbatim>\<open>lib/pdm-ui-shared\<close>), the command line tools (\<^verbatim>\<open>cli/\<close>) and the typed HTTP client
    (\<^verbatim>\<open>lib/pdm-client\<close>): they present or forward what the API returns and keep no state of the server.
  \<^item> The handlers below \<^verbatim>\<open>server/src/api/pve\<close>, \<^verbatim>\<open>server/src/api/pbs\<close>, \<^verbatim>\<open>server/src/api/sdn\<close>, \<^verbatim>\<open>server/src/api/nodes\<close> and
    \<^verbatim>\<open>server/src/api/access\<close>, \<^verbatim>\<open>sdn_client.rs\<close> and \<^verbatim>\<open>pbs_client.rs\<close>: each checks a privilege through the access control
    crate and forwards one request to a remote or to a crate of the host.
  \<^item> Authentication, certificates, notifications and ACME: the decisions are made in crates outside \<^verbatim>\<open>src/\<close>.
  \<^item> Metric collection, remote updates, Ceph clusters, backup jobs and the automatic installer: independent
    components with files of their own, not needed by the parts above.
  \<^item> The loading of configuration files below \<^verbatim>\<open>lib/pdm-config\<close> other than those named above: section config parsing
    is in a crate outside \<^verbatim>\<open>src/\<close>; parsed sections are the state of the models.
  \<^item> Process start, sockets and log rotation in \<^verbatim>\<open>server/src/bin\<close>: calls into the operating system.
\<close>

end
